(* ===== verification/Prelude.thy ===== *)
theory Prelude
  imports Complex_Main "HOL-Library.Word" "HOL-Library.Monad_Syntax"
begin

text \<open>
  What every part of the model shares: the names of the machine types of the 32-bit
  build (the Makefile passes \<open>-m32\<close>: pointers, \<open>size_t\<close>, \<open>int\<close> and \<open>long\<close> are
  32 bits wide), the byte-level view of memory with little-endian word access, and the
  facts on lists, options and words the component proofs rest on.

  A C function is modelled as a function into \<open>option\<close>: \<open>None\<close> is an execution with
  no defined result (an access outside the simulated heap, or a loop that never ends);
  so every theorem with a conclusion \<open>f x = Some y\<close> says that the call is memory safe
  and returns.
\<close>

unbundle bit_operations_syntax

section \<open>Machine types\<close>

type_synonym u32 = "32 word"
type_synonym u8 = "8 word"
type_synonym addr = "32 word"
type_synonym bytes = "addr \<Rightarrow> u8"

abbreviation (input) NULL :: addr where
  "NULL \<equiv> 0"

named_theorems word_access \<comment> \<open>how loads see stores\<close>
named_theorems nat_addr \<comment> \<open>pointer arithmetic read back as arithmetic on \<open>nat\<close>\<close>

section \<open>Lists, options, numbers\<close>

lemma bind_SomeI: "m = Some a \<Longrightarrow> f a = r \<Longrightarrow> Option.bind m f = r"
  by simp

lemma dvd8_dvd4: "8 dvd n \<Longrightarrow> 4 dvd n" for n :: nat
  by (rule dvd_trans [of 4 8]) simp_all

lemma dvd_gap: "d dvd a \<Longrightarrow> d dvd b \<Longrightarrow> a < b \<Longrightarrow> a + d \<le> b" for d a b :: nat
  by (metis add_diff_inverse_nat dvd_diff_nat dvd_imp_le less_imp_not_less nat_add_left_cancel_le zero_less_diff)

lemma list_last_cases:
  obtains (Nil) "xs = []" | (snoc) ys y where "xs = ys @ [y]"
  by (cases xs rule: rev_cases) auto

section \<open>Words and natural numbers\<close>

lemma unat_word32 [nat_addr]: "n < 2 ^ 32 \<Longrightarrow> unat (of_nat n :: u32) = n"
  by (simp add: unat_of_nat take_bit_nat_eq_self)

lemma of_nat_word32_eq: "m < 2 ^ 32 \<Longrightarrow> n < 2 ^ 32 \<Longrightarrow> (of_nat m :: u32) = of_nat n \<longleftrightarrow> m = n"
  by (metis unat_word32)

lemma of_nat_word32_le: "m < 2 ^ 32 \<Longrightarrow> n < 2 ^ 32 \<Longrightarrow> (of_nat m :: u32) \<le> of_nat n \<longleftrightarrow> m \<le> n"
  by (simp add: word_le_nat_alt unat_word32)

lemma of_nat_word32_less: "m < 2 ^ 32 \<Longrightarrow> n < 2 ^ 32 \<Longrightarrow> (of_nat m :: u32) < of_nat n \<longleftrightarrow> m < n"
  by (simp add: word_less_nat_alt unat_word32)

lemma of_nat_word32_minus [nat_addr]: "n \<le> m \<Longrightarrow> (of_nat m :: u32) - of_nat n = of_nat (m - n)"
  by (simp add: of_nat_diff)

lemma of_nat_word32_plus [nat_addr]: "(of_nat m :: u32) + of_nat n = of_nat (m + n)"
  by simp

lemma word32_nat_cases:
  fixes w :: u32
  obtains n where "n < 2 ^ 32" "w = of_nat n"
proof (rule that)
  show "unat w < 2 ^ 32"
    using unsigned_less [of w] by simp
qed simp

lemma mod2_word32: "n < 2 ^ 32 \<Longrightarrow> (of_nat n :: u32) mod 2 = 0 \<longleftrightarrow> even n"
  by (simp add: unat_arith_simps unat_mod unat_word32 even_iff_mod_2_eq_zero)

lemma minus_one_word32: "n < 2 ^ 32 - 1 \<Longrightarrow> (of_nat n :: u32) \<noteq> - 1"
proof -
  assume n: "n < 2 ^ 32 - 1"
  have "(- 1 :: u32) = of_nat (2 ^ 32 - 1)"
    by simp
  with n show ?thesis
    by (simp only: of_nat_word32_eq)
qed

lemma sint_nonneg_word32: "n < 2 ^ 31 \<Longrightarrow> sint (of_nat n :: u32) = int n"
  by (simp add: signed_of_nat signed_take_bit_eq_if_positive bit_iff_odd take_bit_int_eq_self)

section \<open>The size field of a boundary tag\<close>

lemma and_not7:
  assumes "8 dvd n"
  shows "(of_nat n :: u32) AND NOT 7 = of_nat n"
proof -
  obtain k where n: "n = k * 8"
    using assms by (auto elim: dvdE)
  have "(of_nat n :: u32) = push_bit 3 (of_nat k)"
    by (simp add: n push_bit_eq_mult)
  moreover have "push_bit 3 (w :: u32) AND NOT (mask 3) = push_bit 3 w" for w
    by (rule bit_word_eqI) (auto simp: bit_simps)
  moreover have "(mask 3 :: u32) = 7"
    by (simp add: mask_eq_exp_minus_1)
  ultimately show ?thesis
    by simp
qed

lemma and_1_dvd8:
  assumes "8 dvd n"
  shows "(of_nat n :: u32) AND 1 = 0"
proof -
  obtain k where n: "n = 2 * (4 * k)"
    using assms by (auto elim: dvdE)
  have "even (of_nat n :: u32)"
    unfolding n by simp
  then show ?thesis
    by (simp add: and_one_eq odd_iff_mod_2_eq_one even_iff_mod_2_eq_zero)
qed

lemma pack_size:
  assumes "8 dvd n"
  shows "((of_nat n :: u32) OR of_bool b) AND NOT 7 = of_nat n"
proof -
  have "(1 :: u32) AND NOT 7 = 0"
    by simp
  with and_not7 [OF assms] show ?thesis
    by (cases b) (simp_all only: bit.conj_disj_distrib2 of_bool_eq or.right_neutral)
qed

lemma pack_alloc:
  assumes "8 dvd n"
  shows "((of_nat n :: u32) OR of_bool b) AND 1 = of_bool b"
  using assms by (cases b) (simp_all add: bit.conj_disj_distrib2 and_1_dvd8)

section \<open>Little-endian 32-bit access to byte memory\<close>

definition load32 :: "bytes \<Rightarrow> addr \<Rightarrow> u32" where
  "load32 m p =
     ucast (m p) OR push_bit 8 (ucast (m (p + 1)))
     OR push_bit 16 (ucast (m (p + 2))) OR push_bit 24 (ucast (m (p + 3)))"

definition store32 :: "bytes \<Rightarrow> addr \<Rightarrow> u32 \<Rightarrow> bytes" where
  "store32 m p v =
     m(p := ucast v, p + 1 := ucast (drop_bit 8 v),
       p + 2 := ucast (drop_bit 16 v), p + 3 := ucast (drop_bit 24 v))"

lemma load32_store32_same: "load32 (store32 m p v) p = v"
proof (rule bit_word_eqI)
  fix n
  assume "n < LENGTH(32)"
  then consider "n < 8" | "8 \<le> n" "n < 16" | "16 \<le> n" "n < 24" | "24 \<le> n" "n < 32"
    by force
  then show "bit (load32 (store32 m p v) p) n = bit v n"
    by cases (auto simp: load32_def store32_def bit_simps)
qed

lemma store32_other_byte:
  assumes "q \<notin> {p, p + 1, p + 2, p + 3}"
  shows "store32 m p v q = m q"
  using assms by (simp add: store32_def)

lemma load32_cong:
  assumes "m p = m' p" "m (p + 1) = m' (p + 1)" "m (p + 2) = m' (p + 2)" "m (p + 3) = m' (p + 3)"
  shows "load32 m p = load32 m' p"
  using assms by (simp add: load32_def)

lemma store32_nat_byte:
  assumes "p + 4 \<le> 2 ^ 32" "q < 2 ^ 32" "q < p \<or> p + 4 \<le> q"
  shows "store32 m (of_nat p) v (of_nat q) = m (of_nat q)"
proof (rule store32_other_byte)
  have "(of_nat q :: addr) \<noteq> of_nat (p + k)" if "k < 4" for k
    using assms that by (subst of_nat_word32_eq) auto
  from this [of 0] this [of 1] this [of 2] this [of 3]
  show "(of_nat q :: addr) \<notin> {of_nat p, of_nat p + 1, of_nat p + 2, of_nat p + 3}"
    by (simp add: add.commute)
qed

lemma load32_store32_nat [word_access]:
  assumes "p + 4 \<le> 2 ^ 32" "q + 4 \<le> 2 ^ 32" "q + 4 \<le> p \<or> p + 4 \<le> q"
  shows "load32 (store32 m (of_nat p) v) (of_nat q) = load32 m (of_nat q)"
proof -
  have "store32 m (of_nat p) v (of_nat (q + k)) = m (of_nat (q + k))" if "k < 4" for k
    using assms that by (intro store32_nat_byte) auto
  from this [of 0] this [of 1] this [of 2] this [of 3] show ?thesis
    by (intro load32_cong) (simp_all add: add.commute)
qed

lemma load32_nat_cong:
  assumes "\<And>r. q \<le> r \<Longrightarrow> r < q + 4 \<Longrightarrow> m (of_nat r) = m' (of_nat r)"
  shows "load32 m (of_nat q) = load32 m' (of_nat q)"
  using assms [of q] assms [of "q + 1"] assms [of "q + 2"] assms [of "q + 3"]
  by (intro load32_cong) (simp_all add: add.commute)

section \<open>Signed integers\<close>

text \<open>An \<open>int\<close> result: signed overflow is not defined.\<close>

definition int32 :: "int \<Rightarrow> int option" where
  "int32 v = (if - (2 ^ 31) \<le> v \<and> v < 2 ^ 31 then Some v else None)"

text \<open>Addresses stay in the form \<open>of_nat (base + offset)\<close>: the library's rewriting in the
  other direction is switched off from here on.\<close>

declare of_nat_diff [simp del] of_nat_add [simp del]

end
