(* ===== verification/Memlib.thy ===== *)
theory Memlib
  imports Prelude
begin

text \<open>
  \<open>memlib.c\<close>: the simulated memory system. The record holds the three private
  pointers of the file, \<open>errno\<close>, and the bytes of the address space the storage lies in.
  The storage itself comes from the C library's \<open>malloc\<close>, whose result is an argument of
  \<open>mem_init\<close>. Beside the operations of the file stand the byte, word and block accesses
  its clients make through pointers: each is defined only inside the storage.
\<close>

section \<open>State\<close>

record mem =
  mem_bytes :: bytes
  mem_start_brk :: addr
  mem_brk :: addr
  mem_max_addr :: addr
  errno :: u32

text \<open>
  How a call that ends the process ends it: \<open>exit\<close> with a status after some last text on the
  standard output or the standard error, \<open>exit(1)\<close> after a message that \<open>strerror(errno)\<close>
  completes, or a failed \<open>assert\<close>.
\<close>

datatype exit = Exit int string | System_Exit string | Abort

text \<open>\<open>"...\n"\<close>\<close>

definition line :: "string \<Rightarrow> string" where "line s = s @ [CHR 0x0A]"

definition MAX_HEAP :: nat where
  "MAX_HEAP = 20 * 2 ^ 20"

definition ENOMEM :: u32 where
  "ENOMEM = 12"

section \<open>Operations\<close>

definition mem_init :: "addr \<Rightarrow> 'a mem_scheme \<Rightarrow> exit + 'a mem_scheme" where
  "mem_init p s =
     (if p = NULL then Inl (Exit 1 (line ''mem_init_vm: malloc error''))
      else Inr (s\<lparr>mem_start_brk := p,
                  mem_max_addr := p + of_nat MAX_HEAP,
                  mem_brk := p\<rparr>))"

definition mem_deinit :: "(addr \<Rightarrow> 'env \<Rightarrow> 'env) \<Rightarrow> 'a mem_scheme \<Rightarrow> 'env \<Rightarrow> 'env" where
  "mem_deinit libc_free s env = libc_free (mem_start_brk s) env"

definition mem_reset_brk :: "'a mem_scheme \<Rightarrow> 'a mem_scheme" where
  "mem_reset_brk s = s\<lparr>mem_brk := mem_start_brk s\<rparr>"

text \<open>The argument is an \<open>int\<close>; the addition to the pointer is the machine's, modulo
  \<open>2 ^ 32\<close>.\<close>

definition mem_sbrk :: "u32 \<Rightarrow> 'a mem_scheme \<Rightarrow> addr \<times> 'a mem_scheme" where
  "mem_sbrk incr s =
     (let old_brk = mem_brk s in
      if sint incr < 0 \<or> mem_brk s + incr > mem_max_addr s
      then (- 1, s\<lparr>errno := ENOMEM\<rparr>)
      else (old_brk, s\<lparr>mem_brk := mem_brk s + incr\<rparr>))"

definition mem_heap_lo :: "'a mem_scheme \<Rightarrow> addr" where
  "mem_heap_lo s = mem_start_brk s"

definition mem_heap_hi :: "'a mem_scheme \<Rightarrow> addr" where
  "mem_heap_hi s = mem_brk s - 1"

definition mem_heapsize :: "'a mem_scheme \<Rightarrow> u32" where
  "mem_heapsize s = mem_brk s - mem_start_brk s"

definition mem_pagesize :: "u32 \<Rightarrow> u32" where
  "mem_pagesize getpagesize = getpagesize"

section \<open>Access through pointers\<close>

text \<open>
  An object access is defined when it lies inside the storage \<open>mem_init\<close> obtained; a
  32-bit access also needs the alignment of \<open>unsigned int\<close>.
\<close>

definition in_arena :: "'a mem_scheme \<Rightarrow> addr \<Rightarrow> nat \<Rightarrow> bool" where
  "in_arena s p n \<longleftrightarrow>
     unat (mem_start_brk s) \<le> unat p \<and> unat p + n \<le> unat (mem_max_addr s)"

definition read32 :: "'a mem_scheme \<Rightarrow> addr \<Rightarrow> u32 option" where
  "read32 s p =
     (if in_arena s p 4 \<and> unat p mod 4 = 0 then Some (load32 (mem_bytes s) p) else None)"

definition write32 :: "addr \<Rightarrow> u32 \<Rightarrow> 'a mem_scheme \<Rightarrow> 'a mem_scheme option" where
  "write32 p v s =
     (if in_arena s p 4 \<and> unat p mod 4 = 0
      then Some (s\<lparr>mem_bytes := store32 (mem_bytes s) p v\<rparr>) else None)"

definition read8 :: "'a mem_scheme \<Rightarrow> addr \<Rightarrow> u8 option" where
  "read8 s p = (if in_arena s p 1 then Some (mem_bytes s p) else None)"

text \<open>\<open>memset\<close> and \<open>memcpy\<close> of the C library; \<open>memcpy\<close> is defined for disjoint
  objects only.\<close>

definition memset :: "addr \<Rightarrow> u8 \<Rightarrow> u32 \<Rightarrow> 'a mem_scheme \<Rightarrow> 'a mem_scheme option" where
  "memset p c n s =
     (if in_arena s p (unat n)
      then Some (s\<lparr>mem_bytes := (\<lambda>q. if unat (q - p) < unat n then c else mem_bytes s q)\<rparr>)
      else None)"

definition memcpy :: "addr \<Rightarrow> addr \<Rightarrow> u32 \<Rightarrow> 'a mem_scheme \<Rightarrow> 'a mem_scheme option" where
  "memcpy dst src n s =
     (if in_arena s dst (unat n) \<and> in_arena s src (unat n)
         \<and> (unat dst + unat n \<le> unat src \<or> unat src + unat n \<le> unat dst)
      then Some (s\<lparr>mem_bytes := (\<lambda>q. if unat (q - dst) < unat n
                                      then mem_bytes s (src + (q - dst)) else mem_bytes s q)\<rparr>)
      else None)"

section \<open>Addresses as natural numbers\<close>

abbreviation lo :: "'a mem_scheme \<Rightarrow> nat" where
  "lo s \<equiv> unat (mem_start_brk s)"

abbreviation brk :: "'a mem_scheme \<Rightarrow> nat" where
  "brk s \<equiv> unat (mem_brk s)"

abbreviation hi :: "'a mem_scheme \<Rightarrow> nat" where
  "hi s \<equiv> unat (mem_max_addr s)"

text \<open>
  The state after \<open>mem_init\<close>, kept by every operation: the storage is a non-null,
  8-byte aligned object of \<open>MAX_HEAP\<close> bytes, and the break lies inside it.
\<close>

definition arena_ok :: "'a mem_scheme \<Rightarrow> bool" where
  "arena_ok s \<longleftrightarrow> 0 < lo s \<and> 8 dvd lo s \<and> hi s = lo s + MAX_HEAP \<and> lo s \<le> brk s \<and> brk s \<le> hi s"

definition word_at :: "'a mem_scheme \<Rightarrow> nat \<Rightarrow> u32" where
  "word_at s q = load32 (mem_bytes s) (of_nat q)"

definition byte_at :: "'a mem_scheme \<Rightarrow> nat \<Rightarrow> u8" where
  "byte_at s q = mem_bytes s (of_nat q)"

definition put_word :: "nat \<Rightarrow> u32 \<Rightarrow> 'a mem_scheme \<Rightarrow> 'a mem_scheme" where
  "put_word q v s = s\<lparr>mem_bytes := store32 (mem_bytes s) (of_nat q) v\<rparr>"

lemma hi_less: "hi s < 2 ^ 32"
  using unsigned_less [of "mem_max_addr s"] by simp

lemma put_word_fields [simp]:
  "mem_start_brk (put_word q v s) = mem_start_brk s"
  "mem_brk (put_word q v s) = mem_brk s"
  "mem_max_addr (put_word q v s) = mem_max_addr s"
  "errno (put_word q v s) = errno s"
  "mem.more (put_word q v s) = mem.more s"
  by (simp_all add: put_word_def)

lemma arena_ok_put_word [simp]: "arena_ok (put_word q v s) = arena_ok s"
  by (simp add: arena_ok_def)

lemma word_at_put_word [word_access]:
  assumes "4 dvd p" "4 dvd q" "p + 4 \<le> 2 ^ 32" "q + 4 \<le> 2 ^ 32"
  shows "word_at (put_word p v s) q = (if q = p then v else word_at s q)"
proof (cases "q = p")
  case True
  then show ?thesis
    by (simp add: word_at_def put_word_def load32_store32_same)
next
  case False
  then have "q + 4 \<le> p \<or> p + 4 \<le> q"
    using assms dvd_gap [of 4 p q] dvd_gap [of 4 q p] by linarith
  with False assms show ?thesis
    by (simp add: word_at_def put_word_def load32_store32_nat)
qed

lemma byte_at_put_word [word_access]:
  assumes "p + 4 \<le> 2 ^ 32" "q < 2 ^ 32" "q < p \<or> p + 4 \<le> q"
  shows "byte_at (put_word p v s) q = byte_at s q"
  using assms by (simp add: byte_at_def put_word_def store32_nat_byte)

lemma word_at_cong:
  assumes "\<And>r. q \<le> r \<Longrightarrow> r < q + 4 \<Longrightarrow> byte_at s r = byte_at s' r"
  shows "word_at s q = word_at s' q"
  unfolding word_at_def by (rule load32_nat_cong) (rule assms [unfolded byte_at_def])

lemma in_arena_nat:
  assumes "lo s \<le> q" "q + n \<le> hi s"
  shows "in_arena s (of_nat q) n"
proof -
  have "q < 2 ^ 32"
    using assms hi_less [of s] by linarith
  with assms show ?thesis
    by (simp add: in_arena_def unat_word32)
qed

lemma read32_nat:
  assumes "4 dvd q" "lo s \<le> q" "q + 4 \<le> hi s"
  shows "read32 s (of_nat q) = Some (word_at s q)"
proof -
  have "q < 2 ^ 32"
    using assms hi_less [of s] by linarith
  with assms show ?thesis
    by (simp add: read32_def word_at_def in_arena_nat unat_word32)
qed

lemma write32_nat:
  assumes "4 dvd q" "lo s \<le> q" "q + 4 \<le> hi s"
  shows "write32 (of_nat q) v s = Some (put_word q v s)"
proof -
  have "q < 2 ^ 32"
    using assms hi_less [of s] by linarith
  with assms show ?thesis
    by (simp add: write32_def put_word_def in_arena_nat unat_word32)
qed

lemma read8_nat:
  assumes "lo s \<le> q" "q < hi s"
  shows "read8 s (of_nat q) = Some (byte_at s q)"
  using assms by (simp add: read8_def byte_at_def in_arena_nat)

section \<open>\<open>mem_sbrk\<close> on natural numbers\<close>

lemma MAX_HEAP_val: "MAX_HEAP = 20971520"
  by (simp add: MAX_HEAP_def)

text \<open>
  The behaviour the file documents, as long as break and increment together do not reach
  the end of the address space: the heap grows up to \<open>MAX_HEAP\<close> bytes, and a request
  that does not fit fails and moves nothing.
\<close>

lemma mem_sbrk_nat:
  assumes ok: "arena_ok s" and wrap: "brk s + n < 2 ^ 32"
  shows "mem_sbrk (of_nat n) s =
    (if brk s + n \<le> hi s then (of_nat (brk s), s\<lparr>mem_brk := of_nat (brk s + n)\<rparr>)
     else (- 1, s\<lparr>errno := ENOMEM\<rparr>))"
proof -
  have b: "mem_brk s = of_nat (brk s)"
    by simp
  have sum: "mem_brk s + of_nat n = of_nat (brk s + n)"
    by (subst b) (simp only: of_nat_add)
  have cmp: "mem_max_addr s < of_nat (brk s + n) \<longleftrightarrow> hi s < brk s + n"
    using wrap by (simp only: word_less_nat_alt unat_word32)
  have "n < 2 ^ 31" if "brk s + n \<le> hi s"
    using that ok by (auto simp: arena_ok_def MAX_HEAP_val)
  then have "sint (of_nat n :: u32) = int n" if "brk s + n \<le> hi s"
    using that by (intro sint_nonneg_word32)
  then show ?thesis
    by (auto simp: mem_sbrk_def cmp sum Let_def)
qed

lemma mem_sbrk_brk:
  assumes "brk s + n \<le> hi s"
  shows "unat (of_nat (brk s + n) :: addr) = brk s + n"
  using assms hi_less [of s] by (intro unat_word32) linarith

section \<open>What a write may change\<close>

text \<open>Only bytes in \<open>[l, h)\<close> change, and nothing but bytes.\<close>

definition changes_only :: "'a mem_scheme \<Rightarrow> 'a mem_scheme \<Rightarrow> nat \<Rightarrow> nat \<Rightarrow> bool" where
  "changes_only s s' l h \<longleftrightarrow>
     (\<exists>m. s' = s\<lparr>mem_bytes := m\<rparr>)
     \<and> (\<forall>q. q < 2 ^ 32 \<longrightarrow> q < l \<or> h \<le> q \<longrightarrow> byte_at s' q = byte_at s q)"

lemma changes_only_refl [simp]: "changes_only s s l h"
  by (auto simp: changes_only_def intro: exI [of _ "mem_bytes s"])

lemma changes_only_regs:
  assumes "changes_only s s' l h"
  shows "mem_start_brk s' = mem_start_brk s" "mem_brk s' = mem_brk s"
    "mem_max_addr s' = mem_max_addr s" "errno s' = errno s"
  using assms by (auto simp: changes_only_def)

lemma changes_only_trans:
  assumes "changes_only s t l h" "changes_only t u l h"
  shows "changes_only s u l h"
  using assms by (auto simp: changes_only_def)

lemma changes_only_mono:
  assumes "changes_only s t l h" "l' \<le> l" "h \<le> h'"
  shows "changes_only s t l' h'"
  using assms by (auto simp: changes_only_def)

lemma changes_only_put:
  assumes "changes_only s t l h" "l \<le> p" "p + 4 \<le> h" "h \<le> 2 ^ 32"
  shows "changes_only s (put_word p v t) l h"
proof -
  have "\<exists>m. put_word p v t = s\<lparr>mem_bytes := m\<rparr>"
    using assms(1) by (auto simp: changes_only_def put_word_def)
  moreover have "byte_at (put_word p v t) q = byte_at s q"
    if "q < 2 ^ 32" "q < l \<or> h \<le> q" for q
  proof -
    have "byte_at (put_word p v t) q = byte_at t q"
      using assms that by (intro byte_at_put_word) auto
    with assms(1) that show ?thesis
      unfolding changes_only_def by auto
  qed
  ultimately show ?thesis
    by (simp add: changes_only_def)
qed

lemma changes_only_word:
  assumes "changes_only s t l h" "q + 4 \<le> 2 ^ 32" "q + 4 \<le> l \<or> h \<le> q"
  shows "word_at t q = word_at s q"
  using assms by (intro word_at_cong) (auto simp: changes_only_def)

lemma unat_offset:
  assumes "p < 2 ^ 32" "q < 2 ^ 32"
  shows "unat ((of_nat q :: addr) - of_nat p) = (if p \<le> q then q - p else q + 2 ^ 32 - p)"
  using assms by (simp add: unat_sub_if_size unat_word32 word_size)

lemma memset_nat:
  assumes "lo s \<le> p" "p + n \<le> hi s"
  shows "\<exists>s'. memset (of_nat p) c (of_nat n) s = Some s' \<and> changes_only s s' p (p + n)
    \<and> (\<forall>i < n. byte_at s' (p + i) = c)"
proof -
  have b: "p + n < 2 ^ 32" "unat (of_nat n :: u32) = n"
    using assms hi_less [of s] by (auto intro!: unat_word32)
  have "unat ((of_nat q :: addr) - of_nat p) < n \<longleftrightarrow> p \<le> q \<and> q < p + n" if "q < 2 ^ 32" for q
    using unat_offset [of p q] b that by auto
  with b in_arena_nat [OF assms] show ?thesis
    by (auto simp: memset_def changes_only_def byte_at_def)
qed

lemma memcpy_nat:
  assumes "lo s \<le> p" "p + n \<le> hi s" "lo s \<le> q" "q + n \<le> hi s" "p + n \<le> q \<or> q + n \<le> p"
  shows "\<exists>s'. memcpy (of_nat p) (of_nat q) (of_nat n) s = Some s' \<and> changes_only s s' p (p + n)
    \<and> (\<forall>i < n. byte_at s' (p + i) = byte_at s (q + i))"
proof -
  have b: "p + n < 2 ^ 32" "q + n < 2 ^ 32" "unat (of_nat n :: u32) = n"
    "unat (of_nat p :: u32) = p" "unat (of_nat q :: u32) = q"
    using assms hi_less [of s] by (auto intro!: unat_word32)
  have off: "unat ((of_nat r :: addr) - of_nat p) < n \<longleftrightarrow> p \<le> r \<and> r < p + n" if "r < 2 ^ 32" for r
    using unat_offset [of p r] b(1) that by auto
  have src: "(of_nat q :: addr) + (of_nat (p + i) - of_nat p) = of_nat (q + i)" for i
    by (simp add: of_nat_add)
  show ?thesis
    using b assms(5) off src in_arena_nat [OF assms(1,2)] in_arena_nat [OF assms(3,4)]
    by (auto simp: memcpy_def changes_only_def byte_at_def)
qed

end
