(* ===== verification/Memlib_Correct.thy ===== *)
theory Memlib_Correct
  imports Memlib
begin

text \<open>
  The properties of \<open>memlib.c\<close>: what \<open>mem_sbrk\<close> hands out, and the increments for which the
  limit check does not work.
\<close>

section \<open>A concrete arena\<close>

definition low_arena :: "unit mem_scheme" where
  "low_arena = \<lparr>mem_bytes = (\<lambda>_. 0), mem_start_brk = 0x10000, mem_brk = 0x10000,
     mem_max_addr = 0x1410000, errno = 0\<rparr>"

definition high_arena :: "unit mem_scheme" where
  "high_arena = \<lparr>mem_bytes = (\<lambda>_. 0), mem_start_brk = 0xF7000000, mem_brk = 0xF7000000,
     mem_max_addr = 0xF8400000, errno = 0\<rparr>"

lemma arenas_ok: "arena_ok low_arena" "arena_ok high_arena"
  by (simp_all add: low_arena_def high_arena_def arena_ok_def MAX_HEAP_val)

section \<open>\<open>mem_sbrk\<close>\<close>

text \<open>Successive calls: the results in order, and the last state.\<close>

fun sbrk_seq :: "nat list \<Rightarrow> 'a mem_scheme \<Rightarrow> addr list \<times> 'a mem_scheme" where
  "sbrk_seq [] s = ([], s)"
| "sbrk_seq (n # ns) s =
     (let (p, s) = mem_sbrk (of_nat n) s; (ps, s) = sbrk_seq ns s in (p # ps, s))"

lemma mem_sbrk_ok:
  assumes "arena_ok s" "brk s + n \<le> hi s"
  shows "mem_sbrk (of_nat n) s = (of_nat (brk s), s\<lparr>mem_brk := of_nat (brk s + n)\<rparr>)"
  using mem_sbrk_nat [OF assms(1), of n] assms(2) hi_less [of s] by simp

lemma sbrk_seq_adjacent:
  assumes "arena_ok s" "brk s + sum_list ns \<le> hi s"
  shows "sbrk_seq ns s = (map (\<lambda>i. of_nat (brk s + sum_list (take i ns))) [0 ..< length ns],
    s\<lparr>mem_brk := of_nat (brk s + sum_list ns)\<rparr>)"
  using assms
proof (induction ns arbitrary: s)
  case Nil
  show ?case
    by simp
next
  case (Cons n ns)
  let ?s = "s\<lparr>mem_brk := of_nat (brk s + n)\<rparr>"
  have brk: "brk ?s = brk s + n"
    using mem_sbrk_brk [of s n] Cons.prems(2) by simp
  have ok: "arena_ok ?s"
    using Cons.prems brk by (simp add: arena_ok_def)
  have seq: "sbrk_seq ns ?s = (map (\<lambda>i. of_nat (brk s + n + sum_list (take i ns))) [0 ..< length ns],
      s\<lparr>mem_brk := of_nat (brk s + n + sum_list ns)\<rparr>)"
    using Cons.IH [OF ok] Cons.prems(2) brk by simp
  have "mem_sbrk (of_nat n) s = (of_nat (brk s), ?s)"
    by (rule mem_sbrk_ok [OF Cons.prems(1)]) (use Cons.prems(2) in simp)
  with seq show ?case
    by (simp add: upt_conv_Cons map_Suc_upt [symmetric] add.assoc del: upt_Suc)
qed

text \<open>
  Property C28. \<open>mem_sbrk\<close> of \<open>n\<close> bytes moves the break up by \<open>n\<close> and returns the old break, if
  the storage has so many bytes left; else it returns -1, sets \<open>errno\<close> and moves nothing.
  Break and \<open>n\<close> together must be below \<open>2 ^ 32\<close>.
\<close>

theorem mem_sbrk_correct:
  assumes "arena_ok s" "brk s + n < 2 ^ 32"
  shows "mem_sbrk (of_nat n) s =
    (if brk s + n \<le> hi s then (of_nat (brk s), s\<lparr>mem_brk := of_nat (brk s + n)\<rparr>)
     else (- 1, s\<lparr>errno := ENOMEM\<rparr>))"
  by (rule mem_sbrk_nat [OF assms])

theorem mem_sbrk_correct_witness:
  "mem_sbrk 4096 low_arena = (0x10000, low_arena\<lparr>mem_brk := 0x11000\<rparr>)
   \<and> mem_sbrk 30000000 low_arena = (- 1, low_arena\<lparr>errno := ENOMEM\<rparr>)"
  using mem_sbrk_correct [OF arenas_ok(1), of 4096] mem_sbrk_correct [OF arenas_ok(1), of 30000000]
  by (simp add: low_arena_def)

text \<open>
  Successive calls of \<open>mem_sbrk\<close> that fit together return adjacent areas: each
  starts where the one before ended, the first at the break.
\<close>

lemma mem_sbrk_contiguous:
  assumes "arena_ok s" "brk s + sum_list ns \<le> hi s"
  shows "sbrk_seq ns s = (map (\<lambda>i. of_nat (brk s + sum_list (take i ns))) [0 ..< length ns],
    s\<lparr>mem_brk := of_nat (brk s + sum_list ns)\<rparr>)"
  by (rule sbrk_seq_adjacent [OF assms])

lemma mem_sbrk_contiguous_witness:
  "fst (sbrk_seq [16, 4096, 8] low_arena) = [0x10000, 0x10010, 0x11010]"
  using mem_sbrk_contiguous [OF arenas_ok(1), of "[16, 4096, 8]"]
  by (simp add: low_arena_def upt_conv_Cons)

text \<open>
  Property C38. The check of \<open>mem_sbrk\<close> compares a pointer sum that can wrap around. With the
  break in the upper half of the address space, an \<open>int\<close> increment that takes it past the end
  is accepted, and the new break lies below the storage.
\<close>

theorem mem_sbrk_wraps:
  assumes "arena_ok s" "2 ^ 32 \<le> brk s + n" "n < 2 ^ 31"
  shows "mem_sbrk (of_nat n) s = (of_nat (brk s), s\<lparr>mem_brk := of_nat (brk s + n - 2 ^ 32)\<rparr>)
    \<and> brk s + n - 2 ^ 32 < lo s"
proof -
  define j where "j = brk s + n - 2 ^ 32"
  have j: "brk s + n = 2 ^ 32 + j"
    using assms(2) by (simp add: j_def)
  have b: "brk s < 2 ^ 32" "brk s \<le> hi s" "hi s = lo s + MAX_HEAP"
    using assms(1) hi_less [of s] by (auto simp: arena_ok_def)
  have "mem_brk s + of_nat n = of_nat (brk s + n)"
    by (simp add: of_nat_add)
  also have "\<dots> = of_nat j"
    unfolding j by (simp add: of_nat_add)
  finally have sum: "mem_brk s + of_nat n = of_nat j" .
  have lt: "j < lo s" "j < hi s" "j < 2 ^ 32"
    using b assms(3) j by (auto simp: MAX_HEAP_val)
  have "\<not> (of_nat j :: addr) > mem_max_addr s"
    using lt by (simp add: word_less_nat_alt unat_word32)
  then have "mem_sbrk (of_nat n) s = (of_nat (brk s), s\<lparr>mem_brk := of_nat j\<rparr>)"
    using sum sint_nonneg_word32 [OF assms(3)] by (simp add: mem_sbrk_def Let_def)
  with lt(1) show ?thesis
    by (simp add: j_def)
qed

theorem mem_sbrk_wraps_witness:
  "mem_sbrk 0x0A000000 high_arena = (0xF7000000, high_arena\<lparr>mem_brk := 0x01000000\<rparr>)"
  using mem_sbrk_wraps [OF arenas_ok(2), of 167772160] by (simp add: high_arena_def)

end
