(* ===== verification/Mm.thy ===== *)
theory Mm
  imports Memlib
begin

text \<open>
  \<open>mm.c\<close>: the allocator. The state is the memory system's record with the one static
  variable of the file; the macros and functions are in the file's order (a function that
  calls another one stands after it). A function that ends with no defined result is
  \<open>None\<close>; a result comes with the state it leaves.
\<close>

section \<open>State, constants and macros\<close>

record mm = mem +
  heap_listp :: addr

definition WSIZE :: u32 where "WSIZE = 4"
definition DSIZE :: u32 where "DSIZE = 8"
definition CHUNKSIZE :: u32 where "CHUNKSIZE = push_bit 12 1"

definition MAX_macro :: "u32 \<Rightarrow> u32 \<Rightarrow> u32" where
  "MAX_macro x y = (if x > y then x else y)"

definition PACK :: "u32 \<Rightarrow> u32 \<Rightarrow> u32" where
  "PACK sz alloc = sz OR alloc"

definition GET :: "mm \<Rightarrow> addr \<Rightarrow> u32 option" where
  "GET s p = read32 s p"

definition PUT :: "addr \<Rightarrow> u32 \<Rightarrow> mm \<Rightarrow> mm option" where
  "PUT p val s = write32 p val s"

definition GET_SIZE :: "mm \<Rightarrow> addr \<Rightarrow> u32 option" where
  "GET_SIZE s p = map_option (\<lambda>v. v AND NOT 7) (GET s p)"

definition GET_ALLOC :: "mm \<Rightarrow> addr \<Rightarrow> u32 option" where
  "GET_ALLOC s p = map_option (\<lambda>v. v AND 1) (GET s p)"

definition HDRP :: "addr \<Rightarrow> addr" where
  "HDRP bp = bp - WSIZE"

definition FTRP :: "mm \<Rightarrow> addr \<Rightarrow> addr option" where
  "FTRP s bp = map_option (\<lambda>n. bp + n - DSIZE) (GET_SIZE s (HDRP bp))"

definition NEXT_BLKP :: "mm \<Rightarrow> addr \<Rightarrow> addr option" where
  "NEXT_BLKP s bp = map_option (\<lambda>n. bp + n) (GET_SIZE s (bp - WSIZE))"

definition PREV_BLKP :: "mm \<Rightarrow> addr \<Rightarrow> addr option" where
  "PREV_BLKP s bp = map_option (\<lambda>n. bp - n) (GET_SIZE s (bp - DSIZE))"

section \<open>Functions\<close>

definition coalesce :: "addr \<Rightarrow> mm \<Rightarrow> (addr \<times> mm) option" where
  "coalesce bp s = do {
     prev \<leftarrow> PREV_BLKP s bp;
     prev_ftr \<leftarrow> FTRP s prev;
     prev_alloc \<leftarrow> GET_ALLOC s prev_ftr;
     nxt \<leftarrow> NEXT_BLKP s bp;
     next_alloc \<leftarrow> GET_ALLOC s (HDRP nxt);
     sz \<leftarrow> GET_SIZE s (HDRP bp);
     if prev_alloc \<noteq> 0 \<and> next_alloc \<noteq> 0 then Some (bp, s)
     else if prev_alloc \<noteq> 0 \<and> next_alloc = 0 then do {
       nsize \<leftarrow> GET_SIZE s (HDRP nxt);
       let sz = sz + nsize;
       s \<leftarrow> PUT (HDRP bp) (PACK sz 0) s;
       ftr \<leftarrow> FTRP s bp;
       s \<leftarrow> PUT ftr (PACK sz 0) s;
       Some (bp, s) }
     else if prev_alloc = 0 \<and> next_alloc \<noteq> 0 then do {
       psize \<leftarrow> GET_SIZE s (HDRP prev);
       let sz = sz + psize;
       ftr \<leftarrow> FTRP s bp;
       s \<leftarrow> PUT ftr (PACK sz 0) s;
       prev \<leftarrow> PREV_BLKP s bp;
       s \<leftarrow> PUT (HDRP prev) (PACK sz 0) s;
       bp \<leftarrow> PREV_BLKP s bp;
       Some (bp, s) }
     else do {
       psize \<leftarrow> GET_SIZE s (HDRP prev);
       nftr \<leftarrow> FTRP s nxt;
       nsize \<leftarrow> GET_SIZE s nftr;
       let sz = sz + (psize + nsize);
       nxt \<leftarrow> NEXT_BLKP s bp;
       nftr \<leftarrow> FTRP s nxt;
       s \<leftarrow> PUT nftr (PACK sz 0) s;
       prev \<leftarrow> PREV_BLKP s bp;
       s \<leftarrow> PUT (HDRP prev) (PACK sz 0) s;
       bp \<leftarrow> PREV_BLKP s bp;
       Some (bp, s) }
   }"

definition extend_heap :: "u32 \<Rightarrow> mm \<Rightarrow> (addr \<times> mm) option" where
  "extend_heap words s =
     (let sz = (if words mod 2 \<noteq> 0 then (words + 1) * DSIZE else words * DSIZE);
          (bp, s) = mem_sbrk sz s
      in if bp = - 1 then Some (NULL, s)
         else do {
           s \<leftarrow> PUT (HDRP bp) (PACK sz 0) s;
           ftr \<leftarrow> FTRP s bp;
           s \<leftarrow> PUT ftr (PACK sz 0) s;
           nxt \<leftarrow> NEXT_BLKP s bp;
           s \<leftarrow> PUT (HDRP nxt) (PACK 0 1) s;
           coalesce bp s })"

text \<open>The \<open>int\<close> result: 0, or -1.\<close>

definition mm_init :: "mm \<Rightarrow> (int \<times> mm) option" where
  "mm_init s =
     (let (p, s) = mem_sbrk (4 * WSIZE) s;
          s = s\<lparr>heap_listp := p\<rparr>
      in if heap_listp s = - 1 then Some (- 1, s)
         else do {
           s \<leftarrow> PUT (heap_listp s) 0 s;
           s \<leftarrow> PUT (heap_listp s + 1 * WSIZE) (PACK DSIZE 1) s;
           s \<leftarrow> PUT (heap_listp s + 2 * WSIZE) (PACK DSIZE 1) s;
           s \<leftarrow> PUT (heap_listp s + 3 * WSIZE) (PACK 0 1) s;
           let s = s\<lparr>heap_listp := heap_listp s + 2 * WSIZE\<rparr>;
           (bp, s) \<leftarrow> extend_heap (CHUNKSIZE div DSIZE) s;
           if bp = NULL then Some (- 1, s) else Some (0, s) })"

text \<open>The \<open>for\<close> loop of \<open>find_fit\<close>: one call per evaluation of the loop condition.\<close>

partial_function (option) find_fit_loop :: "u32 \<Rightarrow> mm \<Rightarrow> addr \<Rightarrow> addr option" where
  "find_fit_loop asize s bp = do {
     n \<leftarrow> GET_SIZE s (HDRP bp);
     if n > 0 then do {
       a \<leftarrow> GET_ALLOC s (HDRP bp);
       if a = 0 \<and> asize \<le> n then Some bp
       else do { bp' \<leftarrow> NEXT_BLKP s bp; find_fit_loop asize s bp' } }
     else Some NULL }"

definition find_fit :: "u32 \<Rightarrow> mm \<Rightarrow> addr option" where
  "find_fit asize s = find_fit_loop asize s (heap_listp s)"

definition place :: "addr \<Rightarrow> u32 \<Rightarrow> mm \<Rightarrow> mm option" where
  "place bp asize s = do {
     csize \<leftarrow> GET_SIZE s (HDRP bp);
     if csize - asize \<ge> 2 * DSIZE then do {
       s \<leftarrow> PUT (HDRP bp) (PACK asize 1) s;
       ftr \<leftarrow> FTRP s bp;
       s \<leftarrow> PUT ftr (PACK asize 1) s;
       bp \<leftarrow> NEXT_BLKP s bp;
       s \<leftarrow> PUT (HDRP bp) (PACK (csize - asize) 0) s;
       ftr \<leftarrow> FTRP s bp;
       PUT ftr (PACK (csize - asize) 0) s }
     else do {
       s \<leftarrow> PUT (HDRP bp) (PACK csize 1) s;
       ftr \<leftarrow> FTRP s bp;
       PUT ftr (PACK csize 1) s }
   }"

text \<open>The block size for a request: the two branches on \<open>size\<close> in \<open>mm_malloc\<close>.\<close>

definition adjust_size :: "u32 \<Rightarrow> u32" where
  "adjust_size sz =
     (if sz \<le> DSIZE then 2 * DSIZE
      else DSIZE * ((sz + DSIZE + (DSIZE - 1)) div DSIZE))"

definition mm_malloc :: "u32 \<Rightarrow> mm \<Rightarrow> (addr \<times> mm) option" where
  "mm_malloc sz s =
     (if sz = 0 then Some (NULL, s)
      else let asize = adjust_size sz in do {
        bp \<leftarrow> find_fit asize s;
        if bp \<noteq> NULL then do {
          s \<leftarrow> place bp asize s;
          Some (bp, s) }
        else let extendsize = MAX_macro asize CHUNKSIZE in do {
          (bp, s) \<leftarrow> extend_heap (extendsize div DSIZE) s;
          if bp = NULL then Some (NULL, s)
          else do {
            s \<leftarrow> place bp asize s;
            Some (bp, s) } } })"

definition mm_free :: "addr \<Rightarrow> mm \<Rightarrow> mm option" where
  "mm_free bp s = do {
     sz \<leftarrow> GET_SIZE s (HDRP bp);
     s \<leftarrow> PUT (HDRP bp) (PACK sz 0) s;
     ftr \<leftarrow> FTRP s bp;
     s \<leftarrow> PUT ftr (PACK sz 0) s;
     (bp, s) \<leftarrow> coalesce bp s;
     Some s }"

definition mm_realloc :: "addr \<Rightarrow> u32 \<Rightarrow> mm \<Rightarrow> (addr \<times> mm) option" where
  "mm_realloc bp sz s =
     (let oldptr = bp in
      if sz = 0 then do {
        s \<leftarrow> mm_free bp s;
        Some (NULL, s) }
      else if bp = NULL then mm_malloc sz s
      else do {
        (newptr, s) \<leftarrow> mm_malloc sz s;
        if newptr = NULL then Some (NULL, s)
        else do {
          osize \<leftarrow> GET_SIZE s (HDRP oldptr);
          let copySize = osize - DSIZE;
          let copySize = (if sz < copySize then sz else copySize);
          s \<leftarrow> memcpy newptr oldptr copySize s;
          s \<leftarrow> mm_free oldptr s;
          Some (newptr, s) } })"

end
