(* ===== verification/Blocks.thy ===== *)
theory Blocks
  imports Prelude
begin

text \<open>
  The abstract heap of the allocator: the list of its blocks in address order, each with
  its size in bytes and its allocated bit, without the prologue and the epilogue. The
  operations here are the specification the code of \<open>mm.c\<close> is proved against: first
  fit, splitting, coalescing with both neighbours, extension at the end. Below them, the
  view a client has: the list of allocated blocks with their addresses.
\<close>

type_synonym block = "nat \<times> bool"

abbreviation total :: "block list \<Rightarrow> nat" where
  "total bs \<equiv> sum_list (map fst bs)"

section \<open>Specification of the operations\<close>

definition fits :: "nat \<Rightarrow> block \<Rightarrow> bool" where
  "fits k b \<longleftrightarrow> \<not> snd b \<and> k \<le> fst b"

fun first_fit :: "nat \<Rightarrow> block list \<Rightarrow> (block list \<times> nat \<times> block list) option" where
  "first_fit k [] = None"
| "first_fit k (b # bs) =
     (if fits k b then Some ([], fst b, bs)
      else map_option (\<lambda>(xs, n, ys). (b # xs, n, ys)) (first_fit k bs))"

definition place_blocks :: "nat \<Rightarrow> nat \<Rightarrow> block list" where
  "place_blocks k n = (if 16 \<le> n - k then [(k, True), (n - k, False)] else [(n, True)])"

definition merge_left :: "block list \<Rightarrow> nat \<Rightarrow> block list \<times> nat" where
  "merge_left xs n =
     (if xs \<noteq> [] \<and> \<not> snd (last xs) then (butlast xs, fst (last xs) + n) else (xs, n))"

fun merge_right :: "nat \<Rightarrow> block list \<Rightarrow> nat \<times> block list" where
  "merge_right n ((m, False) # ys) = (n + m, ys)"
| "merge_right n ys = (n, ys)"

definition coalesce_blocks :: "block list \<Rightarrow> nat \<Rightarrow> block list \<Rightarrow> block list \<times> nat \<times> block list" where
  "coalesce_blocks xs n ys =
     (let (xs, n) = merge_left xs n; (n, ys) = merge_right n ys in (xs, n, ys))"

definition insert_free :: "block list \<Rightarrow> nat \<Rightarrow> block list \<Rightarrow> block list" where
  "insert_free xs n ys = (let (xs, n, ys) = coalesce_blocks xs n ys in xs @ (n, False) # ys)"

text \<open>The block whose payload starts \<open>d\<close> bytes after the first one's.\<close>

fun split_at :: "nat \<Rightarrow> block list \<Rightarrow> (block list \<times> block \<times> block list) option" where
  "split_at d [] = None"
| "split_at d (b # bs) =
     (if d = 0 then Some ([], b, bs)
      else if d < fst b then None
      else map_option (\<lambda>(xs, c, ys). (b # xs, c, ys)) (split_at (d - fst b) bs))"

definition free_block :: "nat \<Rightarrow> block list \<Rightarrow> block list" where
  "free_block d bs =
     (case split_at d bs of
        Some (xs, (n, True), ys) \<Rightarrow> insert_free xs n ys
      | _ \<Rightarrow> bs)"

text \<open>The block size for a request, and the size a heap extension really gets.\<close>

definition block_size :: "nat \<Rightarrow> nat" where
  "block_size n = (if n \<le> 8 then 16 else 8 * ((n + 15) div 8))"

definition extend_size :: "nat \<Rightarrow> nat" where
  "extend_size k = 16 * ((max k 4096 + 15) div 16)"

text \<open>Allocation without and with an extension: the offset of the new block, and the blocks.\<close>

definition alloc_fit :: "nat \<Rightarrow> block list \<Rightarrow> (nat \<times> block list) option" where
  "alloc_fit k bs =
     map_option (\<lambda>(xs, n, ys). (total xs, xs @ place_blocks k n @ ys)) (first_fit k bs)"

definition alloc_extend :: "nat \<Rightarrow> block list \<Rightarrow> nat \<times> block list" where
  "alloc_extend k bs =
     (let (xs, n) = merge_left bs (extend_size k) in (total xs, xs @ place_blocks k n))"

text \<open>
  A request of \<open>n > 0\<close> bytes when the heap can still grow by \<open>room\<close> bytes: the offset of
  the new block, if any, and the blocks afterwards.
\<close>

definition spec_malloc :: "nat \<Rightarrow> nat \<Rightarrow> block list \<Rightarrow> nat option \<times> block list" where
  "spec_malloc room n bs =
     (let k = block_size n in
      case alloc_fit k bs of
        Some (d, bs') \<Rightarrow> (Some d, bs')
      | None \<Rightarrow>
          if extend_size k \<le> room
          then (case alloc_extend k bs of (d, bs') \<Rightarrow> (Some d, bs'))
          else (None, bs))"

section \<open>Well-formed block lists\<close>

definition sizes_ok :: "block list \<Rightarrow> bool" where
  "sizes_ok bs \<longleftrightarrow> (\<forall>b \<in> set bs. 16 \<le> fst b \<and> 8 dvd fst b)"

text \<open>No two free blocks are neighbours.\<close>

fun coalesced :: "block list \<Rightarrow> bool" where
  "coalesced (b # c # bs) \<longleftrightarrow> (snd b \<or> snd c) \<and> coalesced (c # bs)"
| "coalesced bs \<longleftrightarrow> True"

section \<open>The client's view: allocated blocks\<close>

fun allocs :: "nat \<Rightarrow> block list \<Rightarrow> (nat \<times> nat) list" where
  "allocs a [] = []"
| "allocs a (b # bs) = (if snd b then (a, fst b) # allocs (a + fst b) bs else allocs (a + fst b) bs)"

section \<open>Facts\<close>

lemma sizes_ok_simps [simp]:
  "sizes_ok []"
  "sizes_ok (b # bs) \<longleftrightarrow> 16 \<le> fst b \<and> 8 dvd fst b \<and> sizes_ok bs"
  "sizes_ok (xs @ ys) \<longleftrightarrow> sizes_ok xs \<and> sizes_ok ys"
  by (auto simp: sizes_ok_def)

lemma sizes_ok_dvd: "sizes_ok bs \<Longrightarrow> 8 dvd total bs"
  by (induction bs) auto

lemma coalesced_Cons:
  "coalesced (b # bs) \<longleftrightarrow> coalesced bs \<and> (bs = [] \<or> snd b \<or> snd (hd bs))"
  by (cases bs) auto

lemma coalesced_append:
  "coalesced (xs @ ys) \<longleftrightarrow>
     coalesced xs \<and> coalesced ys \<and> (xs = [] \<or> ys = [] \<or> snd (last xs) \<or> snd (hd ys))"
proof (induction xs)
  case (Cons b xs)
  then show ?case
    by (cases xs) (auto simp: coalesced_Cons)
qed simp

lemma first_fit_SomeD:
  assumes "first_fit k bs = Some (xs, n, ys)"
  shows "bs = xs @ (n, False) # ys \<and> k \<le> n \<and> (\<forall>b \<in> set xs. \<not> fits k b)"
  using assms
proof (induction k bs arbitrary: xs rule: first_fit.induct)
  case (2 k b bs)
  then show ?case
    by (cases b) (fastforce simp: fits_def split: if_splits)
qed simp

lemma first_fit_None_iff: "first_fit k bs = None \<longleftrightarrow> (\<forall>b \<in> set bs. \<not> fits k b)"
  by (induction k bs rule: first_fit.induct) auto

lemma merge_right_cases:
  obtains (free) m zs where "ys = (m, False) # zs" "merge_right n ys = (n + m, zs)"
  | (alloc) "ys = [] \<or> snd (hd ys)" "merge_right n ys = (n, ys)"
  by (cases "(n, ys)" rule: merge_right.cases) auto

lemma merge_left_cases:
  obtains (free) m zs where "xs = zs @ [(m, False)]" "merge_left xs n = (zs, m + n)"
  | (alloc) "xs = [] \<or> snd (last xs)" "merge_left xs n = (xs, n)"
proof (cases xs rule: rev_cases)
  case Nil
  then show ?thesis by (intro alloc) (auto simp: merge_left_def)
next
  case (snoc zs b)
  then show ?thesis
    by (cases b; cases "snd b") (auto simp: merge_left_def intro: free alloc)
qed

lemma allocs_append: "allocs a (xs @ ys) = allocs a xs @ allocs (a + total xs) ys"
  by (induction xs arbitrary: a) (auto simp: add.assoc)

lemma merge_rightD:
  assumes "merge_right n ys = (n', zs)"
  shows "n' + total zs = n + total ys"
    and "allocs (a + n') zs = allocs (a + n) ys"
    and "n \<le> n'"
    and "8 dvd n \<Longrightarrow> sizes_ok ys \<Longrightarrow> 8 dvd n' \<and> sizes_ok zs"
    and "coalesced ys \<Longrightarrow> coalesced zs \<and> (zs = [] \<or> snd (hd zs))"
  using assms
  by (induction n ys rule: merge_right.induct) (auto simp: coalesced_Cons add.assoc)

lemma merge_leftD:
  assumes "merge_left xs n = (zs, n')"
  shows "total zs + n' = total xs + n"
    and "allocs a zs = allocs a xs"
    and "n \<le> n'"
    and "8 dvd n \<Longrightarrow> sizes_ok xs \<Longrightarrow> 8 dvd n' \<and> sizes_ok zs"
    and "coalesced xs \<Longrightarrow> coalesced zs \<and> (zs = [] \<or> snd (last zs))"
  using assms
  by (cases xs rule: rev_cases;
      auto simp: merge_left_def coalesced_append allocs_append split: if_splits)+

lemma insert_freeE:
  obtains zs m us k where
    "merge_left xs n = (zs, m)" "merge_right m ys = (k, us)"
    "insert_free xs n ys = zs @ (k, False) # us"
  by (cases "merge_left xs n"; cases "merge_right (snd (merge_left xs n)) ys")
    (auto simp: insert_free_def coalesce_blocks_def)

lemma total_insert_free: "total (insert_free xs n ys) = total xs + n + total ys"
  by (rule insert_freeE [of xs n ys]) (use merge_leftD(1) merge_rightD(1) in force)

lemma allocs_insert_free:
  "allocs a (insert_free xs n ys) = allocs a xs @ allocs (a + total xs + n) ys"
proof (rule insert_freeE [of xs n ys])
  fix zs m us k
  assume l: "merge_left xs n = (zs, m)" and r: "merge_right m ys = (k, us)"
    and eq: "insert_free xs n ys = zs @ (k, False) # us"
  have "allocs (a + total zs + k) us = allocs (a + total zs + m) ys"
    by (rule merge_rightD(2) [OF r])
  also have "a + total zs + m = a + total xs + n"
    using merge_leftD(1) [OF l] by simp
  finally show ?thesis
    by (simp add: eq allocs_append merge_leftD(2) [OF l])
qed

lemma sizes_ok_insert_free:
  assumes "sizes_ok xs" "sizes_ok ys" "16 \<le> n" "8 dvd n"
  shows "sizes_ok (insert_free xs n ys)"
proof (rule insert_freeE [of xs n ys])
  fix zs m us k
  assume l: "merge_left xs n = (zs, m)" and r: "merge_right m ys = (k, us)"
    and eq: "insert_free xs n ys = zs @ (k, False) # us"
  from merge_leftD(4) [OF l] assms have "8 dvd m" "sizes_ok zs"
    by simp_all
  with merge_rightD(4) [OF r] assms have "8 dvd k" "sizes_ok us"
    by simp_all
  moreover have "16 \<le> k"
    using merge_leftD(3) [OF l] merge_rightD(3) [OF r] assms by linarith
  ultimately show ?thesis
    using \<open>sizes_ok zs\<close> by (simp add: eq)
qed

lemma coalesced_insert_free:
  assumes "coalesced xs" "coalesced ys"
  shows "coalesced (insert_free xs n ys)"
proof (rule insert_freeE [of xs n ys])
  fix zs m us k
  assume l: "merge_left xs n = (zs, m)" and r: "merge_right m ys = (k, us)"
    and eq: "insert_free xs n ys = zs @ (k, False) # us"
  show ?thesis
    using merge_leftD(5) [OF l assms(1)] merge_rightD(5) [OF r assms(2)]
    by (auto simp: eq coalesced_append coalesced_Cons)
qed

lemma place_blocksE:
  obtains (split) "16 \<le> n - k" "place_blocks k n = [(k, True), (n - k, False)]"
  | (whole) "\<not> 16 \<le> n - k" "place_blocks k n = [(n, True)]"
  by (auto simp: place_blocks_def)

lemma total_place_blocks: "k \<le> n \<Longrightarrow> total (place_blocks k n) = n"
  by (auto simp: place_blocks_def)

lemma sizes_ok_place_blocks:
  "k \<le> n \<Longrightarrow> 16 \<le> k \<Longrightarrow> 8 dvd k \<Longrightarrow> 8 dvd n \<Longrightarrow> sizes_ok (place_blocks k n)"
  by (auto simp: place_blocks_def)

lemma allocs_place_blocks:
  "allocs a (place_blocks k n) = [(a, if 16 \<le> n - k then k else n)]"
  by (simp add: place_blocks_def)

lemma coalesced_place:
  assumes "coalesced (xs @ (n, False) # ys)"
  shows "coalesced (xs @ place_blocks k n @ ys)"
  using assms by (rule_tac place_blocksE [of n k]) (auto simp: coalesced_append coalesced_Cons)

lemma block_size_props:
  "16 \<le> block_size n" "8 dvd block_size n" "n + 8 \<le> block_size n" "block_size n \<le> max 16 (n + 15)"
  by (auto simp: block_size_def)

lemma extend_size_props:
  "16 dvd extend_size k" "k \<le> extend_size k" "4096 \<le> extend_size k"
  "extend_size k \<le> max k 4096 + 15"
  by (auto simp: extend_size_def)

lemma split_at_SomeD:
  assumes "split_at d bs = Some (xs, b, ys)"
  shows "bs = xs @ b # ys \<and> total xs = d"
  using assms by (induction d bs arbitrary: xs rule: split_at.induct) (auto split: if_splits)

lemma split_at_append:
  assumes "sizes_ok xs"
  shows "split_at (total xs) (xs @ b # ys) = Some (xs, b, ys)"
  using assms by (induction xs) auto

lemma free_block_eq:
  assumes "sizes_ok xs"
  shows "free_block (total xs) (xs @ (n, True) # ys) = insert_free xs n ys"
  using assms by (simp add: free_block_def split_at_append)

section \<open>Allocated blocks do not overlap\<close>

lemma allocs_range: "(p, n) \<in> set (allocs a bs) \<Longrightarrow> a \<le> p \<and> p + n \<le> a + total bs"
  by (induction bs arbitrary: a) (auto split: if_splits, fastforce+)

lemma allocs_disjoint:
  assumes "(p, n) \<in> set (allocs a bs)" "(q, m) \<in> set (allocs a bs)"
  shows "(p, n) = (q, m) \<or> p + n \<le> q \<or> q + m \<le> p"
  using assms
proof (induction bs arbitrary: a)
  case (Cons b bs)
  then show ?case
    using allocs_range [of p n "a + fst b" bs] allocs_range [of q m "a + fst b" bs]
    by (auto split: if_splits)
qed simp

lemma allocs_distinct: "sizes_ok bs \<Longrightarrow> distinct (allocs a bs)"
  by (induction bs arbitrary: a) (auto dest: allocs_range)

lemma allocs_split:
  assumes "(p, n) \<in> set (allocs a bs)"
  obtains xs ys where "bs = xs @ (n, True) # ys" "p = a + total xs"
  using assms
proof (induction bs arbitrary: a thesis)
  case Nil
  then show ?case by simp
next
  case (Cons b bs)
  show ?case
  proof (cases "snd b \<and> p = a \<and> n = fst b")
    case True
    then show ?thesis
      by (intro Cons.prems(1) [of "[]" bs]) (auto simp: prod_eq_iff)
  next
    case False
    with Cons.prems(2) have "(p, n) \<in> set (allocs (a + fst b) bs)"
      by (auto split: if_splits)
    then obtain xs ys where "bs = xs @ (n, True) # ys" "p = a + fst b + total xs"
      using Cons.IH by blast
    then show ?thesis
      by (intro Cons.prems(1) [of "b # xs" ys]) auto
  qed
qed

lemma allocs_dvd:
  assumes "sizes_ok bs" "8 dvd a" "(p, n) \<in> set (allocs a bs)"
  shows "8 dvd p \<and> 8 dvd n \<and> 16 \<le> n"
  using assms(3)
proof (rule allocs_split)
  fix xs ys
  assume "bs = xs @ (n, True) # ys" "p = a + total xs"
  with assms(1,2) show ?thesis
    by (auto dest: sizes_ok_dvd)
qed

section \<open>What a successful request changes\<close>

text \<open>A free block is replaced, in place, by one allocated block and perhaps a free rest.\<close>

lemma spec_malloc_Some:
  assumes "spec_malloc room n bs = (Some d, bs')"
  obtains xs m ys where
    "block_size n \<le> m" "d = total xs" "bs' = xs @ place_blocks (block_size n) m @ ys"
    "bs = xs @ (m, False) # ys \<or>
       ys = [] \<and> extend_size (block_size n) \<le> room \<and> merge_left bs (extend_size (block_size n)) = (xs, m)"
proof (cases "first_fit (block_size n) bs")
  case None
  obtain xs m where l: "merge_left bs (extend_size (block_size n)) = (xs, m)"
    by fastforce
  have "block_size n \<le> m"
    using merge_leftD(3) [OF l] extend_size_props(2) [of "block_size n"] by linarith
  with None assms l show ?thesis
    by (intro that [of m xs "[]"])
      (auto simp: spec_malloc_def alloc_fit_def alloc_extend_def Let_def split: if_splits)
next
  case (Some r)
  then obtain xs m ys where r: "r = (xs, m, ys)"
    by (cases r) auto
  with Some first_fit_SomeD [of "block_size n" bs xs m ys] assms show ?thesis
    by (intro that [of m xs ys]) (auto simp: spec_malloc_def alloc_fit_def Let_def)
qed

lemma spec_malloc_allocs:
  assumes "spec_malloc room n bs = (Some d, bs')"
  shows "\<exists>m us vs. block_size n \<le> m \<and> allocs a bs = us @ vs \<and> allocs a bs' = us @ (a + d, m) # vs"
proof (rule spec_malloc_Some [OF assms])
  fix xs m ys
  assume m: "block_size n \<le> m" and d: "d = total xs"
    and bs': "bs' = xs @ place_blocks (block_size n) m @ ys"
    and bs: "bs = xs @ (m, False) # ys \<or>
       ys = [] \<and> extend_size (block_size n) \<le> room \<and> merge_left bs (extend_size (block_size n)) = (xs, m)"
  have "allocs a bs = allocs a xs @ allocs (a + d + m) ys"
    using bs d by (auto simp: allocs_append dest: merge_leftD(2) [where a = a])
  moreover have "\<exists>m' \<ge> block_size n. allocs a bs' = allocs a xs @ (a + d, m') # allocs (a + d + m) ys"
    using m d by (auto simp: bs' allocs_append allocs_place_blocks total_place_blocks)
  ultimately show ?thesis
    by blast
qed

lemma spec_malloc_wf:
  assumes "spec_malloc room n bs = (r, bs')" "sizes_ok bs" "coalesced bs"
  shows "sizes_ok bs' \<and> coalesced bs'"
proof (cases r)
  case None
  with assms show ?thesis
    by (auto simp: spec_malloc_def Let_def split: option.splits if_splits prod.splits)
next
  case (Some d)
  show ?thesis
  proof (rule spec_malloc_Some [OF assms(1) [unfolded Some]])
    fix xs m ys
    assume m: "block_size n \<le> m" and bs': "bs' = xs @ place_blocks (block_size n) m @ ys"
      and bs: "bs = xs @ (m, False) # ys \<or>
       ys = [] \<and> extend_size (block_size n) \<le> room \<and> merge_left bs (extend_size (block_size n)) = (xs, m)"
    have "8 dvd extend_size (block_size n)"
      by (rule dvd_trans [OF _ extend_size_props(1)]) simp
    with bs assms(2) have "8 dvd m" "sizes_ok xs" "sizes_ok ys"
      by (auto dest: merge_leftD(4))
    moreover have "coalesced (xs @ (m, False) # ys)"
      using bs assms(3) by (auto simp: coalesced_append dest: merge_leftD(5))
    ultimately show ?thesis
      using m block_size_props [of n]
      by (simp add: bs' sizes_ok_place_blocks coalesced_place)
  qed
qed

lemma free_block_allocs:
  assumes "sizes_ok bs" "(p, n) \<in> set (allocs a bs)"
  obtains xs ys where "bs = xs @ (n, True) # ys" "p = a + total xs"
    "free_block (p - a) bs = insert_free xs n ys"
    "set (allocs a (free_block (p - a) bs)) = set (allocs a bs) - {(p, n)}"
proof (rule allocs_split [OF assms(2)])
  fix xs ys
  assume bs: "bs = xs @ (n, True) # ys" and p: "p = a + total xs"
  have n: "0 < n" and eq: "free_block (p - a) bs = insert_free xs n ys"
    using assms(1) by (auto simp: bs p free_block_eq)
  have "(p, n) \<notin> set (allocs a xs)" "(p, n) \<notin> set (allocs (a + total xs + n) ys)"
    using n by (auto simp: p dest: allocs_range)
  then have "set (allocs a (free_block (p - a) bs)) = set (allocs a bs) - {(p, n)}"
    by (subst eq) (auto simp: allocs_insert_free bs allocs_append p)
  with that bs p eq show thesis
    by blast
qed

lemma free_block_wf:
  assumes "sizes_ok bs" "coalesced bs"
  shows "sizes_ok (free_block d bs) \<and> coalesced (free_block d bs)"
proof (cases "split_at d bs")
  case None
  with assms show ?thesis
    by (simp add: free_block_def)
next
  case (Some r)
  obtain xs n al ys where r: "split_at d bs = Some (xs, (n, al), ys)"
    using Some by (cases r) auto
  have bs: "bs = xs @ (n, al) # ys"
    using split_at_SomeD [OF r] by simp
  with assms r show ?thesis
    by (cases al) (auto simp: free_block_def sizes_ok_insert_free coalesced_insert_free
        coalesced_append coalesced_Cons)
qed

end
