(* ===== verification/Mm_Layout.thy ===== *)
theory Mm_Layout
  imports Mm Blocks
begin

text \<open>
  How the bytes of the simulated heap represent a block list: prologue, one header and one
  footer per block, epilogue. Addresses are natural numbers here; the first lemmas read the
  macros of \<open>mm.c\<close> at such addresses, the later ones say which bytes an operation may
  rewrite without disturbing the representation of the rest.
\<close>

section \<open>The macros at addresses that are natural numbers\<close>

definition tag :: "block \<Rightarrow> u32" where
  "tag b = PACK (of_nat (fst b)) (of_bool (snd b))"

lemma PUT_nat:
  assumes "4 dvd q" "lo s \<le> q" "q + 4 \<le> hi s"
  shows "PUT (of_nat q) v s = Some (put_word q v s)"
  using assms by (simp add: PUT_def write32_nat)

lemma GET_SIZE_nat:
  assumes "4 dvd q" "lo s \<le> q" "q + 4 \<le> hi s" "word_at s q = tag (n, al)" "8 dvd n"
  shows "GET_SIZE s (of_nat q) = Some (of_nat n)"
  using assms pack_size [of n al] by (simp add: GET_SIZE_def GET_def read32_nat tag_def PACK_def)

lemma GET_ALLOC_nat:
  assumes "4 dvd q" "lo s \<le> q" "q + 4 \<le> hi s" "word_at s q = tag (n, al)" "8 dvd n"
  shows "GET_ALLOC s (of_nat q) = Some (of_bool al)"
  using assms pack_alloc [of n al] by (simp add: GET_ALLOC_def GET_def read32_nat tag_def PACK_def)

lemma minus_WSIZE [nat_addr]: "4 \<le> a \<Longrightarrow> of_nat a - WSIZE = of_nat (a - 4)"
  by (simp add: WSIZE_def of_nat_diff)

lemma minus_DSIZE [nat_addr]: "8 \<le> a \<Longrightarrow> of_nat a - DSIZE = of_nat (a - 8)"
  by (simp add: DSIZE_def of_nat_diff)

lemma HDRP_nat [nat_addr]: "4 \<le> a \<Longrightarrow> HDRP (of_nat a) = of_nat (a - 4)"
  by (simp add: HDRP_def nat_addr)

text \<open>The block with payload address \<open>a\<close> has this header; the block before it this footer.\<close>

definition hdr :: "mm \<Rightarrow> nat \<Rightarrow> block \<Rightarrow> bool" where
  "hdr s a b \<longleftrightarrow> 4 dvd a \<and> lo s + 4 \<le> a \<and> a \<le> hi s \<and> 8 dvd fst b \<and> word_at s (a - 4) = tag b"

definition ftr :: "mm \<Rightarrow> nat \<Rightarrow> block \<Rightarrow> bool" where
  "ftr s a b \<longleftrightarrow> 4 dvd a \<and> lo s + 8 \<le> a \<and> a \<le> hi s + 4 \<and> 8 dvd fst b \<and> word_at s (a - 8) = tag b"

lemma hdr_reads:
  assumes "hdr s a (n, al)"
  shows "GET_SIZE s (HDRP (of_nat a)) = Some (of_nat n)"
    and "GET_ALLOC s (HDRP (of_nat a)) = Some (of_bool al)"
    and "8 \<le> a + n \<Longrightarrow> FTRP s (of_nat a) = Some (of_nat (a + n - 8))"
    and "NEXT_BLKP s (of_nat a) = Some (of_nat (a + n))"
proof -
  have a: "4 dvd a - 4" "lo s \<le> a - 4" "a - 4 + 4 \<le> hi s" "4 \<le> a"
    using assms by (auto simp: hdr_def)
  have w: "word_at s (a - 4) = tag (n, al)" "8 dvd n"
    using assms by (auto simp: hdr_def)
  show size: "GET_SIZE s (HDRP (of_nat a)) = Some (of_nat n)"
    using a(4) by (simp add: HDRP_nat GET_SIZE_nat [OF a(1-3) w])
  show "GET_ALLOC s (HDRP (of_nat a)) = Some (of_bool al)"
    using a(4) by (simp add: HDRP_nat GET_ALLOC_nat [OF a(1-3) w])
  show "FTRP s (of_nat a) = Some (of_nat (a + n - 8))" if "8 \<le> a + n"
    using that minus_DSIZE [of "a + n"] by (simp add: FTRP_def size of_nat_word32_plus)
  show "NEXT_BLKP s (of_nat a) = Some (of_nat (a + n))"
    using size by (simp add: NEXT_BLKP_def HDRP_def of_nat_word32_plus)
qed

lemma ftr_reads:
  assumes "ftr s a (n, al)" "n \<le> a"
  shows "PREV_BLKP s (of_nat a) = Some (of_nat (a - n))"
    and "GET_ALLOC s (of_nat (a - 8)) = Some (of_bool al)"
    and "GET_SIZE s (of_nat (a - 8)) = Some (of_nat n)"
proof -
  have a: "4 dvd a - 8" "lo s \<le> a - 8" "a - 8 + 4 \<le> hi s" "8 \<le> a"
    using assms by (auto simp: ftr_def)
  have w: "word_at s (a - 8) = tag (n, al)" "8 dvd n"
    using assms by (auto simp: ftr_def)
  show size: "GET_SIZE s (of_nat (a - 8)) = Some (of_nat n)"
    by (rule GET_SIZE_nat [OF a(1-3) w])
  show "GET_ALLOC s (of_nat (a - 8)) = Some (of_bool al)"
    by (rule GET_ALLOC_nat [OF a(1-3) w])
  show "PREV_BLKP s (of_nat a) = Some (of_nat (a - n))"
    using assms(2) a(4) size by (simp add: PREV_BLKP_def nat_addr)
qed

lemma PUT_hdr:
  assumes "hdr s a b"
  shows "PUT (HDRP (of_nat a)) v s = Some (put_word (a - 4) v s)"
  using assms by (auto simp: hdr_def HDRP_nat PUT_nat)

lemma PUT_ftr:
  assumes "ftr s a b"
  shows "PUT (of_nat (a - 8)) v s = Some (put_word (a - 8) v s)"
  using assms by (intro PUT_nat) (auto simp: ftr_def)

text \<open>How tags survive a write elsewhere, and appear by a write in place.\<close>

lemma hdr_put_other:
  assumes "hdr s a b" "4 dvd p" "p + 4 \<le> hi s" "p \<noteq> a - 4"
  shows "hdr (put_word p v s) a b"
  using assms hi_less [of s] by (auto simp: hdr_def word_at_put_word)

lemma ftr_put_other:
  assumes "ftr s a b" "4 dvd p" "p + 4 \<le> hi s" "p \<noteq> a - 8"
  shows "ftr (put_word p v s) a b"
  using assms hi_less [of s] by (auto simp: ftr_def word_at_put_word)

lemma hdr_put_same:
  assumes "4 dvd a" "lo s + 4 \<le> a" "a \<le> hi s" "8 dvd fst b"
  shows "hdr (put_word (a - 4) (tag b) s) a b"
  using assms hi_less [of s] by (auto simp: hdr_def word_at_put_word)

lemma ftr_put_same:
  assumes "4 dvd a" "lo s + 8 \<le> a" "a \<le> hi s + 4" "8 dvd fst b"
  shows "ftr (put_word (a - 8) (tag b) s) a b"
  using assms hi_less [of s] by (auto simp: ftr_def word_at_put_word)

lemma heap_listp_put_word [simp]: "heap_listp (put_word q v s) = heap_listp s"
  by (simp add: put_word_def)

section \<open>Which bytes an operation rewrites\<close>

lemma changes_only_listp:
  fixes s :: mm
  shows "changes_only s s' l h \<Longrightarrow> heap_listp s' = heap_listp s"
  by (auto simp: changes_only_def)

section \<open>Representation of a block list\<close>

fun blocks_at :: "mm \<Rightarrow> nat \<Rightarrow> block list \<Rightarrow> bool" where
  "blocks_at s a [] \<longleftrightarrow> True"
| "blocks_at s a (b # bs) \<longleftrightarrow>
     word_at s (a - 4) = tag b \<and> word_at s (a + fst b - 8) = tag b
     \<and> blocks_at s (a + fst b) bs"

definition prologue :: block where
  "prologue = (8, True)"

text \<open>
  \<open>heap_tags\<close> is the representation without the requirement that free blocks are
  coalesced, which does not hold in the middle of a call; \<open>heap_rep\<close> is the invariant
  between calls.
\<close>

definition heap_tags :: "mm \<Rightarrow> block list \<Rightarrow> bool" where
  "heap_tags s bs \<longleftrightarrow>
     arena_ok s \<and> heap_listp s = of_nat (lo s + 8)
     \<and> brk s = lo s + 16 + total bs
     \<and> word_at s (lo s) = 0
     \<and> blocks_at s (lo s + 8) (prologue # bs)
     \<and> word_at s (brk s - 4) = tag (0, True)
     \<and> sizes_ok bs"

definition heap_rep :: "mm \<Rightarrow> block list \<Rightarrow> bool" where
  "heap_rep s bs \<longleftrightarrow> heap_tags s bs \<and> coalesced bs"

lemma blocks_at_append:
  "blocks_at s a (xs @ ys) \<longleftrightarrow> blocks_at s a xs \<and> blocks_at s (a + total xs) ys"
  by (induction xs arbitrary: a) (auto simp: add.assoc)

lemma blocks_at_frame:
  assumes "blocks_at s a bs" "changes_only s s' l h"
    and "h + 4 \<le> a \<or> a + total bs \<le> l + 4" "4 \<le> a" "a + total bs \<le> 2 ^ 32"
    and "\<And>b. b \<in> set bs \<Longrightarrow> 8 \<le> fst b"
  shows "blocks_at s' a bs"
  using assms
proof (induction bs arbitrary: a)
  case (Cons b bs)
  have "8 \<le> fst b"
    using Cons.prems(6) by simp
  then have "word_at s' (a - 4) = word_at s (a - 4)"
    "word_at s' (a + fst b - 8) = word_at s (a + fst b - 8)"
    using Cons.prems(3-5) by (auto intro!: changes_only_word [OF Cons.prems(2)])
  moreover have "blocks_at s' (a + fst b) bs"
    using Cons.prems by (intro Cons.IH) auto
  ultimately show ?case
    using Cons.prems(1) by simp
qed simp

end
