(* ===== verification/Mm_Coalesce.thy ===== *)
theory Mm_Coalesce
  imports Mm_Layout
begin

text \<open>
  What the macros read in a represented heap, how a rewritten stretch of blocks is put back
  into the representation, and the refinement of \<open>coalesce\<close> to merging in the block list.
\<close>

section \<open>Reading the tags of a represented heap\<close>

definition epilogue :: block where
  "epilogue = (0, True)"

abbreviation block_addr :: "mm \<Rightarrow> block list \<Rightarrow> nat" where
  "block_addr s xs \<equiv> lo s + 16 + total xs"

lemma prologue_simps [simp]: "fst prologue = 8" "snd prologue"
  by (simp_all add: prologue_def)

lemma epilogue_simps [simp]: "fst epilogue = 0" "snd epilogue"
  by (simp_all add: epilogue_def)

lemma blocks_at_tags:
  assumes "blocks_at s a (us @ b # vs)"
  shows "word_at s (a + total us - 4) = tag b" "word_at s (a + total us + fst b - 8) = tag b"
  using assms by (simp_all add: blocks_at_append)

lemma heap_tags_bounds:
  assumes "heap_tags s (xs @ ys)"
  shows "8 dvd block_addr s xs" "block_addr s xs + total ys = brk s" "block_addr s xs \<le> hi s"
    "0 < lo s" "brk s \<le> hi s" "8 dvd lo s"
  using assms by (auto simp: heap_tags_def arena_ok_def dest: sizes_ok_dvd)

lemma heap_tags_epilogue: "heap_tags s bs \<Longrightarrow> word_at s (brk s - 4) = tag (0, True)"
  unfolding heap_tags_def by blast

lemma heap_tags_prev:
  assumes "heap_tags s (xs @ ys)" "P = last (prologue # xs)"
  shows "ftr s (block_addr s xs) P" "fst P \<le> block_addr s xs"
    "hdr s (block_addr s xs - fst P) P" "8 \<le> fst P" "lo s + 8 \<le> block_addr s xs - fst P"
proof -
  let ?a = "block_addr s xs"
  obtain us where us: "prologue # xs = us @ [P]"
    using assms(2) by (metis append_butlast_last_id list.discI)
  have "prologue # xs @ ys = us @ P # ys"
    using us by (metis append.assoc append_Cons append_Nil)
  moreover have "blocks_at s (lo s + 8) (prologue # xs @ ys)"
    using assms(1) by (simp only: heap_tags_def)
  ultimately have bl: "blocks_at s (lo s + 8) (us @ P # ys)"
    by (simp only:)
  have sum: "8 + total xs = total us + fst P"
  proof -
    have "total (prologue # xs) = total (us @ [P])"
      by (simp only: us)
    then show ?thesis
      by simp
  qed
  have P: "8 dvd fst P \<and> 8 \<le> fst P"
  proof (cases xs rule: rev_cases)
    case Nil
    then show ?thesis
      using assms(2) by simp
  next
    case (snoc zs z)
    then show ?thesis
      using assms by (auto simp: heap_tags_def)
  qed
  then show "8 \<le> fst P" ..
  note bounds = heap_tags_bounds [OF assms(1)]
  have a: "?a = lo s + 8 + total us + fst P"
    using sum by simp
  show "fst P \<le> ?a" "lo s + 8 \<le> ?a - fst P"
    using a by simp_all
  show "ftr s ?a P"
    using blocks_at_tags(2) [OF bl] bounds P by (auto simp: ftr_def a dvd8_dvd4)
  have "8 dvd total us"
    using bounds(1,6) P a by (metis dvd_add_left_iff dvd_add_right_iff dvd_refl)
  then show "hdr s (?a - fst P) P"
    using blocks_at_tags(1) [OF bl] bounds P by (auto simp: hdr_def a intro!: dvd8_dvd4 dvd_add)
qed

lemma heap_tags_next:
  assumes "heap_tags s (xs @ ys)" "N = hd (ys @ [epilogue])"
  shows "hdr s (block_addr s xs) N"
    and "ys \<noteq> [] \<Longrightarrow> ftr s (block_addr s xs + fst N) N \<and> 16 \<le> fst N"
proof -
  let ?a = "block_addr s xs"
  note bounds = heap_tags_bounds [OF assms(1)]
  have 4: "4 dvd ?a"
    using bounds(1) by (rule dvd8_dvd4)
  have "hdr s ?a N \<and> (ys \<noteq> [] \<longrightarrow> ftr s (?a + fst N) N \<and> 16 \<le> fst N)"
  proof (cases ys)
    case Nil
    with assms 4 bounds show ?thesis
      by (auto simp: heap_tags_def hdr_def epilogue_def)
  next
    case (Cons b zs)
    then have bl: "blocks_at s (lo s + 8) ((prologue # xs) @ b # zs)" and b: "8 dvd fst b" "16 \<le> fst b"
      and N: "N = b"
      using assms by (auto simp: heap_tags_def)
    have a: "?a = lo s + 8 + total (prologue # xs)"
      by simp
    have "hdr s ?a b"
      using blocks_at_tags(1) [OF bl] 4 bounds b by (auto simp: hdr_def a)
    moreover have "ftr s (?a + fst b) b"
      using blocks_at_tags(2) [OF bl] 4 bounds b Cons by (auto simp: ftr_def a intro!: dvd_add dvd8_dvd4)
    ultimately show ?thesis
      using b N by simp
  qed
  then show "hdr s ?a N" "ys \<noteq> [] \<Longrightarrow> ftr s (?a + fst N) N \<and> 16 \<le> fst N"
    by auto
qed

section \<open>Putting a rewritten stretch back\<close>

lemma heap_tags_splice:
  assumes rep: "heap_tags s (xs @ mid @ ys)" and a: "a = block_addr s xs"
    and ch: "changes_only s s' (a - 4) (a + total mid - 4)"
    and new: "blocks_at s' a mid'" and tot: "total mid' = total mid" and ok: "sizes_ok mid'"
  shows "heap_tags s' (xs @ mid' @ ys)"
proof -
  note regs = changes_only_regs [OF ch] changes_only_listp [OF ch]
  note bounds = heap_tags_bounds [OF rep]
  have hi: "hi s < 2 ^ 32"
    by (rule hi_less)
  have bl: "blocks_at s (lo s + 8) (prologue # xs)" "blocks_at s (a + total mid) ys"
    using rep by (auto simp: heap_tags_def blocks_at_append a add.assoc)
  have "sizes_ok xs" "sizes_ok ys"
    using rep by (simp_all add: heap_tags_def)
  then have sz: "8 \<le> fst b" if "b \<in> set (prologue # xs) \<or> b \<in> set ys" for b
    using that by (force simp: sizes_ok_def)
  have "blocks_at s' (lo s + 8) (prologue # xs)"
    by (rule blocks_at_frame [OF bl(1) ch]) (use sz a bounds hi in auto)
  moreover have "blocks_at s' (a + total mid) ys"
    by (rule blocks_at_frame [OF bl(2) ch]) (use sz a bounds hi in auto)
  moreover have "word_at s' (lo s) = word_at s (lo s)"
    by (rule changes_only_word [OF ch]) (use a bounds hi in auto)
  moreover have "word_at s' (brk s - 4) = word_at s (brk s - 4)"
    by (rule changes_only_word [OF ch]) (use a bounds hi in auto)
  then have "word_at s' (brk s - 4) = tag (0, True)"
    using heap_tags_epilogue [OF rep] by (rule trans)
  ultimately show ?thesis
    using rep new ok tot by (simp add: heap_tags_def arena_ok_def regs blocks_at_append a add.assoc)
qed

lemma blocks_at_ConsI:
  "hdr s a b \<Longrightarrow> ftr s (a + fst b) b \<Longrightarrow> blocks_at s (a + fst b) bs \<Longrightarrow> blocks_at s a (b # bs)"
  by (simp add: hdr_def ftr_def)

lemma tag_free [simp]: "PACK (of_nat n) 0 = tag (n, False)"
  by (simp add: tag_def)

lemma tag_alloc [simp]: "PACK (of_nat n) 1 = tag (n, True)"
  by (simp add: tag_def)


lemma stretch_bounds:
  assumes "heap_tags s (xs @ mid @ ys)" "a = block_addr s xs"
  shows "lo s + 16 \<le> a" "a + total mid \<le> hi s" "4 dvd a"
  using heap_tags_bounds [OF assms(1)] assms(2) by (auto intro: dvd8_dvd4)

lemma dvd4_footer: "4 dvd a \<Longrightarrow> 8 dvd k \<Longrightarrow> 4 dvd a + k - 8" for a k :: nat
  by (intro dvd_diff_nat) (auto intro: dvd8_dvd4)

section \<open>\<open>coalesce\<close>\<close>

text \<open>The six reads at the top of the function, in a heap with a free block at \<open>a\<close>.\<close>

lemma coalesce_reads:
  assumes rep: "heap_tags s (xs @ (n, False) # ys)" and a: "a = block_addr s xs"
    and P: "last (prologue # xs) = (m, pal)" and N: "hd (ys @ [epilogue]) = (k, nal)"
  shows "PREV_BLKP s (of_nat a) = Some (of_nat (a - m))"
    and "FTRP s (of_nat (a - m)) = Some (of_nat (a - 8))"
    and "GET_ALLOC s (of_nat (a - 8)) = Some (of_bool pal)"
    and "GET_SIZE s (HDRP (of_nat (a - m))) = Some (of_nat m)"
    and "NEXT_BLKP s (of_nat a) = Some (of_nat (a + n))"
    and "GET_ALLOC s (HDRP (of_nat (a + n))) = Some (of_bool nal)"
    and "GET_SIZE s (HDRP (of_nat (a + n))) = Some (of_nat k)"
    and "GET_SIZE s (HDRP (of_nat a)) = Some (of_nat n)"
    and "FTRP s (of_nat a) = Some (of_nat (a + n - 8))"
proof -
  note prev = heap_tags_prev [OF rep P [symmetric], folded a, simplified fst_conv]
  have "hdr s a (n, False)" "16 \<le> n"
    using heap_tags_next [OF rep, of "(n, False)", folded a] by simp_all
  note this_reads = hdr_reads [OF this(1)] and n = this(2)
  have "heap_tags s ((xs @ [(n, False)]) @ ys)"
    using rep by simp
  from heap_tags_next(1) [OF this N [symmetric]] have "hdr s (a + n) (k, nal)"
    by (simp add: a add.assoc)
  note next_reads = hdr_reads [OF this]
  show "PREV_BLKP s (of_nat a) = Some (of_nat (a - m))"
    "GET_ALLOC s (of_nat (a - 8)) = Some (of_bool pal)"
    using ftr_reads [OF prev(1,2)] by simp_all
  show "FTRP s (of_nat (a - m)) = Some (of_nat (a - 8))"
    using hdr_reads(3) [OF prev(3)] prev(2,4) a by simp
  show "GET_SIZE s (HDRP (of_nat (a - m))) = Some (of_nat m)"
    by (rule hdr_reads(1) [OF prev(3)])
  show "NEXT_BLKP s (of_nat a) = Some (of_nat (a + n))"
    by (rule this_reads(4))
  show "GET_ALLOC s (HDRP (of_nat (a + n))) = Some (of_bool nal)"
    "GET_SIZE s (HDRP (of_nat (a + n))) = Some (of_nat k)"
    by (rule next_reads)+
  show "GET_SIZE s (HDRP (of_nat a)) = Some (of_nat n)"
    by (rule this_reads)
  show "FTRP s (of_nat a) = Some (of_nat (a + n - 8))"
    using this_reads(3) n by simp
qed

text \<open>Writing the two tags of a free block that covers the stretch \<open>mid\<close>.\<close>

lemma write_block:
  assumes rep: "heap_tags s (xs @ mid @ ys)" and a: "a = block_addr s xs"
    and tot: "total mid = fst b" "16 \<le> fst b" "8 dvd fst b"
    and s': "s' = put_word (a - 4) (tag b) (put_word (a + fst b - 8) (tag b) s)
             \<or> s' = put_word (a + fst b - 8) (tag b) (put_word (a - 4) (tag b) s)"
  shows "heap_tags s' (xs @ b # ys) \<and> changes_only s s' (a - 4) (a + fst b - 4)
         \<and> hdr s' a b \<and> ftr s' (a + fst b) b"
proof -
  note bounds = heap_tags_bounds [OF rep, folded a]
  have d: "4 dvd a" "4 dvd a + fst b" "4 dvd a - 4" "4 dvd a + fst b - 8"
    using dvd8_dvd4 [OF bounds(1)] dvd8_dvd4 [OF tot(3)] by auto
  have r: "lo s + 16 \<le> a" "a + fst b \<le> hi s" "hi s < 2 ^ 32"
    using bounds hi_less [of s] a tot by auto
  have ch: "changes_only s s' (a - 4) (a + fst b - 4)"
    using s' r tot(2) by (auto intro!: changes_only_put)
  have "word_at s' (a - 4) = tag b" "word_at s' (a + fst b - 8) = tag b"
    using s' r d tot(2) by (auto simp: word_at_put_word)
  then have tags: "hdr s' a b" "ftr s' (a + fst b) b"
    using d r tot changes_only_regs [OF ch] by (auto simp: hdr_def ftr_def)
  have "blocks_at s' a [b]"
    using tags by (rule blocks_at_ConsI) simp
  with ch tot have "heap_tags s' (xs @ [b] @ ys)"
    by (intro heap_tags_splice [OF rep a]) auto
  with ch tags show ?thesis
    by simp
qed


text \<open>The four cases of the function.\<close>

lemma coalesce_neither:
  assumes rep: "heap_tags s (xs @ (n, False) # ys)" and a: "a = block_addr s xs"
    and P: "last (prologue # xs) = (m, True)" and N: "hd (ys @ [epilogue]) = (k, True)"
  shows "coalesce (of_nat a) s = Some (of_nat a, s)"
  by (simp add: coalesce_def coalesce_reads [OF assms])

lemma coalesce_next:
  assumes rep: "heap_tags s (xs @ (n, False) # (k, False) # ys)" and a: "a = block_addr s xs"
    and P: "last (prologue # xs) = (m, True)"
  shows "\<exists>s'. coalesce (of_nat a) s = Some (of_nat a, s')
    \<and> heap_tags s' (xs @ (n + k, False) # ys) \<and> changes_only s s' (a - 4) (a + (n + k) - 4)"
proof -
  let ?b = "(n + k, False)"
  let ?s1 = "put_word (a - 4) (tag ?b) s" and ?s2 = "put_word (a + (n + k) - 8) (tag ?b) (put_word (a - 4) (tag ?b) s)"
  have N: "hd (((k, False) # ys) @ [epilogue]) = (k, False)"
    by simp
  note reads = coalesce_reads [OF rep a P N]
  have h: "hdr s a (n, False)"
    using heap_tags_next(1) [OF rep, of "(n, False)"] a by simp
  have sz: "16 \<le> n" "16 \<le> k" "8 dvd n + k"
    using rep by (auto simp: heap_tags_def)
  have h1: "hdr ?s1 a ?b"
    using h sz by (intro hdr_put_same) (auto simp: hdr_def)
  have "heap_tags s (xs @ [(n, False), (k, False)] @ ys)"
    using rep by simp
  from write_block [OF this a, of ?b ?s2] sz
  have res: "heap_tags ?s2 (xs @ ?b # ys)" "changes_only s ?s2 (a - 4) (a + (n + k) - 4)"
    by simp_all
  have "ftr ?s2 (a + (n + k)) ?b"
    using write_block [OF \<open>heap_tags s (xs @ [(n, False), (k, False)] @ ys)\<close> a, of ?b ?s2] sz by simp
  then have "PUT (of_nat (a + (n + k) - 8)) (tag ?b) ?s1 = Some ?s2"
    by (intro PUT_nat) (auto simp: ftr_def)
  then have "coalesce (of_nat a) s = Some (of_nat a, ?s2)"
    using sz hdr_reads(3) [OF h1]
    by (simp add: coalesce_def reads PUT_hdr [OF h] of_nat_word32_plus)
  with res show ?thesis
    by blast
qed

lemma coalesce_prev:
  assumes rep: "heap_tags s (xs @ (m, False) # (n, False) # ys)" and a: "a = block_addr s xs"
    and N: "hd (ys @ [epilogue]) = (k, True)"
  shows "\<exists>s'. coalesce (of_nat (a + m)) s = Some (of_nat a, s')
    \<and> heap_tags s' (xs @ (m + n, False) # ys) \<and> changes_only s s' (a - 4) (a + (m + n) - 4)"
proof -
  let ?b = "(m + n, False)"
  let ?s1 = "put_word (a + (m + n) - 8) (tag ?b) s"
  let ?s2 = "put_word (a - 4) (tag ?b) ?s1"
  have rep': "heap_tags s ((xs @ [(m, False)]) @ (n, False) # ys)"
    and mid: "heap_tags s (xs @ [(m, False), (n, False)] @ ys)"
    using rep by simp_all
  have am: "a + m = block_addr s (xs @ [(m, False)])"
    using a by simp
  note reads = coalesce_reads [OF rep' am _ N, of m False, simplified]
  have sz: "16 \<le> m" "16 \<le> n" "8 dvd m + n"
    using rep by (auto simp: heap_tags_def)
  have f: "ftr s (a + m) (m, False)" "hdr s a (m, False)"
    using heap_tags_prev(1,3) [OF rep', of "(m, False)"] a by (simp_all add: add.assoc)
  note res = write_block [OF mid a, of ?b ?s2, simplified]
  have d: "4 dvd a + (m + n) - 8" "a + (m + n) \<le> hi s + 4" "4 dvd a" "lo s + 16 \<le> a"
    using stretch_bounds [OF mid a] sz by (auto intro: dvd4_footer)
  have "PUT (of_nat (a + (m + n) - 8)) (tag ?b) s = Some ?s1"
    using d sz by (intro PUT_nat) auto
  then have p1: "PUT (of_nat (a + m + n - 8)) (tag ?b) s = Some ?s1"
    by (simp add: add.assoc)
  have f1: "ftr ?s1 (a + m) (m, False)"
    using f d sz by (intro ftr_put_other) auto
  have p2: "PUT (HDRP (of_nat a)) (tag ?b) ?s1 = Some ?s2"
  proof (rule PUT_hdr)
    show "hdr ?s1 a (m, False)"
      using f d sz by (intro hdr_put_other) auto
  qed
  have f2: "ftr ?s2 (a + m) (m, False)"
    by (rule ftr_put_other [OF f1]) (use d sz in auto)
  have sum: "(of_nat n + of_nat m :: u32) = of_nat (m + n)"
    by (simp add: of_nat_add)
  have "coalesce (of_nat (a + m)) s = Some (of_nat a, ?s2)"
    using p1 p2 ftr_reads(1) [OF f1] ftr_reads(1) [OF f2]
    by (simp add: coalesce_def reads sum)
  with res sz show ?thesis
    by auto
qed


lemma coalesce_both:
  assumes rep: "heap_tags s (xs @ (m, False) # (n, False) # (k, False) # ys)"
    and a: "a = block_addr s xs"
  shows "\<exists>s'. coalesce (of_nat (a + m)) s = Some (of_nat a, s')
    \<and> heap_tags s' (xs @ (m + n + k, False) # ys)
    \<and> changes_only s s' (a - 4) (a + (m + n + k) - 4)"
proof -
  let ?b = "(m + n + k, False)"
  let ?s1 = "put_word (a + (m + n + k) - 8) (tag ?b) s"
  let ?s2 = "put_word (a - 4) (tag ?b) ?s1"
  have rep': "heap_tags s ((xs @ [(m, False)]) @ (n, False) # (k, False) # ys)"
    and mid: "heap_tags s (xs @ [(m, False), (n, False), (k, False)] @ ys)"
    and rep'': "heap_tags s ((xs @ [(m, False), (n, False)]) @ (k, False) # ys)"
    using rep by simp_all
  have am: "a + m = block_addr s (xs @ [(m, False)])"
    and amn: "a + m + n = block_addr s (xs @ [(m, False), (n, False)])"
    using a by simp_all
  note reads = coalesce_reads [OF rep' am _, of m False k False, simplified]
  have sz: "16 \<le> m" "16 \<le> n" "16 \<le> k" "8 dvd m + n + k" "8 dvd k"
    using rep by (auto simp: heap_tags_def)
  have f: "ftr s (a + m) (m, False)" "hdr s a (m, False)"
    using heap_tags_prev(1,3) [OF rep', of "(m, False)"] a by (simp_all add: add.assoc)
  have g: "hdr s (a + m + n) (k, False)" "ftr s (a + m + n + k) (k, False)"
    using heap_tags_next [OF rep'', of "(k, False)"] amn by (simp_all only: add.assoc list.sel append_Cons fst_conv) blast+
  have nftr: "FTRP s (of_nat (a + m + n)) = Some (of_nat (a + m + n + k - 8))"
    using hdr_reads(3) [OF g(1)] sz by simp
  have nsize: "GET_SIZE s (of_nat (a + m + n + k - 8)) = Some (of_nat k)"
    using ftr_reads(3) [OF g(2)] by simp
  note res = write_block [OF mid a, of ?b ?s2, simplified]
  have d: "4 dvd a + (m + n + k) - 8" "a + (m + n + k) \<le> hi s + 4" "4 dvd a" "lo s + 16 \<le> a"
    using stretch_bounds [OF mid a] sz by (auto intro: dvd4_footer)
  have p1: "PUT (of_nat (a + m + n + k - 8)) (tag ?b) s = Some ?s1"
    using PUT_ftr [OF g(2)] by (simp add: add.assoc)
  have f1: "ftr ?s1 (a + m) (m, False)"
    using f d sz by (intro ftr_put_other) auto
  have p2: "PUT (HDRP (of_nat a)) (tag ?b) ?s1 = Some ?s2"
  proof (rule PUT_hdr)
    show "hdr ?s1 a (m, False)"
      using f d sz by (intro hdr_put_other) auto
  qed
  have f2: "ftr ?s2 (a + m) (m, False)"
    by (rule ftr_put_other [OF f1]) (use d sz in auto)
  have sum: "(of_nat n + (of_nat m + of_nat k) :: u32) = of_nat (m + n + k)"
    by (simp add: of_nat_add)
  have "coalesce (of_nat (a + m)) s = Some (of_nat a, ?s2)"
    using p1 p2 ftr_reads(1) [OF f1] ftr_reads(1) [OF f2]
    by (simp add: coalesce_def reads nftr nsize sum)
  with res sz show ?thesis
    by (auto simp: add.assoc)
qed

text \<open>The function merges in the block list, and writes inside the merged block only.\<close>

lemma coalesce_refines:
  assumes rep: "heap_tags s (xs @ (n, False) # ys)"
    and l: "merge_left xs n = (zs, m)" and r: "merge_right m ys = (k, us)"
  shows "\<exists>s'. coalesce (of_nat (block_addr s xs)) s = Some (of_nat (block_addr s zs), s')
    \<and> heap_tags s' (zs @ (k, False) # us)
    \<and> changes_only s s' (block_addr s zs - 4) (block_addr s zs + k - 4)"
proof (rule merge_left_cases [of xs n])
  fix p vs
  assume xs: "xs = vs @ [(p, False)]" and eq: "merge_left xs n = (vs, p + n)"
  from eq l have z: "zs = vs" "m = p + n"
    by simp_all
  show ?thesis
  proof (rule merge_right_cases [of ys m])
    fix q ws
    assume "ys = (q, False) # ws" "merge_right m ys = (m + q, ws)"
    with r rep xs z coalesce_both [of s vs p n q ws] show ?thesis
      by (simp add: add.assoc)
  next
    assume alloc: "ys = [] \<or> snd (hd ys)" and "merge_right m ys = (m, ys)"
    obtain e where "hd (ys @ [epilogue]) = (e, True)"
      using alloc by (cases ys) (auto simp: epilogue_def prod_eq_iff)
    with r rep xs z coalesce_prev [of s vs p n ys] \<open>merge_right m ys = (m, ys)\<close> show ?thesis
      by (simp add: add.assoc)
  qed
next
  assume alloc: "xs = [] \<or> snd (last xs)" and eq: "merge_left xs n = (xs, n)"
  have "snd (last (prologue # xs))"
    using alloc by auto
  then obtain p where P: "last (prologue # xs) = (p, True)"
    by (cases "last (prologue # xs)") auto
  from eq l have z: "zs = xs" "m = n"
    by simp_all
  show ?thesis
  proof (rule merge_right_cases [of ys m])
    fix q ws
    assume "ys = (q, False) # ws" "merge_right m ys = (m + q, ws)"
    with r rep z P coalesce_next [of s xs n q ws] show ?thesis
      by simp
  next
    assume alloc: "ys = [] \<or> snd (hd ys)" and "merge_right m ys = (m, ys)"
    obtain e where "hd (ys @ [epilogue]) = (e, True)"
      using alloc by (cases ys) (auto simp: epilogue_def prod_eq_iff)
    with r rep z P coalesce_neither [of s xs n ys] \<open>merge_right m ys = (m, ys)\<close> show ?thesis
      by simp
  qed
qed

end
