(* ===== verification/Mm_Refine.thy ===== *)
theory Mm_Refine
  imports Mm_Coalesce
begin

text \<open>
  The functions of \<open>mm.c\<close> refine the operations on block lists: \<open>place\<close>, \<open>find_fit\<close>,
  \<open>extend_heap\<close>, \<open>mm_init\<close>, \<open>mm_free\<close> and \<open>mm_malloc\<close>. Each lemma says that the call
  returns, which block list the heap represents afterwards, and which bytes changed.
\<close>

section \<open>\<open>place\<close>\<close>

lemma heap_tags_free:
  assumes rep: "heap_tags s (xs @ (n, False) # ys)" and p: "p = block_addr s xs"
  shows "16 \<le> n" "8 dvd n" "n < 2 ^ 32" "lo s + 16 \<le> p" "4 dvd p" "p + n \<le> hi s" "p + n < 2 ^ 32"
    "hdr s p (n, False)"
proof -
  have mid: "heap_tags s (xs @ [(n, False)] @ ys)"
    using rep by simp
  note b = stretch_bounds [OF mid p, simplified]
  show "16 \<le> n" "8 dvd n" "n < 2 ^ 32" "lo s + 16 \<le> p" "4 dvd p" "p + n \<le> hi s" "p + n < 2 ^ 32"
    using rep b hi_less [of s] by (auto simp: heap_tags_def sizes_ok_def)
  show "hdr s p (n, False)"
    using heap_tags_next(1) [OF rep, of "(n, False)"] p by simp
qed

text \<open>The comparison with which \<open>place\<close> decides between its two branches.\<close>

lemma place_rest:
  assumes "k \<le> n" "n < 2 ^ 32"
  shows "(of_nat n :: u32) - of_nat k = of_nat (n - k)"
    "2 * DSIZE \<le> (of_nat n :: u32) - of_nat k \<longleftrightarrow> 16 \<le> n - k"
  using assms of_nat_word32_le [of 16 "n - k"] by (simp_all add: of_nat_word32_minus DSIZE_def)

lemma place_splits:
  assumes rep: "heap_tags s (xs @ (n, False) # ys)" and p: "p = block_addr s xs"
    and k: "16 \<le> k" "8 dvd k" "16 \<le> n - k"
  shows "\<exists>s'. place (of_nat p) (of_nat k) s = Some s'
    \<and> heap_tags s' (xs @ [(k, True), (n - k, False)] @ ys) \<and> changes_only s s' (p - 4) (p + n - 4)"
proof -
  have mid: "heap_tags s (xs @ [(n, False)] @ ys)"
    using rep by simp
  note b = heap_tags_free [OF rep p]
  have kn: "k \<le> n"
    using k by simp
  let ?b = "(k, True)" and ?c = "(n - k, False)"
  let ?s1 = "put_word (p - 4) (tag ?b) s"
  let ?s2 = "put_word (p + k - 8) (tag ?b) ?s1"
  let ?s3 = "put_word (p + k - 4) (tag ?c) ?s2"
  let ?s4 = "put_word (p + n - 8) (tag ?c) ?s3"
  have d: "4 dvd p - 4" "4 dvd p + k - 8" "4 dvd p + k - 4" "4 dvd p + n - 8" "4 dvd p + k" "8 dvd n - k"
    using b(2,5) k by (auto intro: dvd4_footer dvd8_dvd4)
  have h1: "hdr ?s1 p ?b"
    using b(8) k kn by (intro hdr_put_same) (auto simp: hdr_def)
  have h2: "hdr ?s2 p ?b"
    by (rule hdr_put_other [OF h1]) (use d b k in auto)
  have h3: "hdr ?s3 (p + k) ?c"
    by (rule hdr_put_same) (use d b k in auto)
  have p2: "PUT (of_nat (p + k - 8)) (tag ?b) ?s1 = Some ?s2"
    by (rule PUT_nat) (use d b k in auto)
  have p3: "PUT (HDRP (of_nat (p + k))) (tag ?c) ?s2 = Some ?s3"
    using d b k by (simp add: HDRP_nat PUT_nat)
  have p4: "PUT (of_nat (p + n - 8)) (tag ?c) ?s3 = Some ?s4"
    by (rule PUT_nat) (use d b k in auto)
  have "place (of_nat p) (of_nat k) s = Some ?s4"
    using k p2 p3 p4 hdr_reads(3) [OF h1] hdr_reads(4) [OF h2] hdr_reads(3) [OF h3] place_rest [OF kn b(3)]
    by (simp add: place_def hdr_reads(1) [OF b(8)] PUT_hdr [OF b(8)])
  moreover have ch: "changes_only s ?s4 (p - 4) (p + n - 4)"
    using b k by (auto intro!: changes_only_put)
  moreover have "heap_tags ?s4 (xs @ [?b, ?c] @ ys)"
  proof (rule heap_tags_splice [OF mid p])
    have "hdr ?s4 p ?b"
      by (intro hdr_put_other [OF hdr_put_other [OF h2]]) (use d b k in auto)
    moreover have "ftr ?s4 (p + k) ?b"
      by (intro ftr_put_other [OF ftr_put_other [OF ftr_put_same]]) (use d b k in auto)
    moreover have "hdr ?s4 (p + k) ?c"
      by (intro hdr_put_other [OF h3]) (use d b k in auto)
    moreover have "ftr ?s4 (p + n) ?c"
      by (rule ftr_put_same) (use d b k in \<open>auto intro: dvd_add dvd8_dvd4\<close>)
    ultimately show "blocks_at ?s4 p [?b, ?c]"
      using kn by (intro blocks_at_ConsI) (auto simp del: put_word_fields)
  qed (use ch k kn d in auto)
  ultimately show ?thesis
    by blast
qed

lemma place_whole:
  assumes rep: "heap_tags s (xs @ (n, False) # ys)" and p: "p = block_addr s xs"
    and k: "k \<le> n" "\<not> 16 \<le> n - k"
  shows "\<exists>s'. place (of_nat p) (of_nat k) s = Some s'
    \<and> heap_tags s' (xs @ (n, True) # ys) \<and> changes_only s s' (p - 4) (p + n - 4)"
proof -
  have mid: "heap_tags s (xs @ [(n, False)] @ ys)"
    using rep by simp
  note b = heap_tags_free [OF rep p]
  let ?b = "(n, True)"
  let ?s1 = "put_word (p - 4) (tag ?b) s"
  let ?s2 = "put_word (p + n - 8) (tag ?b) ?s1"
  have h1: "hdr ?s1 p ?b"
    using b(8) by (intro hdr_put_same) (auto simp: hdr_def)
  have p2: "PUT (of_nat (p + n - 8)) (tag ?b) ?s1 = Some ?s2"
    by (rule PUT_nat) (use b in \<open>auto intro: dvd4_footer\<close>)
  have "place (of_nat p) (of_nat k) s = Some ?s2"
    using k(2) b(1) p2 hdr_reads(3) [OF h1] place_rest [OF k(1) b(3)]
    by (simp add: place_def hdr_reads(1) [OF b(8)] PUT_hdr [OF b(8)])
  then show ?thesis
    using write_block [OF mid p, of ?b ?s2] b by auto
qed

lemma place_refines:
  assumes rep: "heap_tags s (xs @ (n, False) # ys)" and p: "p = block_addr s xs"
    and k: "16 \<le> k" "8 dvd k" "k \<le> n"
  shows "\<exists>s'. place (of_nat p) (of_nat k) s = Some s'
    \<and> heap_tags s' (xs @ place_blocks k n @ ys) \<and> changes_only s s' (p - 4) (p + n - 4)"
proof (cases "16 \<le> n - k")
  case True
  with place_splits [OF rep p k(1,2)] show ?thesis
    by (simp add: place_blocks_def)
next
  case False
  with place_whole [OF rep p k(3)] show ?thesis
    by (simp add: place_blocks_def)
qed

section \<open>\<open>find_fit\<close>\<close>

definition found :: "nat \<Rightarrow> (block list \<times> nat \<times> block list) option \<Rightarrow> addr" where
  "found a r = (case r of None \<Rightarrow> NULL | Some (xs, _, _) \<Rightarrow> of_nat (a + total xs))"

lemma found_simps [simp]:
  "found a None = NULL"
  "found a (Some (xs, n, ys)) = of_nat (a + total xs)"
  by (simp_all add: found_def)

lemma found_Cons [simp]:
  "found a (map_option (\<lambda>(xs, y). (b # xs, y)) r) = found (a + fst b) r"
  by (auto simp: found_def add.assoc split: option.splits)

lemma find_fit_loop_refines:
  assumes "heap_tags s (xs @ ys)" "k < 2 ^ 32"
  shows "find_fit_loop (of_nat k) s (of_nat (block_addr s xs)) = Some (found (block_addr s xs) (first_fit k ys))"
  using assms(1)
proof (induction ys arbitrary: xs)
  case Nil
  then have "hdr s (block_addr s xs) epilogue"
    using heap_tags_next(1) [of s xs "[]" epilogue] by simp
  then show ?case
    using hdr_reads(1) [of s "block_addr s xs" 0 True]
    by (subst find_fit_loop.simps) (simp add: epilogue_def)
next
  case (Cons b ys)
  obtain n al where b: "b = (n, al)"
    by (cases b)
  have "hdr s (block_addr s xs) (n, al)"
    using heap_tags_next(1) [OF Cons.prems, of b] b by simp
  note reads = hdr_reads [OF this]
  have "n < 2 ^ 32" "0 < n"
    using heap_tags_bounds [OF Cons.prems] hi_less [of s] b Cons.prems
    by (auto simp: heap_tags_def)
  then have n: "0 < (of_nat n :: u32)" "of_nat k \<le> (of_nat n :: u32) \<longleftrightarrow> k \<le> n"
    using of_nat_word32_less [of 0 n] of_nat_word32_le [OF assms(2), of n] by simp_all
  have "find_fit_loop (of_nat k) s (of_nat (block_addr s xs + n))
      = Some (found (block_addr s xs + n) (first_fit k ys))"
    using Cons.IH [of "xs @ [b]"] Cons.prems b by (simp add: add.assoc)
  then show ?case
    using n b by (subst find_fit_loop.simps) (simp add: reads fits_def)
qed

lemma find_fit_refines:
  assumes "heap_tags s bs" "k < 2 ^ 32"
  shows "find_fit (of_nat k) s = Some (found (lo s + 16) (first_fit k bs))"
proof -
  have "hdr s (lo s + 8) prologue"
    using heap_tags_prev(3) [of s "[]" bs prologue] assms(1) by (simp add: add.commute)
  then have "hdr s (lo s + 8) (8, True)"
    by (simp add: prologue_def)
  note reads = hdr_reads [OF this, simplified of_nat_numeral]
  have "(0 :: u32) < 8"
    by simp
  moreover have "heap_listp s = of_nat (lo s + 8)"
    using assms(1) by (simp add: heap_tags_def)
  moreover have "lo s + 8 + 8 = lo s + 16"
    by simp
  ultimately show ?thesis
    using find_fit_loop_refines [of s "[]" bs k] assms
    by (subst find_fit_def, subst find_fit_loop.simps) (simp only: reads bind.bind_lunit if_True
        simp_thms of_bool_eq one_neq_zero if_False append_Nil list.map sum_list.Nil add_0_right)
qed

end
