(* ===== verification/Mm_Alloc.thy ===== *)
theory Mm_Alloc
  imports Mm_Refine
begin

text \<open>
  The functions of \<open>mm.c\<close> that callers see: \<open>extend_heap\<close> and \<open>mm_init\<close>, then
  \<open>mm_free\<close>, \<open>mm_malloc\<close> and \<open>mm_realloc\<close>, each against the operation on block lists, with
  the bytes of every other allocated block unchanged.
\<close>

section \<open>Payloads that a call keeps\<close>

text \<open>The payload of the allocated block \<open>(p, n)\<close> is \<open>[p, p + n - 8)\<close>.\<close>

definition payloads_kept :: "mm \<Rightarrow> mm \<Rightarrow> (nat \<times> nat) set \<Rightarrow> bool" where
  "payloads_kept s s' A \<longleftrightarrow> (\<forall>(p, n) \<in> A. \<forall>i < n - 8. byte_at s' (p + i) = byte_at s (p + i))"

lemma payloads_keptD:
  "payloads_kept s s' A \<Longrightarrow> (p, n) \<in> A \<Longrightarrow> i < n - 8 \<Longrightarrow> byte_at s' (p + i) = byte_at s (p + i)"
  by (auto simp: payloads_kept_def)

definition same_bytes :: "mm \<Rightarrow> mm \<Rightarrow> nat \<Rightarrow> nat \<Rightarrow> bool" where
  "same_bytes s s' l h \<longleftrightarrow> (\<forall>q. q < 2 ^ 32 \<longrightarrow> q < l \<or> h \<le> q \<longrightarrow> byte_at s' q = byte_at s q)"

lemma changes_only_same_bytes: "changes_only s s' l h \<Longrightarrow> same_bytes s s' l h"
  by (simp add: changes_only_def same_bytes_def)

lemma same_bytes_trans: "same_bytes s t l h \<Longrightarrow> same_bytes t u l h \<Longrightarrow> same_bytes s u l h"
  by (simp add: same_bytes_def)

lemma payloads_kept_outside:
  assumes "same_bytes s s' l h"
    and "\<And>p n. (p, n) \<in> A \<Longrightarrow> (p + n \<le> l + 8 \<or> h \<le> p) \<and> p + n \<le> 2 ^ 32"
  shows "payloads_kept s s' A"
  using assms by (fastforce simp: payloads_kept_def same_bytes_def)

lemma payloads_kept_trans:
  "payloads_kept s t A \<Longrightarrow> payloads_kept t u A \<Longrightarrow> payloads_kept s u A"
  by (fastforce simp: payloads_kept_def)

lemma payloads_kept_mono: "payloads_kept s t A \<Longrightarrow> B \<subseteq> A \<Longrightarrow> payloads_kept s t B"
  by (auto simp: payloads_kept_def)

text \<open>The allocated blocks of the heap, with their absolute addresses.\<close>

abbreviation live :: "mm \<Rightarrow> block list \<Rightarrow> (nat \<times> nat) list" where
  "live s bs \<equiv> allocs (lo s + 16) bs"

lemma live_around:
  assumes "heap_tags s (xs @ mid @ ys)" "allocs (block_addr s xs) mid = []"
    and "(p, n) \<in> set (live s (xs @ mid @ ys))"
  shows "p + n \<le> block_addr s xs \<or> block_addr s xs + total mid \<le> p" "p + n \<le> hi s"
proof -
  have "(p, n) \<in> set (live s xs) \<or> (p, n) \<in> set (allocs (block_addr s xs + total mid) ys)"
    using assms(2,3) by (auto simp: allocs_append)
  then show "p + n \<le> block_addr s xs \<or> block_addr s xs + total mid \<le> p"
    by (auto dest: allocs_range)
  show "p + n \<le> hi s"
    using allocs_range [OF assms(3)] heap_tags_bounds [OF assms(1)] by auto
qed

text \<open>A change inside a stretch without allocated blocks keeps every payload.\<close>

lemma payloads_kept_stretch:
  assumes "heap_tags v (xs @ mid @ ys)" "allocs (block_addr v xs) mid = []"
    and "same_bytes s s' (block_addr v xs - 4) (block_addr v xs + total mid - 4)"
  shows "payloads_kept s s' (set (live v (xs @ mid @ ys)))"
proof (rule payloads_kept_outside [OF assms(3)])
  fix p n
  assume "(p, n) \<in> set (live v (xs @ mid @ ys))"
  from live_around [OF assms(1,2) this] hi_less [of v]
  show "(p + n \<le> block_addr v xs - 4 + 8 \<or> block_addr v xs + total mid - 4 \<le> p) \<and> p + n \<le> 2 ^ 32"
    by auto
qed

section \<open>\<open>extend_heap\<close>\<close>

lemma word_at_bytes: "mem_bytes s' = mem_bytes s \<Longrightarrow> word_at s' q = word_at s q"
  by (simp add: word_at_def)

lemma blocks_at_bytes: "mem_bytes s' = mem_bytes s \<Longrightarrow> blocks_at s' a bs = blocks_at s a bs"
  by (induction bs arbitrary: a) (simp_all add: word_at_def)

text \<open>After the break has moved by \<open>e\<close>: the three tag writes make the new free block.\<close>

definition grown :: "nat \<Rightarrow> nat \<Rightarrow> mm \<Rightarrow> mm" where
  "grown B e t = put_word (B + e - 4) (tag (0, True))
     (put_word (B + e - 8) (tag (e, False)) (put_word (B - 4) (tag (e, False)) t))"

lemma grown_fields [simp]:
  "mem_brk (grown B e t) = mem_brk t" "mem_start_brk (grown B e t) = mem_start_brk t"
  "mem_max_addr (grown B e t) = mem_max_addr t" "heap_listp (grown B e t) = heap_listp t"
  by (simp_all add: grown_def)

text \<open>Where the break may move: aligned, inside the arena, with room for a block.\<close>

definition extension_fits :: "nat \<Rightarrow> nat \<Rightarrow> mm \<Rightarrow> bool" where
  "extension_fits B e t \<longleftrightarrow> 16 \<le> e \<and> 8 dvd e \<and> 4 dvd B \<and> lo t + 16 \<le> B \<and> B + e \<le> hi t"

lemma grown_writes:
  assumes r: "extension_fits B e t"
  shows "(do { s \<leftarrow> PUT (HDRP (of_nat B)) (PACK (of_nat e) 0) t;
               ftr \<leftarrow> FTRP s (of_nat B);
               s \<leftarrow> PUT ftr (PACK (of_nat e) 0) s;
               nxt \<leftarrow> NEXT_BLKP s (of_nat B);
               s \<leftarrow> PUT (HDRP nxt) (PACK 0 1) s;
               f s }) = f (grown B e t)"
    "hdr (grown B e t) B (e, False)" "ftr (grown B e t) (B + e) (e, False)"
    "word_at (grown B e t) (B + e - 4) = tag (0, True)"
    "changes_only t (grown B e t) (B - 4) (B + e)"
proof -
  let ?b = "(e, False)"
  let ?u1 = "put_word (B - 4) (tag ?b) t"
  let ?u2 = "put_word (B + e - 8) (tag ?b) ?u1"
  have g: "grown B e t = put_word (B + e - 4) (tag (0, True)) ?u2"
    by (simp add: grown_def)
  have d: "4 dvd B" "4 dvd B - 4" "4 dvd B + e - 8" "4 dvd B + e - 4" "4 dvd B + e"
    and l: "16 \<le> e" "8 dvd e" "lo t + 16 \<le> B" "B + e \<le> hi t" "hi t < 2 ^ 32"
    using r hi_less [of t] dvd8_dvd4 [of e] dvd4_footer [of B e] by (auto simp: extension_fits_def)
  have p1: "PUT (HDRP (of_nat B)) (tag ?b) t = Some ?u1"
    using d l by (simp add: HDRP_nat PUT_nat)
  have h1: "hdr ?u1 B ?b"
    by (rule hdr_put_same) (use d l in auto)
  have p2: "PUT (of_nat (B + e - 8)) (tag ?b) ?u1 = Some ?u2"
    by (rule PUT_nat) (use d l in auto)
  have h2: "hdr ?u2 B ?b"
    by (rule hdr_put_other [OF h1]) (use d l in auto)
  have f2: "ftr ?u2 (B + e) ?b"
    by (rule ftr_put_same) (use d l in auto)
  have p3: "PUT (HDRP (of_nat (B + e))) (tag (0, True)) ?u2 = Some (grown B e t)"
    using d l by (simp add: HDRP_nat PUT_nat g)
  have "PACK 0 1 = tag (0, True)"
    by (simp add: tag_def)
  then show "(do { s \<leftarrow> PUT (HDRP (of_nat B)) (PACK (of_nat e) 0) t;
               ftr \<leftarrow> FTRP s (of_nat B);
               s \<leftarrow> PUT ftr (PACK (of_nat e) 0) s;
               nxt \<leftarrow> NEXT_BLKP s (of_nat B);
               s \<leftarrow> PUT (HDRP nxt) (PACK 0 1) s;
               f s }) = f (grown B e t)"
    using p1 p2 p3 hdr_reads(3) [OF h1] hdr_reads(4) [OF h2] l by simp
  show "hdr (grown B e t) B ?b"
    unfolding g by (rule hdr_put_other [OF h2]) (use d l in auto)
  show "ftr (grown B e t) (B + e) ?b"
    unfolding g by (rule ftr_put_other [OF f2]) (use d l in auto)
  have "hdr (grown B e t) (B + e) (0, True)"
    unfolding g by (rule hdr_put_same) (use d l in auto)
  then show "word_at (grown B e t) (B + e - 4) = tag (0, True)"
    by (simp add: hdr_def)
  show "changes_only t (grown B e t) (B - 4) (B + e)"
    unfolding g using l by (auto intro!: changes_only_put)
qed

lemma extend_tags:
  assumes rep: "heap_tags s bs" and e: "16 \<le> e" "8 dvd e" "brk s + e \<le> hi s"
    and B: "B = brk s" and t: "t = s\<lparr>mem_brk := of_nat (B + e)\<rparr>"
  shows "\<exists>u. (do { s \<leftarrow> PUT (HDRP (of_nat B)) (PACK (of_nat e) 0) t;
                   ftr \<leftarrow> FTRP s (of_nat B);
                   s \<leftarrow> PUT ftr (PACK (of_nat e) 0) s;
                   nxt \<leftarrow> NEXT_BLKP s (of_nat B);
                   s \<leftarrow> PUT (HDRP nxt) (PACK 0 1) s;
                   f s }) = f u
    \<and> heap_tags u (bs @ [(e, False)]) \<and> changes_only t u (B - 4) (B + e)"
proof -
  have tb: "brk t = B + e" "mem_bytes t = mem_bytes s" "mem_start_brk t = mem_start_brk s"
    "mem_max_addr t = mem_max_addr s" "heap_listp t = heap_listp s"
    using mem_sbrk_brk [OF e(3)] B by (simp_all add: t)
  note bounds = heap_tags_bounds [of s bs "[]", simplified, OF rep]
  have Bs: "B = lo s + 8 + total (prologue # bs)" and r: "lo s + 16 \<le> B"
    and fits: "extension_fits B e t"
    using bounds e B tb dvd8_dvd4 [OF e(2)] by (auto simp: extension_fits_def intro: dvd8_dvd4)
  obtain u where u: "grown B e t = u"
    by blast
  note w = grown_writes [OF fits, unfolded u] and fields = grown_fields [of B e t, unfolded u]
  have "blocks_at u (lo s + 8) (prologue # bs)"
  proof (rule blocks_at_frame [OF _ w(5)])
    show "blocks_at t (lo s + 8) (prologue # bs)"
      using rep unfolding heap_tags_def blocks_at_bytes [OF tb(2)] by blast
    show "8 \<le> fst b" if "b \<in> set (prologue # bs)" for b
      using that rep by (force simp: heap_tags_def sizes_ok_def)
  qed (use Bs r e B hi_less [of s] in auto)
  moreover have "word_at u (lo s) = 0"
    using changes_only_word [OF w(5), of "lo s"] rep r e B hi_less [of s]
    by (simp add: heap_tags_def word_at_bytes [OF tb(2)])
  moreover have "blocks_at u B [(e, False)]"
    using w(2,3) by (intro blocks_at_ConsI) simp_all
  ultimately have "heap_tags u (bs @ [(e, False)])"
    using rep e tb B Bs w(4) fields by (simp add: heap_tags_def arena_ok_def blocks_at_append)
  with w(1,5) show ?thesis
    by blast
qed

text \<open>The size the function computes: an even number of double words.\<close>

definition words_size :: "nat \<Rightarrow> nat" where
  "words_size w = 8 * (w + w mod 2)"

lemma words_size_code:
  assumes "w < 2 ^ 32"
  shows "(if (of_nat w :: u32) mod 2 \<noteq> 0 then (of_nat w + 1) * DSIZE else of_nat w * DSIZE)
    = of_nat (words_size w)"
  using mod2_word32 [OF assms]
  by (cases "even w")
    (simp_all add: words_size_def DSIZE_def odd_iff_mod_2_eq_one of_nat_add mult.commute)

lemma words_size_props: "16 dvd words_size w" "2 \<le> w \<Longrightarrow> 16 \<le> words_size w"
  by (cases "even w"; force simp: words_size_def elim!: evenE oddE)+

lemma extend_heap_nat:
  assumes "w < 2 ^ 32"
  shows "extend_heap (of_nat w) s =
     (case mem_sbrk (of_nat (words_size w)) s of (bp, s) \<Rightarrow>
        if bp = - 1 then Some (NULL, s)
        else do {
          s \<leftarrow> PUT (HDRP bp) (PACK (of_nat (words_size w)) 0) s;
          ftr \<leftarrow> FTRP s bp;
          s \<leftarrow> PUT ftr (PACK (of_nat (words_size w)) 0) s;
          nxt \<leftarrow> NEXT_BLKP s bp;
          s \<leftarrow> PUT (HDRP nxt) (PACK 0 1) s;
          coalesce bp s })"
  unfolding extend_heap_def Let_def words_size_code [OF assms] ..

lemma extend_heap_fails:
  assumes "arena_ok s" "w < 2 ^ 32" "brk s + words_size w < 2 ^ 32" "hi s < brk s + words_size w"
  shows "extend_heap (of_nat w) s = Some (NULL, s\<lparr>errno := ENOMEM\<rparr>)"
  using assms mem_sbrk_nat [OF assms(1,3)]
  by (simp add: extend_heap_nat)

lemma extend_heap_refines:
  assumes rep: "heap_tags s bs" and w: "2 \<le> w" "w < 2 ^ 32"
    and e: "e = words_size w" "brk s + e \<le> hi s" and l: "merge_left bs e = (zs, m)"
  shows "\<exists>u. extend_heap (of_nat w) s = Some (of_nat (block_addr s zs), u)
    \<and> heap_tags u (zs @ [(m, False)])
    \<and> changes_only (s\<lparr>mem_brk := of_nat (brk s + e)\<rparr>) u (block_addr s zs - 4) (brk s + e)"
proof -
  let ?t = "s\<lparr>mem_brk := of_nat (brk s + e)\<rparr>"
  have ok: "arena_ok s"
    using rep by (simp add: heap_tags_def)
  have hi: "hi s < 2 ^ 32"
    by (rule hi_less)
  have esz: "16 \<le> e" "8 dvd e"
    using words_size_props [of w] w e(1) by (auto intro: dvd_trans [of 8 16])
  have B: "brk s = block_addr s bs"
    using heap_tags_bounds(2) [of s bs "[]"] rep by simp
  have nt: "(of_nat (brk s) :: addr) \<noteq> - 1"
    using e(2) hi esz by (intro minus_one_word32) linarith
  have sb: "mem_sbrk (of_nat e) s = (of_nat (brk s), ?t)"
    using mem_sbrk_nat [OF ok, of e] e(2) hi by simp
  obtain u where run: "extend_heap (of_nat w) s = coalesce (of_nat (brk s)) u"
    and u: "heap_tags u (bs @ [(e, False)])" "changes_only ?t u (brk s - 4) (brk s + e)"
    using extend_tags [OF rep esz e(2) refl refl, of "coalesce (of_nat (brk s))"] nt
    by (auto simp: extend_heap_nat [OF w(2)] e(1) [symmetric] sb)
  have regs: "mem_start_brk u = mem_start_brk s"
    using changes_only_regs(1) [OF u(2)] by simp
  from coalesce_refines [OF u(1) l, of m "[]"]
  obtain v where v: "coalesce (of_nat (block_addr s bs)) u = Some (of_nat (block_addr s zs), v)"
    "heap_tags v (zs @ [(m, False)])"
    "changes_only u v (block_addr s zs - 4) (block_addr s zs + m - 4)"
    by (auto simp: regs)
  have zs: "block_addr s zs + m = brk s + e" "block_addr s zs \<le> brk s"
    using merge_leftD(1,3) [OF l] B by simp_all
  have "changes_only ?t v (block_addr s zs - 4) (brk s + e)"
    by (rule changes_only_trans [OF changes_only_mono [OF u(2)] changes_only_mono [OF v(3)]])
      (use zs in auto)
  with run v B show ?thesis
    by auto
qed

section \<open>\<open>mm_init\<close>\<close>

lemma mm_init_tags:
  assumes ok: "arena_ok s" and empty: "brk s = lo s" and l: "l = lo s"
  defines "t \<equiv> s\<lparr>mem_brk := of_nat (l + 16), heap_listp := of_nat l\<rparr>"
  defines "u \<equiv> put_word (l + 12) (tag (0, True)) (put_word (l + 8) (tag (8, True))
     (put_word (l + 4) (tag (8, True)) (put_word l 0 t)))"
  shows "mm_init s = do {
      (bp, s) \<leftarrow> extend_heap (of_nat 512) (u\<lparr>heap_listp := of_nat (l + 8)\<rparr>);
      if bp = NULL then Some (- 1, s) else Some (0, s) }"
    and "heap_tags (u\<lparr>heap_listp := of_nat (l + 8)\<rparr>) []"
    and "changes_only t u l (l + 16)"
proof -
  have r: "4 dvd l" "8 dvd l" "0 < l" "l + 16 \<le> hi s" "hi s < 2 ^ 32" "hi s = l + MAX_HEAP"
    using ok hi_less [of s] l by (auto simp: arena_ok_def MAX_HEAP_val intro: dvd8_dvd4)
  have sb: "mem_sbrk (4 * WSIZE) s = (of_nat l, s\<lparr>mem_brk := of_nat (l + 16)\<rparr>)"
    using mem_sbrk_nat [OF ok, of 16] empty l r by (simp add: WSIZE_def)
  have nt: "(of_nat l :: addr) \<noteq> - 1"
    using r by (intro minus_one_word32) linarith
  have off: "of_nat l + WSIZE = of_nat (l + 4)" "of_nat l + 2 * WSIZE = of_nat (l + 8)"
    "of_nat l + 3 * WSIZE = of_nat (l + 12)"
    by (simp_all add: WSIZE_def of_nat_add)
  have tagw: "PACK DSIZE 1 = tag (8, True)" "PACK 0 1 = tag (0, True)"
    by (simp_all add: tag_def DSIZE_def)
  have lot: "lo t = l" "hi t = hi s" "heap_listp t = of_nat l"
    by (simp_all add: t_def l)
  have P: "PUT (of_nat q) v x = Some (put_word q v x)" if "4 dvd q" "l \<le> q" "q \<le> l + 12" "lo x = l" "hi x = hi s" for q v x
    using that r by (intro PUT_nat) auto
  have d: "4 dvd l + 4" "4 dvd l + 8" "4 dvd l + 12"
    using r by auto
  have "CHUNKSIZE div DSIZE = of_nat 512"
    by (simp add: CHUNKSIZE_def DSIZE_def)
  then show "mm_init s = do {
      (bp, s) \<leftarrow> extend_heap (of_nat 512) (u\<lparr>heap_listp := of_nat (l + 8)\<rparr>);
      if bp = NULL then Some (- 1, s) else Some (0, s) }"
    using nt by (simp add: mm_init_def sb off tagw P r d lot u_def t_def [symmetric])
  show "changes_only t u l (l + 16)"
    unfolding u_def using r by (auto intro!: changes_only_put)
  let ?v = "u\<lparr>heap_listp := of_nat (l + 8)\<rparr>"
  have "mem_bytes ?v = mem_bytes u" "mem_start_brk u = mem_start_brk s" "mem_max_addr u = mem_max_addr s"
    "mem_brk u = of_nat (l + 16)"
    by (simp_all add: u_def t_def)
  note v = word_at_bytes [OF this(1)] this(2-4)
  have "unat (of_nat (l + 16) :: addr) = l + 16"
    using r by (intro unat_word32) auto
  then have brk: "brk ?v = l + 16" "lo ?v = l" "hi ?v = hi s"
    using v l by simp_all
  have "word_at u l = 0" "word_at u (l + 4) = tag (8, True)" "word_at u (l + 8) = tag (8, True)"
    "word_at u (l + 12) = tag (0, True)"
    using r d by (simp_all add: u_def word_at_put_word)
  then have w: "word_at ?v l = 0" "word_at ?v (l + 4) = tag (8, True)" "word_at ?v (l + 8) = tag (8, True)"
    "word_at ?v (l + 12) = tag (0, True)"
    by (simp_all only: v)
  have "arena_ok ?v"
    using r brk unfolding arena_ok_def by (auto simp: MAX_HEAP_val)
  then show "heap_tags ?v []"
    using w brk by (simp add: heap_tags_def prologue_def add.commute)
qed

lemma mm_init_refines:
  assumes ok: "arena_ok s" and empty: "brk s = lo s"
  shows "\<exists>u. mm_init s = Some (0, u) \<and> heap_rep u [(4096, False)]
    \<and> mem_start_brk u = mem_start_brk s \<and> mem_max_addr u = mem_max_addr s
    \<and> brk u = lo s + 4112 \<and> errno u = errno s
    \<and> same_bytes s u (lo s) (lo s + 4112)"
proof -
  let ?l = "lo s"
  note init = mm_init_tags [OF ok empty refl]
  define t where "t = s\<lparr>mem_brk := of_nat (?l + 16), heap_listp := of_nat ?l\<rparr>"
  define u where "u = put_word (?l + 12) (tag (0, True)) (put_word (?l + 8) (tag (8, True))
     (put_word (?l + 4) (tag (8, True)) (put_word ?l 0 t)))\<lparr>heap_listp := of_nat (?l + 8)\<rparr>"
  have u: "mem_start_brk u = mem_start_brk s" "mem_max_addr u = mem_max_addr s" "errno u = errno s"
    by (simp_all add: u_def t_def)
  have rep: "heap_tags u []"
    using init(2) by (simp add: u_def t_def)
  then have brk: "brk u = ?l + 16"
    using heap_tags_bounds(2) [of u "[]" "[]"] u by simp
  have room: "?l + 4112 \<le> hi s" "hi s < 2 ^ 32" "0 < ?l"
    using ok hi_less [of s] by (auto simp: arena_ok_def MAX_HEAP_val)
  have e: "words_size 512 = 4096" "merge_left [] 4096 = ([], 4096)"
    by (simp_all add: words_size_def merge_left_def)
  obtain v where v: "extend_heap (of_nat 512) u = Some (of_nat (?l + 16), v)"
    "heap_tags v [(4096, False)]"
    "changes_only (u\<lparr>mem_brk := of_nat (brk u + 4096)\<rparr>) v (?l + 12) (?l + 4112)"
    using extend_heap_refines [OF rep, of 512 4096 "[]" 4096] e brk room u
    by (auto simp: add.commute)
  have "(of_nat (?l + 16) :: addr) \<noteq> of_nat 0"
    using room by (subst of_nat_word32_eq) auto
  then have "mm_init s = Some (0, v)"
    using init(1) v(1) by (simp add: u_def t_def)
  moreover have "same_bytes s v ?l (?l + 4112)"
  proof -
    have "same_bytes s u ?l (?l + 4112)"
      using changes_only_same_bytes [OF init(3)]
      by (simp add: same_bytes_def byte_at_def u_def t_def)
    moreover have "same_bytes u v ?l (?l + 4112)"
      using changes_only_same_bytes [OF v(3)] by (simp add: same_bytes_def byte_at_def)
    ultimately show ?thesis
      by (rule same_bytes_trans)
  qed
  moreover have "mem_start_brk v = mem_start_brk s" "mem_max_addr v = mem_max_addr s" "errno v = errno s"
    using changes_only_regs [OF v(3)] u by simp_all
  moreover from this v(2) have "brk v = ?l + 4112"
    by (simp add: heap_tags_def)
  ultimately show ?thesis
    using v(2) by (auto simp: heap_rep_def)
qed

end
