(* ===== verification/Mm_Client.thy ===== *)
theory Mm_Client
  imports Mm_Alloc
begin

text \<open>
  \<open>mm_free\<close>, \<open>mm_malloc\<close> and \<open>mm_realloc\<close> against the specification on block lists, and
  what a caller may do in between: write into the payload of an allocated block.
\<close>

section \<open>\<open>mm_free\<close>\<close>

lemma mm_free_refines:
  assumes rep: "heap_rep s (xs @ (n, True) # ys)"
  shows "\<exists>u. mm_free (of_nat (block_addr s xs)) s = Some u
    \<and> heap_rep u (insert_free xs n ys)
    \<and> (\<exists>m. u = s\<lparr>mem_bytes := m\<rparr>)
    \<and> payloads_kept s u (set (live s (insert_free xs n ys)))"
proof -
  let ?a = "block_addr s xs" and ?b = "(n, False)"
  let ?s1 = "put_word (?a - 4) (tag ?b) s"
  let ?s2 = "put_word (?a + n - 8) (tag ?b) ?s1"
  have tags: "heap_tags s (xs @ (n, True) # ys)" and mid: "heap_tags s (xs @ [(n, True)] @ ys)"
    and co: "coalesced (xs @ (n, True) # ys)"
    using rep by (simp_all add: heap_rep_def)
  have n: "16 \<le> n" "8 dvd n"
    using tags by (auto simp: heap_tags_def)
  have h: "hdr s ?a (n, True)"
    using heap_tags_next(1) [OF tags, of "(n, True)"] by simp
  have h1: "hdr ?s1 ?a ?b"
    using h by (intro hdr_put_same) (auto simp: hdr_def)
  note b = stretch_bounds [OF mid refl]
  have p2: "PUT (of_nat (?a + n - 8)) (tag ?b) ?s1 = Some ?s2"
    by (rule PUT_nat [OF dvd4_footer]) (use b n in auto)
  note w = write_block [OF mid refl, of ?b ?s2, simplified]
  have w2: "heap_tags ?s2 (xs @ ?b # ys)" "changes_only s ?s2 (?a - 4) (?a + n - 4)"
    using w n by simp_all
  obtain zs m k us where l: "merge_left xs n = (zs, m)" and r: "merge_right m ys = (k, us)"
    and eq: "insert_free xs n ys = zs @ (k, False) # us"
    by (rule insert_freeE)
  obtain u where u: "coalesce (of_nat ?a) ?s2 = Some (of_nat (block_addr s zs), u)"
    "heap_tags u (zs @ (k, False) # us)"
    "changes_only ?s2 u (block_addr s zs - 4) (block_addr s zs + k - 4)"
    using coalesce_refines [OF w2(1) l r] by auto
  have "mm_free (of_nat ?a) s = Some u"
    using p2 u(1) hdr_reads(3) [OF h1] n
    by (simp add: mm_free_def hdr_reads(1) [OF h] PUT_hdr [OF h])
  moreover have "heap_rep u (insert_free xs n ys)"
    using u(2) co coalesced_insert_free [of xs ys n]
    by (simp add: heap_rep_def eq coalesced_append coalesced_Cons)
  moreover have ch: "changes_only s u (block_addr s zs - 4) (block_addr s zs + k - 4)"
  proof (rule changes_only_trans [OF changes_only_mono [OF w2(2)] u(3)])
    show "block_addr s zs - 4 \<le> ?a - 4" "?a + n - 4 \<le> block_addr s zs + k - 4"
      using merge_leftD(1,3) [OF l] merge_rightD(3) [OF r] by simp_all
  qed
  moreover have "payloads_kept s u (set (live s (zs @ [(k, False)] @ us)))"
    using payloads_kept_stretch [of u zs "[(k, False)]" us s u] u(2)
      changes_only_same_bytes [OF ch] changes_only_regs(1) [OF ch] by simp
  ultimately show ?thesis
    by (auto simp: eq changes_only_def)
qed

section \<open>\<open>mm_malloc\<close>\<close>

definition ptr :: "nat \<Rightarrow> nat option \<Rightarrow> addr" where
  "ptr a r = (case r of None \<Rightarrow> NULL | Some d \<Rightarrow> of_nat (a + d))"

lemma ptr_simps [simp]: "ptr a None = NULL" "ptr a (Some d) = of_nat (a + d)"
  by (simp_all add: ptr_def)

lemma adjust_size_nat:
  assumes "n + 15 < 2 ^ 32"
  shows "adjust_size (of_nat n) = of_nat (block_size n)"
proof -
  have le: "(of_nat n :: u32) \<le> DSIZE \<longleftrightarrow> n \<le> 8"
    using of_nat_word32_le [of n 8] assms by (simp add: DSIZE_def)
  have "(of_nat (n + 15) :: u32) div 8 = of_nat ((n + 15) div 8)"
    by (rule word_unat_eq_iff [THEN iffD2])
      (use assms in \<open>simp add: unat_div_distrib unat_word32\<close>)
  then have "DSIZE * ((of_nat n + DSIZE + (DSIZE - 1)) div DSIZE) = of_nat (8 * ((n + 15) div 8))"
    by (simp add: DSIZE_def of_nat_add add.commute)
  then show ?thesis
    by (simp add: adjust_size_def block_size_def le) (simp add: DSIZE_def)
qed

lemma max_chunk_nat:
  assumes "k < 2 ^ 32" "8 dvd k"
  shows "\<exists>w. MAX_macro (of_nat k) CHUNKSIZE div DSIZE = of_nat w \<and> 2 \<le> w \<and> w < 2 ^ 32
    \<and> words_size w = extend_size k"
proof (intro exI conjI)
  let ?w = "max k 4096 div 8"
  have c: "CHUNKSIZE = of_nat 4096"
    by (simp add: CHUNKSIZE_def)
  have "MAX_macro (of_nat k) CHUNKSIZE = of_nat (max k 4096)"
    using of_nat_word32_less [of 4096 k] assms(1) by (auto simp: MAX_macro_def c)
  moreover have "(of_nat (max k 4096) :: u32) div 8 = of_nat ?w"
    by (rule word_unat_eq_iff [THEN iffD2])
      (use assms in \<open>simp add: unat_div_distrib unat_word32\<close>)
  ultimately show "MAX_macro (of_nat k) CHUNKSIZE div DSIZE = of_nat ?w"
    by (simp add: DSIZE_def)
  show "2 \<le> ?w" "?w < 2 ^ 32"
    using assms by auto
  have "8 dvd max k 4096"
    using assms(2) by (simp add: max_def)
  then obtain j where j: "max k 4096 = 8 * j" ..
  have "words_size j = 16 * ((8 * j + 15) div 16)"
    by (cases "even j") (auto simp: words_size_def elim!: evenE oddE)
  then show "words_size ?w = extend_size k"
    by (simp only: extend_size_def j) simp
qed

text \<open>
  A request must be so small that neither the rounding nor the new break wraps around the
  end of the address space.
\<close>

definition no_wrap :: "mm \<Rightarrow> nat \<Rightarrow> bool" where
  "no_wrap s n \<longleftrightarrow> brk s + n + 4128 \<le> 2 ^ 32"

lemma of_nat_not_NULL: "0 < a \<Longrightarrow> a < 2 ^ 32 \<Longrightarrow> (of_nat a :: addr) \<noteq> NULL"
  using of_nat_word32_eq [of a 0] by simp

lemma mm_malloc_found:
  assumes rep: "heap_tags s (xs @ (m, False) # ys)" and n: "0 < n" "n < 2 ^ 32 - 15"
    and ff: "first_fit (block_size n) (xs @ (m, False) # ys) = Some (xs, m, ys)"
  shows "\<exists>u. mm_malloc (of_nat n) s = Some (of_nat (block_addr s xs), u)
    \<and> heap_tags u (xs @ place_blocks (block_size n) m @ ys)
    \<and> changes_only s u (block_addr s xs - 4) (block_addr s xs + m - 4)"
proof -
  let ?k = "block_size n" and ?a = "block_addr s xs"
  have k: "16 \<le> ?k" "8 dvd ?k" "?k \<le> m"
    using block_size_props first_fit_SomeD [OF ff] by simp_all
  have "heap_tags s (xs @ [(m, False)] @ ys)"
    using rep by simp
  note b = stretch_bounds [OF this refl]
  have "?k < 2 ^ 32"
    using b(2) k hi_less [of s] by simp
  from find_fit_refines [OF rep this] ff
  have ff': "find_fit (of_nat ?k) s = Some (of_nat ?a)"
    by simp
  have nn: "(of_nat ?a :: addr) \<noteq> NULL" "(of_nat n :: u32) \<noteq> 0"
    using b n hi_less [of s] by (intro of_nat_not_NULL; simp)+
  obtain u where "place (of_nat ?a) (of_nat ?k) s = Some u"
    and u: "heap_tags u (xs @ place_blocks ?k m @ ys)" "changes_only s u (?a - 4) (?a + m - 4)"
    using place_refines [OF rep refl k] by blast
  then have "mm_malloc (of_nat n) s = Some (of_nat ?a, u)"
    using nn n by (simp add: mm_malloc_def adjust_size_nat ff' Let_def)
  with u show ?thesis
    by blast
qed

lemma mm_malloc_not_found:
  assumes rep: "heap_tags s bs" and n: "0 < n" "n < 2 ^ 32 - 15"
    and ff: "first_fit (block_size n) bs = None"
  obtains w where "2 \<le> w" "w < 2 ^ 32" "words_size w = extend_size (block_size n)"
    "mm_malloc (of_nat n) s = do {
       (bp, s) \<leftarrow> extend_heap (of_nat w) s;
       if bp = NULL then Some (NULL, s)
       else do { s \<leftarrow> place bp (of_nat (block_size n)) s; Some (bp, s) } }"
proof -
  have k: "block_size n < 2 ^ 32"
    using block_size_props(4) [of n] n by linarith
  obtain w where w: "MAX_macro (of_nat (block_size n)) CHUNKSIZE div DSIZE = of_nat w" "2 \<le> w" "w < 2 ^ 32"
    "words_size w = extend_size (block_size n)"
    using max_chunk_nat [OF k block_size_props(2)] by blast
  have "(of_nat n :: u32) \<noteq> 0"
    using n by (intro of_nat_not_NULL) auto
  moreover have "find_fit (of_nat (block_size n)) s = Some NULL"
    using find_fit_refines [OF rep k] ff by simp
  ultimately show ?thesis
    using n w by (intro that [of w]) (simp_all add: mm_malloc_def adjust_size_nat Let_def)
qed

lemma mm_malloc_extended:
  assumes rep: "heap_tags s bs" and n: "0 < n" "n < 2 ^ 32 - 15"
    and ff: "first_fit (block_size n) bs = None"
    and e: "e = extend_size (block_size n)" "brk s + e \<le> hi s" and l: "merge_left bs e = (xs, m)"
  shows "\<exists>u. mm_malloc (of_nat n) s = Some (of_nat (block_addr s xs), u)
    \<and> heap_tags u (xs @ place_blocks (block_size n) m)
    \<and> changes_only (s\<lparr>mem_brk := of_nat (brk s + e)\<rparr>) u (block_addr s xs - 4) (brk s + e)"
proof -
  let ?k = "block_size n" and ?a = "block_addr s xs"
  obtain w where w: "2 \<le> w" "w < 2 ^ 32" "words_size w = extend_size ?k"
    and run: "mm_malloc (of_nat n) s = do {
       (bp, s) \<leftarrow> extend_heap (of_nat w) s;
       if bp = NULL then Some (NULL, s)
       else do { s \<leftarrow> place bp (of_nat ?k) s; Some (bp, s) } }"
    by (rule mm_malloc_not_found [OF rep n ff])
  obtain u where u: "extend_heap (of_nat w) s = Some (of_nat ?a, u)" "heap_tags u (xs @ [(m, False)])"
    "changes_only (s\<lparr>mem_brk := of_nat (brk s + e)\<rparr>) u (?a - 4) (brk s + e)"
    using extend_heap_refines [OF rep w(1,2) e(1) [folded w(3)] e(2) l] by blast
  have regs: "mem_start_brk u = mem_start_brk s"
    using changes_only_regs(1) [OF u(3)] by simp
  have brk: "brk s = block_addr s bs"
    using heap_tags_bounds(2) [of s bs "[]"] rep by simp
  have am: "?a + m = brk s + e" "?k \<le> m"
    using merge_leftD(1,3) [OF l] brk extend_size_props(2) [of ?k] e(1) by simp_all
  have "(of_nat ?a :: addr) \<noteq> NULL"
    using am e(2) hi_less [of s] by (intro of_nat_not_NULL) linarith+
  moreover obtain v where v: "place (of_nat ?a) (of_nat ?k) u = Some v"
    "heap_tags v (xs @ place_blocks ?k m)" "changes_only u v (?a - 4) (?a + m - 4)"
    using place_refines [of u xs m "[]" ?a ?k] u(2) regs block_size_props am(2) by auto
  ultimately have "mm_malloc (of_nat n) s = Some (of_nat ?a, v)"
    using u(1) by (simp add: run)
  moreover have "changes_only (s\<lparr>mem_brk := of_nat (brk s + e)\<rparr>) v (?a - 4) (brk s + e)"
    by (rule changes_only_trans [OF u(3) changes_only_mono [OF v(3)]]) (use am in auto)
  ultimately show ?thesis
    using v(2) by blast
qed

lemma no_wrapD:
  assumes "no_wrap s n"
  shows "n < 2 ^ 32 - 15" "brk s + extend_size (block_size n) < 2 ^ 32"
  using assms block_size_props(4) [of n] extend_size_props(4) [of "block_size n"]
  by (simp_all add: no_wrap_def)

lemma same_bytes_brk: "same_bytes (s\<lparr>mem_brk := b\<rparr>) u l h = same_bytes s u l h"
  by (simp add: same_bytes_def byte_at_def)

lemma heap_rep_errno: "heap_rep (s\<lparr>errno := e\<rparr>) bs \<longleftrightarrow> heap_rep s bs"
proof -
  have "word_at (s\<lparr>errno := e\<rparr>) q = word_at s q" "blocks_at (s\<lparr>errno := e\<rparr>) q cs = blocks_at s q cs" for q cs
    by (rule word_at_bytes blocks_at_bytes, simp)+
  then show ?thesis
    by (simp add: heap_rep_def heap_tags_def arena_ok_def del: blocks_at.simps)
qed

text \<open>The three ways a call of \<open>mm_malloc\<close> ends: a fit, an extended heap, no memory.\<close>

lemma mm_malloc_fit:
  assumes rep: "heap_rep s bs" and n: "0 < n" "no_wrap s n"
    and ff: "first_fit (block_size n) bs = Some (xs, m, ys)"
  defines "bs' \<equiv> xs @ place_blocks (block_size n) m @ ys"
  shows "\<exists>u. mm_malloc (of_nat n) s = Some (of_nat (block_addr s xs), u) \<and> heap_tags u bs'
    \<and> mem_start_brk u = mem_start_brk s \<and> mem_max_addr u = mem_max_addr s
    \<and> payloads_kept s u (set (live s bs))"
proof -
  have tags: "heap_tags s bs"
    using rep by (simp add: heap_rep_def)
  have bs: "bs = xs @ (m, False) # ys"
    using first_fit_SomeD [OF ff] by simp
  obtain u where u: "mm_malloc (of_nat n) s = Some (of_nat (block_addr s xs), u)" "heap_tags u bs'"
    "changes_only s u (block_addr s xs - 4) (block_addr s xs + m - 4)"
    using mm_malloc_found [of s xs m ys n] tags n(1) no_wrapD(1) [OF n(2)] ff
    unfolding bs'_def by (auto simp: bs)
  have "payloads_kept s u (set (live s (xs @ [(m, False)] @ ys)))"
    by (rule payloads_kept_stretch) (use tags changes_only_same_bytes [OF u(3)] bs in auto)
  with u bs changes_only_regs [OF u(3)] show ?thesis
    by auto
qed

lemma mm_malloc_extends:
  assumes rep: "heap_rep s bs" and n: "0 < n" "no_wrap s n" and ff: "first_fit (block_size n) bs = None"
    and fits: "brk s + extend_size (block_size n) \<le> hi s"
    and l: "merge_left bs (extend_size (block_size n)) = (xs, m)"
  defines "bs' \<equiv> xs @ place_blocks (block_size n) m"
  shows "\<exists>u. mm_malloc (of_nat n) s = Some (of_nat (block_addr s xs), u) \<and> heap_tags u bs'
    \<and> mem_start_brk u = mem_start_brk s \<and> mem_max_addr u = mem_max_addr s
    \<and> payloads_kept s u (set (live s bs))"
proof -
  let ?e = "extend_size (block_size n)"
  have tags: "heap_tags s bs"
    using rep by (simp add: heap_rep_def)
  have brk: "brk s = block_addr s bs"
    using heap_tags_bounds(2) [of s bs "[]"] tags by simp
  obtain u where u: "mm_malloc (of_nat n) s = Some (of_nat (block_addr s xs), u)" "heap_tags u bs'"
    "changes_only (s\<lparr>mem_brk := of_nat (brk s + ?e)\<rparr>) u (block_addr s xs - 4) (brk s + ?e)"
    using mm_malloc_extended [OF tags n(1) no_wrapD(1) [OF n(2)] ff refl fits l]
    unfolding bs'_def by blast
  have "payloads_kept s u (set (live s bs))"
  proof (rule payloads_kept_outside)
    show "same_bytes s u (block_addr s xs - 4) (brk s + ?e)"
      using changes_only_same_bytes [OF u(3)] by (simp add: same_bytes_brk)
    fix p q
    assume "(p, q) \<in> set (live s bs)"
    then have "(p, q) \<in> set (live s xs)"
      using merge_leftD(2) [OF l] by simp
    from allocs_range [OF this] brk merge_leftD(1,3) [OF l] fits hi_less [of s]
    show "(p + q \<le> block_addr s xs - 4 + 8 \<or> brk s + ?e \<le> p) \<and> p + q \<le> 2 ^ 32"
      by auto
  qed
  with u changes_only_regs [OF u(3)] show ?thesis
    by auto
qed

lemma mm_malloc_refused:
  assumes rep: "heap_rep s bs" and n: "0 < n" "no_wrap s n" and ff: "first_fit (block_size n) bs = None"
    and full: "\<not> brk s + extend_size (block_size n) \<le> hi s"
  shows "mm_malloc (of_nat n) s = Some (NULL, s\<lparr>errno := ENOMEM\<rparr>)"
proof -
  let ?k = "block_size n"
  have tags: "heap_tags s bs" and ok: "arena_ok s"
    using rep by (auto simp: heap_rep_def heap_tags_def)
  note nw = no_wrapD [OF n(2)]
  obtain w where w: "2 \<le> w" "w < 2 ^ 32" "words_size w = extend_size ?k"
    and run: "mm_malloc (of_nat n) s = do {
       (bp, s) \<leftarrow> extend_heap (of_nat w) s;
       if bp = NULL then Some (NULL, s)
       else do { s \<leftarrow> place bp (of_nat ?k) s; Some (bp, s) } }"
    by (rule mm_malloc_not_found [OF tags n(1) nw(1) ff])
  have "extend_heap (of_nat w) s = Some (NULL, s\<lparr>errno := ENOMEM\<rparr>)"
    by (rule extend_heap_fails) (use ok w nw full in auto)
  then show ?thesis
    by (simp add: run)
qed

lemma mm_malloc_refines:
  assumes rep: "heap_rep s bs" and n: "0 < n" "no_wrap s n"
    and spec: "spec_malloc (hi s - brk s) n bs = (r, bs')"
  shows "\<exists>u. mm_malloc (of_nat n) s = Some (ptr (lo s + 16) r, u)
    \<and> heap_rep u bs'
    \<and> mem_start_brk u = mem_start_brk s \<and> mem_max_addr u = mem_max_addr s
    \<and> payloads_kept s u (set (live s bs))
    \<and> (r = None \<longrightarrow> u = s\<lparr>errno := ENOMEM\<rparr>)"
proof -
  let ?k = "block_size n" and ?e = "extend_size (block_size n)"
  have ok: "arena_ok s" and co': "coalesced bs'"
    using rep spec_malloc_wf [OF spec] by (auto simp: heap_rep_def heap_tags_def)
  consider (fit) xs m ys where "first_fit ?k bs = Some (xs, m, ys)"
    | (extend) xs m where "first_fit ?k bs = None" "brk s + ?e \<le> hi s" "merge_left bs ?e = (xs, m)"
    | (full) "first_fit ?k bs = None" "\<not> brk s + ?e \<le> hi s"
    by (cases "first_fit ?k bs"; cases "merge_left bs ?e") auto
  then show ?thesis
  proof cases
    case fit
    with spec have "r = Some (total xs)" "bs' = xs @ place_blocks ?k m @ ys"
      by (simp_all add: spec_malloc_def alloc_fit_def Let_def)
    with mm_malloc_fit [OF rep n fit] co' show ?thesis
      by (auto simp: heap_rep_def)
  next
    case extend
    then have "?e \<le> hi s - brk s"
      by linarith
    with spec extend have "r = Some (total xs)" "bs' = xs @ place_blocks ?k m"
      by (simp_all add: spec_malloc_def alloc_fit_def alloc_extend_def Let_def)
    with mm_malloc_extends [OF rep n extend] co' show ?thesis
      by (auto simp: heap_rep_def)
  next
    case full
    with ok have "\<not> ?e \<le> hi s - brk s"
      unfolding arena_ok_def by linarith
    with spec full have "r = None" "bs' = bs"
      by (simp_all add: spec_malloc_def alloc_fit_def Let_def)
    with mm_malloc_refused [OF rep n full] rep show ?thesis
      by (simp add: heap_rep_errno payloads_kept_def byte_at_def)
  qed
qed

section \<open>Writing into payloads\<close>

lemma live_bounds:
  assumes "heap_rep s bs" "(p, n) \<in> set (live s bs)"
  shows "lo s + 16 \<le> p" "p + n \<le> brk s" "p + n \<le> hi s" "8 dvd p" "16 \<le> n" "8 dvd n"
    "p + n < 2 ^ 32"
proof -
  have tags: "heap_tags s (bs @ [])"
    using assms(1) by (simp add: heap_rep_def)
  then have ok: "sizes_ok bs"
    by (simp add: heap_tags_def)
  note b = heap_tags_bounds [OF tags]
  show "lo s + 16 \<le> p" "p + n \<le> brk s" "p + n \<le> hi s" "p + n < 2 ^ 32"
    using allocs_range [OF assms(2)] b hi_less [of s] by auto
  show "8 dvd p" "16 \<le> n" "8 dvd n"
    using allocs_dvd [OF ok _ assms(2)] b(6) by (simp_all add: dvd_add)
qed

text \<open>A write inside the payload of an allocated block leaves the representation alone.\<close>

lemma heap_rep_payload:
  assumes rep: "heap_rep s bs" and live: "(p, n) \<in> set (live s bs)"
    and ch: "changes_only s s' p (p + n - 8)"
  shows "heap_rep s' bs"
proof (rule allocs_split [OF live])
  fix xs ys
  assume bs: "bs = xs @ (n, True) # ys" and p: "p = lo s + 16 + total xs"
  have mid: "heap_tags s (xs @ [(n, True)] @ ys)"
    using rep by (simp add: heap_rep_def bs)
  note b = live_bounds [OF rep live]
  have "word_at s' (p - 4) = word_at s (p - 4)" "word_at s' (p + n - 8) = word_at s (p + n - 8)"
    using b by (auto intro!: changes_only_word [OF ch])
  moreover have "hdr s p (n, True)" "ftr s (p + n) (n, True)"
    using heap_tags_next [of s xs "(n, True) # ys" "(n, True)"] mid p by simp_all
  ultimately have "blocks_at s' p [(n, True)]"
    by (simp add: hdr_def ftr_def)
  then have "heap_tags s' (xs @ [(n, True)] @ ys)"
    by (intro heap_tags_splice [OF mid p])
      (use b in \<open>auto intro: changes_only_mono [OF ch]\<close>)
  with rep show ?thesis
    by (simp add: heap_rep_def bs)
qed

lemma live_disjoint:
  assumes "heap_rep s bs" "(p, n) \<in> set (live s bs)" "(q, m) \<in> set (live s bs)" "(p, n) \<noteq> (q, m)"
  shows "p + n \<le> q \<or> q + m \<le> p"
  using allocs_disjoint [OF assms(2,3)] assms(4) by auto

lemma payload_write_kept:
  assumes "heap_rep s bs" "(p, n) \<in> set (live s bs)" "changes_only s s' p (p + n - 8)"
  shows "payloads_kept s s' (set (live s bs) - {(p, n)})"
proof (rule payloads_kept_outside [OF changes_only_same_bytes [OF assms(3)]])
  fix q m
  assume q: "(q, m) \<in> set (live s bs) - {(p, n)}"
  then have "p + n \<le> q \<or> q + m \<le> p"
    by (intro live_disjoint [OF assms(1,2)]) auto
  then show "(q + m \<le> p + 8 \<or> p + n - 8 \<le> q) \<and> q + m \<le> 2 ^ 32"
    using live_bounds(7) [OF assms(1), of q m] q by auto
qed

text \<open>Copying from the payload of one allocated block into that of another.\<close>

lemma memcpy_live:
  assumes rep: "heap_rep s bs" and pm: "(p, m) \<in> set (live s bs)" and qk: "(q, k) \<in> set (live s bs)"
    and ne: "(q, k) \<noteq> (p, m)" and c: "c \<le> m - 8" "c \<le> k - 8"
  shows "\<exists>v. memcpy (of_nat q) (of_nat p) (of_nat c) s = Some v
    \<and> changes_only s v q (q + k - 8) \<and> (\<forall>i < c. byte_at v (q + i) = byte_at s (p + i))"
proof -
  note bp = live_bounds [OF rep pm] and bq = live_bounds [OF rep qk]
  have "q + c \<le> p \<or> p + c \<le> q"
    using live_disjoint [OF rep qk pm ne] c by auto
  moreover have "q + c \<le> hi s" "p + c \<le> hi s" "lo s \<le> q" "lo s \<le> p"
    using bp bq c by auto
  ultimately obtain v where v: "memcpy (of_nat q) (of_nat p) (of_nat c) s = Some v"
    "changes_only s v q (q + c)" "\<forall>i < c. byte_at v (q + i) = byte_at s (p + i)"
    using memcpy_nat [of s q c p] by blast
  moreover have "changes_only s v q (q + k - 8)"
    by (rule changes_only_mono [OF v(2)]) (use c bq in auto)
  ultimately show ?thesis
    by blast
qed

lemma mm_free_live:
  assumes rep: "heap_rep s bs" and live: "(p, n) \<in> set (live s bs)"
  shows "\<exists>u. mm_free (of_nat p) s = Some u
    \<and> heap_rep u (free_block (p - (lo s + 16)) bs)
    \<and> set (live u (free_block (p - (lo s + 16)) bs)) = set (live s bs) - {(p, n)}
    \<and> (\<exists>m. u = s\<lparr>mem_bytes := m\<rparr>)
    \<and> payloads_kept s u (set (live s bs) - {(p, n)})"
proof -
  have "sizes_ok bs"
    using rep by (simp add: heap_rep_def heap_tags_def)
  then obtain xs ys where bs: "bs = xs @ (n, True) # ys" and p: "p = lo s + 16 + total xs"
    and eq: "free_block (p - (lo s + 16)) bs = insert_free xs n ys"
    and set: "set (live s (free_block (p - (lo s + 16)) bs)) = set (live s bs) - {(p, n)}"
    by (rule free_block_allocs [OF _ live])
  obtain u where u: "mm_free (of_nat (block_addr s xs)) s = Some u"
    "heap_rep u (insert_free xs n ys)" "\<exists>m. u = s\<lparr>mem_bytes := m\<rparr>"
    "payloads_kept s u (set (live s (insert_free xs n ys)))"
    using mm_free_refines [of s xs n ys] rep bs by blast
  moreover from u(3) have "mem_start_brk u = mem_start_brk s"
    by auto
  ultimately show ?thesis
    using set by (simp add: eq p [symmetric])
qed

section \<open>A successful \<open>mm_malloc\<close>, seen from the caller\<close>

lemma mm_malloc_live:
  assumes rep: "heap_rep s bs" and n: "0 < n" "no_wrap s n"
    and spec: "spec_malloc (hi s - brk s) n bs = (Some d, bs')"
  shows "\<exists>u m. mm_malloc (of_nat n) s = Some (of_nat (lo s + 16 + d), u) \<and> heap_rep u bs'
    \<and> mem_start_brk u = mem_start_brk s \<and> mem_max_addr u = mem_max_addr s
    \<and> n + 8 \<le> m \<and> set (live u bs') = insert (lo s + 16 + d, m) (set (live s bs))
    \<and> (lo s + 16 + d, m) \<notin> set (live s bs)
    \<and> payloads_kept s u (set (live s bs))"
proof -
  let ?p = "lo s + 16 + d"
  obtain u where u: "mm_malloc (of_nat n) s = Some (of_nat ?p, u)" "heap_rep u bs'"
    "mem_start_brk u = mem_start_brk s" "mem_max_addr u = mem_max_addr s"
    "payloads_kept s u (set (live s bs))"
    using mm_malloc_refines [OF rep n spec] by auto
  obtain m us vs where m: "block_size n \<le> m" and lv: "live s bs = us @ vs" "live s bs' = us @ (?p, m) # vs"
    using spec_malloc_allocs [OF spec, of "lo s + 16"] by auto
  have "distinct (live s bs')"
  proof -
    have "sizes_ok bs'"
      using u(2) by (simp add: heap_rep_def heap_tags_def)
    then show ?thesis
      by (rule allocs_distinct)
  qed
  with u m lv block_size_props(3) [of n] show ?thesis
    by (intro exI [of _ u] exI [of _ m]) auto
qed

section \<open>\<open>mm_realloc\<close>\<close>

text \<open>\<open>mm_realloc\<close> composed from its three calls, once each of them is known to return.\<close>

lemma mm_realloc_run:
  assumes n: "0 < n" "n < 2 ^ 32 - 15"
    and t: "mm_malloc (of_nat n) s = Some (of_nat q, t)" "heap_rep t bs"
      "(p, m) \<in> set (live t bs)" "(q, k) \<in> set (live t bs)"
    and v: "memcpy (of_nat q) (of_nat p) (of_nat (min n (m - 8))) t = Some v"
    and u: "mm_free (of_nat p) v = Some u"
  shows "mm_realloc (of_nat p) (of_nat n) s = Some (of_nat q, u)"
proof -
  note bp = live_bounds [OF t(2,3)] and bq = live_bounds [OF t(2,4)]
  have nz: "(of_nat n :: u32) \<noteq> 0" "(of_nat p :: addr) \<noteq> NULL" "(of_nat q :: addr) \<noteq> NULL"
    using n bp bq by (intro of_nat_not_NULL; simp)+
  have "hdr t p (m, True)"
  proof (rule allocs_split [OF t(3)])
    fix xs ys
    assume "bs = xs @ (m, True) # ys" "p = lo t + 16 + total xs"
    with t(2) heap_tags_next(1) [of t xs "(m, True) # ys" "(m, True)"] show ?thesis
      by (simp add: heap_rep_def)
  qed
  note rd = hdr_reads(1) [OF this]
  have "(of_nat m :: u32) - DSIZE = of_nat (m - 8)"
    using bp by (simp add: minus_DSIZE)
  moreover have "(of_nat n :: u32) < of_nat (m - 8) \<longleftrightarrow> n < m - 8"
    using n bp by (intro of_nat_word32_less) auto
  ultimately show ?thesis
    using nz rd t(1) v u by (auto simp: mm_realloc_def Let_def min_def split: if_splits)
qed

text \<open>The old block moves to the new place, its bytes with it; then the old place is freed.\<close>

lemma mm_realloc_refines:
  assumes rep: "heap_rep s bs" and live: "(p, m) \<in> set (live s bs)" and n: "0 < n" "no_wrap s n"
    and spec: "spec_malloc (hi s - brk s) n bs = (Some d, bs1)"
  defines "q \<equiv> lo s + 16 + d" and "bs' \<equiv> free_block (p - (lo s + 16)) bs1"
  shows "\<exists>u k. mm_realloc (of_nat p) (of_nat n) s = Some (of_nat q, u) \<and> heap_rep u bs'
    \<and> mem_start_brk u = mem_start_brk s \<and> mem_max_addr u = mem_max_addr s
    \<and> n + 8 \<le> k \<and> set (live u bs') = insert (q, k) (set (live s bs) - {(p, m)})
    \<and> (q, k) \<notin> set (live s bs)
    \<and> payloads_kept s u (set (live s bs) - {(p, m)})
    \<and> (\<forall>i < min n (m - 8). byte_at u (q + i) = byte_at s (p + i))"
proof -
  obtain t k where t: "mm_malloc (of_nat n) s = Some (of_nat q, t)" "heap_rep t bs1"
    "mem_start_brk t = mem_start_brk s" "mem_max_addr t = mem_max_addr s"
    and k: "n + 8 \<le> k" and lv: "set (live t bs1) = insert (q, k) (set (live s bs))"
    and new: "(q, k) \<notin> set (live s bs)" and kept: "payloads_kept s t (set (live s bs))"
    using mm_malloc_live [OF rep n spec] unfolding q_def by blast
  have pm: "(p, m) \<in> set (live t bs1)" and qk: "(q, k) \<in> set (live t bs1)" and ne: "(q, k) \<noteq> (p, m)"
    using lv live new by auto
  let ?c = "min n (m - 8)"
  obtain v where v: "memcpy (of_nat q) (of_nat p) (of_nat ?c) t = Some v"
    "changes_only t v q (q + k - 8)" "\<forall>i < ?c. byte_at v (q + i) = byte_at t (p + i)"
    using memcpy_live [OF t(2) pm qk ne min.cobounded2, of n] k by (auto simp: min.coboundedI1)
  have vrep: "heap_rep v bs1"
    by (rule heap_rep_payload [OF t(2) qk v(2)])
  have vregs: "mem_start_brk v = mem_start_brk s" "mem_max_addr v = mem_max_addr s"
    using changes_only_regs [OF v(2)] t by simp_all
  obtain u where u: "mm_free (of_nat p) v = Some u" "heap_rep u bs'"
    "set (live u bs') = set (live v bs1) - {(p, m)}" "\<exists>x. u = v\<lparr>mem_bytes := x\<rparr>"
    "payloads_kept v u (set (live v bs1) - {(p, m)})"
    using mm_free_live [OF vrep, of p m] pm vregs t unfolding bs'_def by auto
  have "set (live u bs') = insert (q, k) (set (live s bs) - {(p, m)})"
    using u(3) lv ne vregs t by auto
  moreover have "payloads_kept s u (set (live s bs) - {(p, m)})"
  proof -
    have "payloads_kept t v (set (live s bs) - {(p, m)})"
      by (rule payloads_kept_mono [OF payload_write_kept [OF t(2) qk v(2)]]) (use lv new in auto)
    moreover have "payloads_kept v u (set (live s bs) - {(p, m)})"
      by (rule payloads_kept_mono [OF u(5)]) (use lv vregs t in auto)
    ultimately show ?thesis
      using payloads_kept_mono [OF kept] by (blast intro: payloads_kept_trans)
  qed
  moreover have "byte_at u (q + i) = byte_at s (p + i)" if i: "i < ?c" for i
  proof -
    have "byte_at u (q + i) = byte_at v (q + i)"
      by (rule payloads_keptD [OF u(5), of q k]) (use i k qk ne vregs t in auto)
    moreover have "byte_at t (p + i) = byte_at s (p + i)"
      by (rule payloads_keptD [OF kept live]) (use i in simp)
    ultimately show ?thesis
      using v(3) i by simp
  qed
  moreover have "mem_start_brk u = mem_start_brk s" "mem_max_addr u = mem_max_addr s"
    using u(4) vregs by auto
  ultimately show ?thesis
    using mm_realloc_run [OF n(1) no_wrapD(1) [OF n(2)] t(1,2) pm qk v(1) u(1)] u(2) k new by blast
qed

text \<open>When no new block is found the old one stays as it is.\<close>

lemma mm_realloc_fails:
  assumes rep: "heap_rep s bs" and p: "0 < p" "p < 2 ^ 32" and n: "0 < n" "no_wrap s n"
    and spec: "spec_malloc (hi s - brk s) n bs = (None, bs1)"
  shows "mm_realloc (of_nat p) (of_nat n) s = Some (NULL, s\<lparr>errno := ENOMEM\<rparr>)"
proof -
  have "mm_malloc (of_nat n) s = Some (NULL, s\<lparr>errno := ENOMEM\<rparr>)"
    using mm_malloc_refines [OF rep n spec] by auto
  moreover have "(of_nat n :: u32) \<noteq> 0" "(of_nat p :: addr) \<noteq> NULL"
    using n(1) no_wrapD(1) [OF n(2)] p by (intro of_nat_not_NULL; simp)+
  ultimately show ?thesis
    by (simp add: mm_realloc_def Let_def)
qed

end
