(* ===== verification/Package.thy ===== *)
theory Package
  imports Memlib
begin

text \<open>
  \<open>mm.h\<close>: the interface between the driver and a malloc package. The package is a record
  of the four functions the header declares, over a state that extends the memory
  system's. The locale states what the driver relies on: the contract of an allocator, with
  a predicate \<open>rep\<close> that relates the state to the set of payloads handed out, each with its
  address and its capacity in bytes. Its extension \<open>exact_package\<close> is the contract of a
  package that puts every block where a specification of its heap says.
\<close>

section \<open>The four functions of \<open>mm.h\<close>\<close>

text \<open>\<open>None\<close>: the call has no defined result.\<close>

record 'a package =
  pk_init :: "'a mem_scheme \<Rightarrow> (int \<times> 'a mem_scheme) option"
  pk_malloc :: "u32 \<Rightarrow> 'a mem_scheme \<Rightarrow> (addr \<times> 'a mem_scheme) option"
  pk_free :: "addr \<Rightarrow> 'a mem_scheme \<Rightarrow> 'a mem_scheme option"
  pk_realloc :: "addr \<Rightarrow> u32 \<Rightarrow> 'a mem_scheme \<Rightarrow> (addr \<times> 'a mem_scheme) option"

section \<open>Contents of payloads\<close>

text \<open>Every byte of the payloads in \<open>A\<close> is the same in both states.\<close>

definition kept :: "'a mem_scheme \<Rightarrow> 'a mem_scheme \<Rightarrow> (nat \<times> nat) set \<Rightarrow> bool" where
  "kept s s' A \<longleftrightarrow> (\<forall>(p, c) \<in> A. \<forall>i < c. byte_at s' (p + i) = byte_at s (p + i))"

lemma keptD: "kept s s' A \<Longrightarrow> (p, c) \<in> A \<Longrightarrow> i < c \<Longrightarrow> byte_at s' (p + i) = byte_at s (p + i)"
  by (auto simp: kept_def)

lemma kept_refl [simp]: "kept s s A"
  by (simp add: kept_def)

lemma kept_trans: "kept s t A \<Longrightarrow> kept t u A \<Longrightarrow> kept s u A"
  by (fastforce simp: kept_def)

lemma kept_mono: "kept s t A \<Longrightarrow> B \<subseteq> A \<Longrightarrow> kept s t B"
  by (auto simp: kept_def)

text \<open>The storage is the same, and the break has moved up by at most \<open>n\<close>.\<close>

definition grows :: "'a mem_scheme \<Rightarrow> 'a mem_scheme \<Rightarrow> nat \<Rightarrow> bool" where
  "grows s s' n \<longleftrightarrow>
     mem_start_brk s' = mem_start_brk s \<and> mem_max_addr s' = mem_max_addr s
     \<and> brk s \<le> brk s' \<and> brk s' \<le> brk s + n"

lemma growsD:
  assumes "grows s s' n"
  shows "mem_start_brk s' = mem_start_brk s" "mem_max_addr s' = mem_max_addr s"
    "brk s \<le> brk s'" "brk s' \<le> brk s + n"
  using assms by (simp_all add: grows_def)

lemma grows_refl [simp]: "grows s s n"
  by (simp add: grows_def)

lemma grows_trans: "grows s t m \<Longrightarrow> grows t u n \<Longrightarrow> grows s u (m + n)"
  by (simp add: grows_def)

lemma changes_only_grows: "changes_only s s' l h \<Longrightarrow> grows s s' n"
  by (simp add: grows_def changes_only_regs)

section \<open>The contract\<close>

locale malloc_package =
  fixes pk :: "'a package"
    and rep :: "'a mem_scheme \<Rightarrow> (nat \<times> nat) set \<Rightarrow> bool"
    and limit :: nat
    and slack :: nat
  assumes rep_arena: "rep s A \<Longrightarrow> arena_ok s"
    and rep_inside: "rep s A \<Longrightarrow> (p, c) \<in> A \<Longrightarrow> lo s \<le> p \<and> p + c \<le> brk s \<and> 8 dvd p \<and> 0 < c"
    and rep_apart: "rep s A \<Longrightarrow> (p, c) \<in> A \<Longrightarrow> (q, e) \<in> A \<Longrightarrow>
      (p, c) = (q, e) \<or> p + c \<le> q \<or> q + e \<le> p"
    and rep_write: "rep s A \<Longrightarrow> (p, c) \<in> A \<Longrightarrow> changes_only s s' p (p + c) \<Longrightarrow> rep s' A"
    and init_law: "arena_ok s \<Longrightarrow> brk s = lo s \<Longrightarrow> hi s + limit + slack \<le> 2 ^ 32 \<Longrightarrow>
      \<exists>u. pk_init pk s = Some (0, u) \<and> rep u {} \<and> grows s u slack"
    and malloc_law: "rep s A \<Longrightarrow> 0 < n \<Longrightarrow> n \<le> limit \<Longrightarrow>
      (\<exists>u. pk_malloc pk (of_nat n) s = Some (NULL, u) \<and> rep u A \<and> grows s u 0 \<and> kept s u A
         \<and> hi s < brk s + n + slack)
      \<or> (\<exists>p c u. pk_malloc pk (of_nat n) s = Some (of_nat p, u) \<and> n \<le> c
         \<and> (p, c) \<notin> A \<and> rep u (insert (p, c) A) \<and> grows s u (n + slack) \<and> kept s u A)"
    and free_law: "rep s A \<Longrightarrow> (p, c) \<in> A \<Longrightarrow>
      \<exists>u. pk_free pk (of_nat p) s = Some u \<and> rep u (A - {(p, c)}) \<and> grows s u 0
         \<and> kept s u (A - {(p, c)})"
    and realloc_law: "rep s A \<Longrightarrow> (p, c) \<in> A \<Longrightarrow> 0 < n \<Longrightarrow> n \<le> limit \<Longrightarrow>
      (\<exists>u. pk_realloc pk (of_nat p) (of_nat n) s = Some (NULL, u) \<and> rep u A \<and> grows s u 0
         \<and> kept s u A \<and> hi s < brk s + n + slack)
      \<or> (\<exists>q e u. pk_realloc pk (of_nat p) (of_nat n) s = Some (of_nat q, u) \<and> n \<le> e
         \<and> (q, e) \<notin> A - {(p, c)} \<and> rep u (insert (q, e) (A - {(p, c)})) \<and> grows s u (n + slack)
         \<and> kept s u (A - {(p, c)})
         \<and> (\<forall>i < min n c. byte_at u (q + i) = byte_at s (p + i)))"
begin

lemma rep_bounds:
  assumes "rep s A" "(p, c) \<in> A"
  shows "0 < p" "p + c \<le> hi s" "p + c < 2 ^ 32" "p < 2 ^ 32"
  using rep_arena [OF assms(1)] rep_inside [OF assms] hi_less [of s]
  unfolding arena_ok_def by auto

lemma rep_address_unique:
  assumes "rep s A" "(p, c) \<in> A" "(p, e) \<in> A"
  shows "c = e"
  using rep_apart [OF assms] rep_inside [OF assms(1,2)] rep_inside [OF assms(1,3)] by auto

lemma rep_fresh:
  assumes "rep u (insert (p, c) A)" "(p, c) \<notin> A"
  shows "(p, e) \<notin> A"
  using rep_address_unique [OF assms(1), of p c e] assms(2) by auto

lemma rep_unat: "rep s A \<Longrightarrow> (p, c) \<in> A \<Longrightarrow> unat (of_nat p :: addr) = p"
  by (intro unat_word32) (rule rep_bounds)

lemma rep_not_NULL:
  assumes "rep s (insert (p, c) A)"
  shows "(of_nat p :: addr) \<noteq> NULL"
  using rep_bounds [OF assms, of p c] of_nat_word32_eq [of p 0] by simp

text \<open>The laws, read from the result of a call.\<close>

lemma malloc_failed:
  assumes "rep s A" "0 < n" "n \<le> limit" "pk_malloc pk (of_nat n) s = Some (NULL, u)"
  shows "rep u A" "kept s u A" "grows s u 0" "hi s < brk s + n + slack"
  using malloc_law [OF assms(1-3)] rep_not_NULL assms(4) by auto

lemma malloc_gave:
  assumes "rep s A" "0 < n" "n \<le> limit" "pk_malloc pk (of_nat n) s = Some (p, u)" "p \<noteq> NULL"
  obtains c where "n \<le> c" "(unat p, c) \<notin> A" "rep u (insert (unat p, c) A)" "kept s u A" "grows s u (n + slack)"
proof -
  from malloc_law [OF assms(1-3)] assms(4,5) obtain q c where q: "p = of_nat q" "n \<le> c" "(q, c) \<notin> A"
    "rep u (insert (q, c) A)" "kept s u A" "grows s u (n + slack)"
    by auto
  with that [of c] rep_unat [OF q(4), of q c] show thesis
    by simp
qed

lemma free_gave:
  assumes "rep s A" "(p, c) \<in> A" "pk_free pk (of_nat p) s = Some u"
  shows "rep u (A - {(p, c)})" "kept s u (A - {(p, c)})" "grows s u 0"
  using free_law [OF assms(1,2)] assms(3) by auto

lemma realloc_failed:
  assumes "rep s A" "(p, c) \<in> A" "0 < n" "n \<le> limit" "pk_realloc pk (of_nat p) (of_nat n) s = Some (NULL, u)"
  shows "rep u A" "kept s u A" "grows s u 0" "hi s < brk s + n + slack"
  using realloc_law [OF assms(1-4)] rep_not_NULL assms(5) by auto

lemma realloc_gave:
  assumes "rep s A" "(p, c) \<in> A" "0 < n" "n \<le> limit" "pk_realloc pk (of_nat p) (of_nat n) s = Some (q, u)" "q \<noteq> NULL"
  obtains e where "n \<le> e" "(unat q, e) \<notin> A - {(p, c)}" "rep u (insert (unat q, e) (A - {(p, c)}))"
    "kept s u (A - {(p, c)})" "grows s u (n + slack)" "\<And>i. i < min n c \<Longrightarrow> byte_at u (unat q + i) = byte_at s (p + i)"
proof -
  from realloc_law [OF assms(1-4)] assms(5,6) obtain r e where r: "q = of_nat r" "n \<le> e" "(r, e) \<notin> A - {(p, c)}"
    "rep u (insert (r, e) (A - {(p, c)}))" "kept s u (A - {(p, c)})" "grows s u (n + slack)"
    "\<forall>i < min n c. byte_at u (r + i) = byte_at s (p + i)"
    by auto
  with that [of e] rep_unat [OF r(4), of r e] show thesis
    by simp
qed

text \<open>The start of every run, and the room there is then.\<close>

lemma started:
  assumes "arena_ok s0" "hi s0 + limit + slack \<le> 2 ^ 32"
  obtains u where "pk_init pk (mem_reset_brk s0) = Some (0, u)" "rep u {}" "grows (mem_reset_brk s0) u slack"
    "\<And>n. hi u < brk u + n \<Longrightarrow> MAX_HEAP < slack + n"
proof -
  let ?s = "mem_reset_brk s0"
  have ok: "arena_ok ?s" "brk ?s = lo ?s" "hi ?s + limit + slack \<le> 2 ^ 32"
    using assms by (simp_all add: arena_ok_def mem_reset_brk_def MAX_HEAP_val)
  then have "hi ?s = brk ?s + MAX_HEAP"
    by (simp add: arena_ok_def)
  moreover obtain u where u: "pk_init pk ?s = Some (0, u)" "rep u {}" "grows ?s u slack"
    using init_law [OF ok] by blast
  ultimately have "MAX_HEAP < slack + n" if "hi u < brk u + n" for n
    using that growsD [OF u(3)] by simp
  with u that show thesis
    by blast
qed

text \<open>The size of the heap the driver asks for.\<close>

lemma heapsize_nat: "rep s A \<Longrightarrow> uint (mem_heapsize s) = int (brk s - lo s)"
proof -
  assume "rep s A"
  then have "lo s \<le> brk s"
    by (auto dest: rep_arena simp: arena_ok_def)
  then have "unat (mem_heapsize s) = brk s - lo s"
    by (simp add: mem_heapsize_def unat_sub word_le_nat_alt)
  then show ?thesis
    by (metis uint_nat)
qed

text \<open>The payloads together fit into the heap.\<close>

lemma rep_finite: "rep s A \<Longrightarrow> finite A"
proof (rule finite_subset)
  show "A \<subseteq> {..< 2 ^ 32} \<times> {..< 2 ^ 32}" if "rep s A"
    using rep_bounds [OF that] by fastforce
qed auto

lemma rep_total:
  assumes "rep s A"
  shows "(\<Sum>(p, c) \<in> A. c) \<le> brk s - lo s"
proof -
  have "(\<Sum>(p, c) \<in> A. c) = (\<Sum>x \<in> A. card {fst x ..< fst x + snd x})"
    by (simp add: case_prod_beta)
  also have "\<dots> = card (\<Union>x \<in> A. {fst x ..< fst x + snd x})"
  proof (rule card_UN_disjoint [symmetric])
    show "\<forall>x \<in> A. \<forall>y \<in> A. x \<noteq> y \<longrightarrow> {fst x ..< fst x + snd x} \<inter> {fst y ..< fst y + snd y} = {}"
      using rep_apart [OF assms] by fastforce
  qed (use rep_finite [OF assms] in auto)
  also have "\<dots> \<le> card {lo s ..< brk s}"
    by (rule card_mono) (use rep_inside [OF assms] in fastforce)+
  finally show ?thesis
    by simp
qed

end

section \<open>The exact contract\<close>

text \<open>
  A package whose requests can be foretold: \<open>hs\<close> gives, on an abstract state of the heap, where
  every block is put, as a distance from the start of the heap, and which request gets
  nothing; \<open>models s h A\<close> says that the memory \<open>s\<close> is in the abstract state \<open>h\<close> with the payloads
  \<open>A\<close>.
\<close>

record 'h heap_spec =
  hs_init :: 'h
  hs_malloc :: "nat \<Rightarrow> 'h \<Rightarrow> (nat \<times> 'h) option"
  hs_free :: "nat \<Rightarrow> 'h \<Rightarrow> 'h"
  hs_realloc :: "nat \<Rightarrow> nat \<Rightarrow> 'h \<Rightarrow> (nat \<times> 'h) option"

locale exact_package = malloc_package pk rep limit slack
  for pk :: "'a package" and rep :: "'a mem_scheme \<Rightarrow> (nat \<times> nat) set \<Rightarrow> bool" and limit slack :: nat +
  fixes hs :: "'h heap_spec"
    and models :: "'a mem_scheme \<Rightarrow> 'h \<Rightarrow> (nat \<times> nat) set \<Rightarrow> bool"
  assumes models_rep: "models s h A \<Longrightarrow> rep s A"
    and models_write: "models s h A \<Longrightarrow> (p, c) \<in> A \<Longrightarrow> changes_only s s' p (p + c) \<Longrightarrow> models s' h A"
    and models_init: "arena_ok s \<Longrightarrow> brk s = lo s \<Longrightarrow> hi s + limit + slack \<le> 2 ^ 32 \<Longrightarrow>
      \<exists>u. pk_init pk s = Some (0, u) \<and> models u (hs_init hs) {} \<and> grows s u slack"
    and models_malloc: "models s h A \<Longrightarrow> 0 < n \<Longrightarrow> n \<le> limit \<Longrightarrow>
      (hs_malloc hs n h = None \<and> hi s < brk s + n + slack
         \<and> (\<exists>u. pk_malloc pk (of_nat n) s = Some (NULL, u) \<and> models u h A \<and> grows s u 0 \<and> kept s u A))
      \<or> (\<exists>d h' c u. hs_malloc hs n h = Some (d, h')
         \<and> pk_malloc pk (of_nat n) s = Some (of_nat (lo s + d), u) \<and> n \<le> c \<and> (lo s + d, c) \<notin> A
         \<and> models u h' (insert (lo s + d, c) A) \<and> grows s u (n + slack) \<and> kept s u A)"
    and models_free: "models s h A \<Longrightarrow> (lo s + d, c) \<in> A \<Longrightarrow>
      \<exists>u. pk_free pk (of_nat (lo s + d)) s = Some u \<and> models u (hs_free hs d h) (A - {(lo s + d, c)})
         \<and> grows s u 0 \<and> kept s u (A - {(lo s + d, c)})"
    and models_realloc: "models s h A \<Longrightarrow> (lo s + d, c) \<in> A \<Longrightarrow> 0 < n \<Longrightarrow> n \<le> limit \<Longrightarrow>
      (hs_realloc hs d n h = None \<and> hi s < brk s + n + slack
         \<and> (\<exists>u. pk_realloc pk (of_nat (lo s + d)) (of_nat n) s = Some (NULL, u) \<and> models u h A
              \<and> grows s u 0 \<and> kept s u A))
      \<or> (\<exists>e h' b u. hs_realloc hs d n h = Some (e, h')
         \<and> pk_realloc pk (of_nat (lo s + d)) (of_nat n) s = Some (of_nat (lo s + e), u) \<and> n \<le> b
         \<and> (lo s + e, b) \<notin> A - {(lo s + d, c)} \<and> models u h' (insert (lo s + e, b) (A - {(lo s + d, c)}))
         \<and> grows s u (n + slack) \<and> kept s u (A - {(lo s + d, c)})
         \<and> (\<forall>i < min n c. byte_at u (lo s + e + i) = byte_at s (lo s + d + i)))"
begin

text \<open>The start of every run, with the abstract state.\<close>

lemma started_at:
  assumes "arena_ok s0" "hi s0 + limit + slack \<le> 2 ^ 32"
  obtains u where "pk_init pk (mem_reset_brk s0) = Some (0, u)" "models u (hs_init hs) {}"
    "grows (mem_reset_brk s0) u slack" "\<And>n. hi u < brk u + n \<Longrightarrow> MAX_HEAP < slack + n"
proof (rule started [OF assms])
  fix u
  assume u: "pk_init pk (mem_reset_brk s0) = Some (0, u)" "\<And>n. hi u < brk u + n \<Longrightarrow> MAX_HEAP < slack + n"
    "grows (mem_reset_brk s0) u slack"
  have "arena_ok (mem_reset_brk s0)" "brk (mem_reset_brk s0) = lo (mem_reset_brk s0)"
    "hi (mem_reset_brk s0) + limit + slack \<le> 2 ^ 32"
    using assms by (simp_all add: arena_ok_def mem_reset_brk_def MAX_HEAP_val)
  from models_init [OF this] u that show thesis
    by auto
qed

end

end
