(* ===== verification/Client.thy ===== *)
theory Client
  imports Package
begin

text \<open>
  Programs that use a malloc package, as a step relation. A configuration is the state of
  the memory with the set of blocks the program holds, each with the size it asked for.
  A program may ask for a block, give one back, change the size of one, and write into the
  bytes it asked for; nothing else.
\<close>

type_synonym 'a config = "'a mem_scheme \<times> (nat \<times> nat) set"

inductive client_step :: "'a package \<Rightarrow> nat \<Rightarrow> 'a config \<Rightarrow> 'a config \<Rightarrow> bool"
  for pk :: "'a package" and limit :: nat where
  malloc: "0 < n \<Longrightarrow> n \<le> limit \<Longrightarrow> pk_malloc pk (of_nat n) s = Some (p, u) \<Longrightarrow> p \<noteq> NULL
    \<Longrightarrow> client_step pk limit (s, L) (u, insert (unat p, n) L)"
| malloc_fails: "0 < n \<Longrightarrow> n \<le> limit \<Longrightarrow> pk_malloc pk (of_nat n) s = Some (NULL, u)
    \<Longrightarrow> client_step pk limit (s, L) (u, L)"
| free: "(p, m) \<in> L \<Longrightarrow> pk_free pk (of_nat p) s = Some u
    \<Longrightarrow> client_step pk limit (s, L) (u, L - {(p, m)})"
| realloc: "(p, m) \<in> L \<Longrightarrow> 0 < n \<Longrightarrow> n \<le> limit \<Longrightarrow> pk_realloc pk (of_nat p) (of_nat n) s = Some (q, u)
    \<Longrightarrow> q \<noteq> NULL \<Longrightarrow> client_step pk limit (s, L) (u, insert (unat q, n) (L - {(p, m)}))"
| realloc_fails: "(p, m) \<in> L \<Longrightarrow> 0 < n \<Longrightarrow> n \<le> limit
    \<Longrightarrow> pk_realloc pk (of_nat p) (of_nat n) s = Some (NULL, u)
    \<Longrightarrow> client_step pk limit (s, L) (u, L)"
| store: "(p, m) \<in> L \<Longrightarrow> changes_only s u p (p + m) \<Longrightarrow> client_step pk limit (s, L) (u, L)"

inductive_cases client_stepE [consumes 1, case_names malloc malloc_fails free realloc realloc_fails store]:
  "client_step pk limit (s, L) (u, K)"

text \<open>Every run starts with \<open>mm_init\<close> on a reset break.\<close>

inductive client_reach :: "'a package \<Rightarrow> nat \<Rightarrow> 'a mem_scheme \<Rightarrow> 'a config \<Rightarrow> bool"
  for pk :: "'a package" and limit :: nat and s0 :: "'a mem_scheme" where
  init: "pk_init pk (mem_reset_brk s0) = Some (0, s) \<Longrightarrow> client_reach pk limit s0 (s, {})"
| step: "client_reach pk limit s0 x \<Longrightarrow> client_step pk limit x y \<Longrightarrow> client_reach pk limit s0 y"

text \<open>
  What a program relies on: its blocks are aligned, lie in the heap and are apart from each
  other.
\<close>

definition blocks_safe :: "'a config \<Rightarrow> bool" where
  "blocks_safe x \<longleftrightarrow>
     (\<forall>(p, m) \<in> snd x. lo (fst x) \<le> p \<and> p + m \<le> brk (fst x) \<and> 8 dvd p)
     \<and> (\<forall>(p, m) \<in> snd x. \<forall>(q, n) \<in> snd x. (p, m) = (q, n) \<or> p + m \<le> q \<or> q + n \<le> p)"

text \<open>Every call the program may make has a defined result.\<close>

definition calls_defined :: "'a package \<Rightarrow> nat \<Rightarrow> 'a config \<Rightarrow> bool" where
  "calls_defined pk limit x \<longleftrightarrow>
     (\<forall>n. 0 < n \<longrightarrow> n \<le> limit \<longrightarrow> pk_malloc pk (of_nat n) (fst x) \<noteq> None)
     \<and> (\<forall>(p, m) \<in> snd x. pk_free pk (of_nat p) (fst x) \<noteq> None)
     \<and> (\<forall>(p, m) \<in> snd x. \<forall>n. 0 < n \<longrightarrow> n \<le> limit \<longrightarrow> pk_realloc pk (of_nat p) (of_nat n) (fst x) \<noteq> None)"

text \<open>
  The blocks held are parts of the represented payloads, one of each, and there is no payload
  that the program does not hold.
\<close>

definition holds :: "(nat \<times> nat) set \<Rightarrow> (nat \<times> nat) set \<Rightarrow> bool" where
  "holds A L \<longleftrightarrow>
     (\<forall>(p, m) \<in> L. 0 < m \<and> (\<exists>c. m \<le> c \<and> (p, c) \<in> A))
     \<and> (\<forall>(p, m) \<in> L. \<forall>(q, n) \<in> L. p = q \<longrightarrow> m = n)
     \<and> (\<forall>(p, c) \<in> A. \<exists>m. (p, m) \<in> L)"

lemma holds_empty: "holds A {} \<longleftrightarrow> A = {}"
  by (auto simp: holds_def)

lemma holdsE:
  assumes "holds A L" "(p, m) \<in> L"
  obtains c where "0 < m" "m \<le> c" "(p, c) \<in> A"
  using assms unfolding holds_def by blast

lemma holds_unique: "holds A L \<Longrightarrow> (p, m) \<in> L \<Longrightarrow> (p, n) \<in> L \<Longrightarrow> m = n"
  unfolding holds_def by blast

lemma holdsI:
  assumes "\<And>p m. (p, m) \<in> L \<Longrightarrow> 0 < m \<and> (\<exists>c. m \<le> c \<and> (p, c) \<in> A)"
    and "\<And>p m n. (p, m) \<in> L \<Longrightarrow> (p, n) \<in> L \<Longrightarrow> m = n"
    and "\<And>p c. (p, c) \<in> A \<Longrightarrow> \<exists>m. (p, m) \<in> L"
  shows "holds A L"
  unfolding holds_def using assms by blast

lemma holds_covers: "holds A L \<Longrightarrow> (p, c) \<in> A \<Longrightarrow> \<exists>m. (p, m) \<in> L"
  unfolding holds_def by blast

lemma holds_insert:
  assumes "holds A L" "0 < m" "m \<le> c" "\<And>e. (p, e) \<notin> A"
  shows "holds (insert (p, c) A) (insert (p, m) L)"
proof -
  have fresh: "(p, n) \<notin> L" for n
    using assms(1,4) by (blast elim: holdsE)
  show ?thesis
  proof (rule holdsI)
    show "0 < n \<and> (\<exists>e. n \<le> e \<and> (q, e) \<in> insert (p, c) A)" if "(q, n) \<in> insert (p, m) L" for q n
      using that assms(2,3) by (auto elim: holdsE [OF assms(1)])
  qed (use assms(1) fresh in \<open>auto dest: holds_unique holds_covers\<close>)
qed

lemma holds_remove:
  assumes "holds A L" "(p, m) \<in> L" "\<And>e. (p, e) \<in> A \<Longrightarrow> e = c"
  shows "holds (A - {(p, c)}) (L - {(p, m)})"
proof -
  have L: "q \<noteq> p" if "(q, n) \<in> L - {(p, m)}" for q n
    using that holds_unique [OF assms(1,2), of n] by auto
  have A: "q \<noteq> p" if "(q, e) \<in> A - {(p, c)}" for q e
    using that assms(3) by auto
  show ?thesis
  proof (rule holdsI)
    show "0 < n \<and> (\<exists>e. n \<le> e \<and> (q, e) \<in> A - {(p, c)})" if "(q, n) \<in> L - {(p, m)}" for q n
      using that L [OF that] by (auto elim: holdsE [OF assms(1)])
    show "\<exists>n. (q, n) \<in> L - {(p, m)}" if "(q, e) \<in> A - {(p, c)}" for q e
      using that A [OF that] holds_covers [OF assms(1)] by blast
  qed (use assms(1) in \<open>auto dest: holds_unique\<close>)
qed

context malloc_package
begin

text \<open>The invariant of a run.\<close>

definition client_inv :: "'a config \<Rightarrow> bool" where
  "client_inv x \<longleftrightarrow> (\<exists>A. rep (fst x) A \<and> holds A (snd x))"

lemma client_inv_safe: "client_inv x \<Longrightarrow> blocks_safe x"
proof -
  assume "client_inv x"
  then obtain A where A: "rep (fst x) A" "holds A (snd x)"
    by (auto simp: client_inv_def)
  have in_heap: "lo (fst x) \<le> p \<and> p + m \<le> brk (fst x) \<and> 8 dvd p" if "(p, m) \<in> snd x" for p m
    by (rule holdsE [OF A(2) that]) (use rep_inside [OF A(1)] in force)
  moreover have "(p, m) = (q, n) \<or> p + m \<le> q \<or> q + n \<le> p"
    if p: "(p, m) \<in> snd x" and q: "(q, n) \<in> snd x" for p m q n
  proof (rule holdsE [OF A(2) p], rule holdsE [OF A(2) q])
    fix c e
    assume "m \<le> c" "(p, c) \<in> A" "n \<le> e" "(q, e) \<in> A"
    with rep_apart [OF A(1), of p c q e] holds_unique [OF A(2) p, of n] q show ?thesis
      by auto
  qed
  ultimately show ?thesis
    unfolding blocks_safe_def by blast
qed

lemma client_inv_defined: "client_inv x \<Longrightarrow> calls_defined pk limit x"
proof -
  assume "client_inv x"
  then obtain A where A: "rep (fst x) A" "holds A (snd x)"
    by (auto simp: client_inv_def)
  have "pk_malloc pk (of_nat n) (fst x) \<noteq> None" if "0 < n" "n \<le> limit" for n
    using malloc_law [OF A(1) that] by auto
  moreover have "pk_free pk (of_nat p) (fst x) \<noteq> None" if "(p, m) \<in> snd x" for p m
    by (rule holdsE [OF A(2) that]) (use free_law [OF A(1)] in fastforce)
  moreover have "pk_realloc pk (of_nat p) (of_nat n) (fst x) \<noteq> None"
    if "(p, m) \<in> snd x" "0 < n" "n \<le> limit" for p m n
    by (rule holdsE [OF A(2) that(1)]) (use realloc_law [OF A(1) _ that(2,3)] in fastforce)
  ultimately show ?thesis
    unfolding calls_defined_def by blast
qed

text \<open>What holds of the blocks before and after a call.\<close>

lemma held_block:
  assumes "rep s A" "holds A L" "(p, m) \<in> L"
  obtains c where "0 < m" "m \<le> c" "(p, c) \<in> A" "holds (A - {(p, c)}) (L - {(p, m)})"
proof -
  obtain c where c: "0 < m" "m \<le> c" "(p, c) \<in> A"
    by (rule holdsE [OF assms(2,3)])
  have "holds (A - {(p, c)}) (L - {(p, m)})"
    by (rule holds_remove [OF assms(2,3)]) (rule rep_address_unique [OF assms(1) _ c(3)])
  with c that show thesis
    by blast
qed

lemma held_insert:
  assumes "holds A L" "0 < n" "n \<le> c" "(p, c) \<notin> A" "rep u (insert (p, c) A)"
  shows "client_inv (u, insert (p, n) L)"
  using holds_insert [OF assms(1-3) rep_fresh [OF assms(5,4)]] assms(5) by (auto simp: client_inv_def)

lemma client_inv_step:
  assumes "client_step pk limit (s, L) (u, K)" "client_inv (s, L)"
  shows "client_inv (u, K)"
proof -
  obtain A where A: "rep s A" "holds A L"
    using assms(2) by (auto simp: client_inv_def)
  from assms(1) show ?thesis
  proof (cases rule: client_stepE)
    case (malloc n p)
    show ?thesis
      unfolding malloc(1)
      by (rule malloc_gave [OF A(1) malloc(2-5)]) (rule held_insert [OF A(2) malloc(2)])
  next
    case (malloc_fails n)
    with malloc_failed(1) [OF A(1)] A(2) show ?thesis
      by (auto simp: client_inv_def)
  next
    case (free p m)
    obtain c where "(p, c) \<in> A" "holds (A - {(p, c)}) (L - {(p, m)})"
      by (rule held_block [OF A free(2)])
    with free_gave(1) [OF A(1) _ free(3)] show ?thesis
      by (auto simp: client_inv_def free(1))
  next
    case (realloc p m n q)
    obtain c where c: "(p, c) \<in> A" "holds (A - {(p, c)}) (L - {(p, m)})"
      by (rule held_block [OF A realloc(2)])
    show ?thesis
      unfolding realloc(1)
      by (rule realloc_gave [OF A(1) c(1) realloc(3-6)]) (rule held_insert [OF c(2) realloc(3)])
  next
    case (realloc_fails p m n)
    obtain c where "(p, c) \<in> A"
      by (rule held_block [OF A realloc_fails(2)])
    with realloc_failed(1) [OF A(1) _ realloc_fails(3-5)] A(2) show ?thesis
      by (auto simp: client_inv_def realloc_fails(1))
  next
    case (store p m)
    obtain c where c: "m \<le> c" "(p, c) \<in> A"
      by (rule held_block [OF A store(2)])
    have "changes_only s u p (p + c)"
      by (rule changes_only_mono [OF store(3)]) (use c in auto)
    from rep_write [OF A(1) c(2) this] A(2) show ?thesis
      by (auto simp: client_inv_def store(1))
  qed
qed

text \<open>The start of every run.\<close>

lemma init_rep:
  assumes "arena_ok s0" "hi s0 + limit + slack \<le> 2 ^ 32" "pk_init pk (mem_reset_brk s0) = Some (0, s)"
  shows "rep s {}"
  by (rule started [OF assms(1,2)]) (use assms(3) in simp)

lemma client_reach_inv:
  assumes "client_reach pk limit s0 x" "arena_ok s0" "hi s0 + limit + slack \<le> 2 ^ 32"
  shows "client_inv x"
  using assms(1)
proof (induction rule: client_reach.induct)
  case (init s)
  have "rep s {}"
    by (rule init_rep [OF assms(2,3) init])
  then show ?case
    by (auto simp: client_inv_def holds_def)
next
  case (step x y)
  then show ?case
    by (cases x; cases y) (use client_inv_step in blast)
qed

end

end
