(* ===== verification/Client_Data.thy ===== *)
theory Client_Data
  imports Client
begin

text \<open>
  Programs that use a malloc package and read what they have written. The model of the
  program keeps, for every block it holds, the bytes that ought to be there: an ideal store
  in which blocks are independent of each other and of the allocator. The memory of the
  machine implements it: every load returns what the ideal store says, and every block it is
  given is apart from the blocks it holds.
\<close>

section \<open>Loads and stores of one byte\<close>

definition write8 :: "'a mem_scheme \<Rightarrow> addr \<Rightarrow> u8 \<Rightarrow> 'a mem_scheme option" where
  "write8 s p v = (if in_arena s p 1 then Some (s\<lparr>mem_bytes := (mem_bytes s)(p := v)\<rparr>) else None)"

definition load :: "'a mem_scheme \<Rightarrow> nat \<Rightarrow> nat \<Rightarrow> u8 list" where
  "load s p n = map (\<lambda>i. byte_at s (p + i)) [0 ..< n]"

section \<open>The ideal store\<close>

type_synonym store = "nat \<rightharpoonup> u8 list"
type_synonym 'a data_config = "'a mem_scheme \<times> store"

text \<open>The \<open>n\<close> bytes at \<open>p\<close> are apart from every block of the store.\<close>

definition fresh :: "store \<Rightarrow> nat \<Rightarrow> nat \<Rightarrow> bool" where
  "fresh C p n \<longleftrightarrow> (\<forall>q bs. C q = Some bs \<longrightarrow> p + n \<le> q \<or> q + length bs \<le> p)"

text \<open>
  The store only takes new blocks that are apart from those it has. A new block has whatever is
  in memory; a reallocated one has the old bytes, as far as they go, and after them whatever is
  in memory.
\<close>

inductive data_step :: "'a package \<Rightarrow> nat \<Rightarrow> 'a data_config \<Rightarrow> 'a data_config \<Rightarrow> bool"
  for pk :: "'a package" and limit :: nat where
  malloc: "0 < n \<Longrightarrow> n \<le> limit \<Longrightarrow> pk_malloc pk (of_nat n) s = Some (p, u) \<Longrightarrow> p \<noteq> NULL
    \<Longrightarrow> fresh C (unat p) n \<Longrightarrow> data_step pk limit (s, C) (u, C(unat p \<mapsto> load u (unat p) n))"
| malloc_fails: "0 < n \<Longrightarrow> n \<le> limit \<Longrightarrow> pk_malloc pk (of_nat n) s = Some (NULL, u)
    \<Longrightarrow> data_step pk limit (s, C) (u, C)"
| free: "C p = Some bs \<Longrightarrow> pk_free pk (of_nat p) s = Some u
    \<Longrightarrow> data_step pk limit (s, C) (u, C(p := None))"
| realloc: "C p = Some bs \<Longrightarrow> 0 < n \<Longrightarrow> n \<le> limit \<Longrightarrow> pk_realloc pk (of_nat p) (of_nat n) s = Some (q, u)
    \<Longrightarrow> q \<noteq> NULL \<Longrightarrow> fresh (C(p := None)) (unat q) n
    \<Longrightarrow> data_step pk limit (s, C) (u, (C(p := None))(unat q \<mapsto> take n bs @ load u (unat q + length bs) (n - length bs)))"
| realloc_fails: "C p = Some bs \<Longrightarrow> 0 < n \<Longrightarrow> n \<le> limit
    \<Longrightarrow> pk_realloc pk (of_nat p) (of_nat n) s = Some (NULL, u)
    \<Longrightarrow> data_step pk limit (s, C) (u, C)"
| store: "C p = Some bs \<Longrightarrow> i < length bs \<Longrightarrow> write8 s (of_nat (p + i)) v = Some u
    \<Longrightarrow> data_step pk limit (s, C) (u, C(p \<mapsto> bs[i := v]))"

inductive_cases data_stepE [consumes 1, case_names malloc malloc_fails free realloc realloc_fails store]:
  "data_step pk limit (s, C) (u, D)"

inductive data_reach :: "'a package \<Rightarrow> nat \<Rightarrow> 'a mem_scheme \<Rightarrow> 'a data_config \<Rightarrow> bool"
  for pk :: "'a package" and limit :: nat and s0 :: "'a mem_scheme" where
  init: "pk_init pk (mem_reset_brk s0) = Some (0, s) \<Longrightarrow> data_reach pk limit s0 (s, Map.empty)"
| step: "data_reach pk limit s0 x \<Longrightarrow> data_step pk limit x y \<Longrightarrow> data_reach pk limit s0 y"

text \<open>
  The store can take whatever the allocator hands out: a block that the program is given is
  never a part of another block it holds.
\<close>

definition never_shared :: "'a package \<Rightarrow> nat \<Rightarrow> 'a data_config \<Rightarrow> bool" where
  "never_shared pk limit x \<longleftrightarrow>
     (\<forall>n p u. 0 < n \<longrightarrow> n \<le> limit \<longrightarrow> pk_malloc pk (of_nat n) (fst x) = Some (p, u) \<longrightarrow>
        p = NULL \<or> fresh (snd x) (unat p) n)
     \<and> (\<forall>p bs n q u. snd x p = Some bs \<longrightarrow> 0 < n \<longrightarrow> n \<le> limit \<longrightarrow>
        pk_realloc pk (of_nat p) (of_nat n) (fst x) = Some (q, u) \<longrightarrow>
        q = NULL \<or> fresh ((snd x)(p := None)) (unat q) n)"

text \<open>The memory has the contents of the store.\<close>

definition in_memory :: "'a data_config \<Rightarrow> bool" where
  "in_memory x \<longleftrightarrow> (\<forall>p bs. snd x p = Some bs \<longrightarrow> load (fst x) p (length bs) = bs)"

text \<open>The blocks of the store, as the client model of theory \<open>Client\<close> has them.\<close>

definition blocks_of :: "store \<Rightarrow> (nat \<times> nat) set" where
  "blocks_of C = {(p, length bs) | p bs. C p = Some bs}"

section \<open>Facts\<close>

lemma length_load [simp]: "length (load s p n) = n"
  by (simp add: load_def)

lemma load_nth [simp]: "i < n \<Longrightarrow> load s p n ! i = byte_at s (p + i)"
  by (simp add: load_def)

lemma load_cong: "(\<And>i. i < n \<Longrightarrow> byte_at u (q + i) = byte_at s (p + i)) \<Longrightarrow> load u q n = load s p n"
  by (simp add: load_def)

lemma blocks_of_empty [simp]: "blocks_of Map.empty = {}"
  by (simp add: blocks_of_def)

lemma blocks_of_iff: "x \<in> blocks_of C \<longleftrightarrow> (\<exists>bs. C (fst x) = Some bs \<and> snd x = length bs)"
  by (cases x) (auto simp: blocks_of_def)

lemma blocks_of_remove: "C p = Some bs \<Longrightarrow> blocks_of (C(p := None)) = blocks_of C - {(p, length bs)}"
  by (auto simp: blocks_of_iff split: if_splits)

lemma blocks_of_insert:
  assumes "\<And>n. (p, n) \<notin> blocks_of C"
  shows "blocks_of (C(p \<mapsto> bs)) = insert (p, length bs) (blocks_of C)"
proof -
  have "C p = None"
    using assms by (cases "C p") (auto simp: blocks_of_iff)
  then show ?thesis
    by (auto simp: blocks_of_iff split: if_splits)
qed

lemma blocks_of_update: "C p = Some bs \<Longrightarrow> length cs = length bs \<Longrightarrow> blocks_of (C(p \<mapsto> cs)) = blocks_of C"
  by (auto simp: blocks_of_iff split: if_splits)

lemma in_memoryD: "in_memory (s, C) \<Longrightarrow> C p = Some bs \<Longrightarrow> i < length bs \<Longrightarrow> byte_at s (p + i) = bs ! i"
  unfolding in_memory_def by (metis fst_conv snd_conv load_nth)

lemma in_memoryI:
  "(\<And>p bs i. C p = Some bs \<Longrightarrow> i < length bs \<Longrightarrow> byte_at s (p + i) = bs ! i) \<Longrightarrow> in_memory (s, C)"
  unfolding in_memory_def by (auto intro!: nth_equalityI)

context malloc_package
begin

definition data_inv :: "'a data_config \<Rightarrow> bool" where
  "data_inv x \<longleftrightarrow> (\<exists>A. rep (fst x) A \<and> holds A (blocks_of (snd x))) \<and> in_memory x"

text \<open>Bytes that the allocator keeps stay as the store has them.\<close>

lemma in_memory_kept:
  assumes "in_memory (s, C)" "kept s u A" "holds A (blocks_of C)"
  shows "in_memory (u, C)"
proof (rule in_memoryI)
  fix p bs i
  assume C: "C p = Some bs" "i < length bs"
  then have "(p, length bs) \<in> blocks_of C"
    by (simp add: blocks_of_iff)
  then obtain c where c: "length bs \<le> c" "(p, c) \<in> A"
    by (rule holdsE [OF assms(3)])
  have "byte_at u (p + i) = byte_at s (p + i)"
    by (rule keptD [OF assms(2) c(2)]) (use C c in simp)
  with in_memoryD [OF assms(1) C] show "byte_at u (p + i) = bs ! i"
    by simp
qed

lemma in_memory_upd:
  assumes "in_memory (s, C)" "\<And>i. i < length bs \<Longrightarrow> byte_at s (p + i) = bs ! i"
  shows "in_memory (s, C(p \<mapsto> bs))"
  by (rule in_memoryI) (use assms in \<open>auto dest: in_memoryD split: if_splits\<close>)

lemma in_memory_remove: "in_memory (s, C) \<Longrightarrow> in_memory (s, C(p := None))"
  by (rule in_memoryI) (auto dest: in_memoryD split: if_splits)

text \<open>A new block \<open>(q, c)\<close> joins the blocks of the store.\<close>

lemma data_inv_insert:
  assumes rep: "rep u (insert (q, c) A)" "(q, c) \<notin> A" and A: "holds A (blocks_of C)"
    and bs: "0 < length bs" "length bs \<le> c" "\<And>i. i < length bs \<Longrightarrow> byte_at u (q + i) = bs ! i"
    and mem: "in_memory (u, C)"
  shows "data_inv (u, C(q \<mapsto> bs))"
proof -
  have fresh: "(q, e) \<notin> A" for e
    by (rule rep_fresh [OF rep])
  then have "(q, n) \<notin> blocks_of C" for n
    using A by (blast elim: holdsE)
  then have "blocks_of (C(q \<mapsto> bs)) = insert (q, length bs) (blocks_of C)"
    by (rule blocks_of_insert)
  with holds_insert [OF A bs(1,2) fresh] rep(1) in_memory_upd [OF mem bs(3)] show ?thesis
    unfolding data_inv_def by auto
qed

text \<open>A block of the store is a payload of the allocator, and one without it when it is gone.\<close>

lemma data_block:
  assumes "rep s A" "holds A (blocks_of C)" "C p = Some bs"
  obtains c where "0 < length bs" "length bs \<le> c" "(p, c) \<in> A"
    "holds (A - {(p, c)}) (blocks_of (C(p := None)))"
proof -
  have "(p, length bs) \<in> blocks_of C"
    using assms(3) by (simp add: blocks_of_iff)
  then obtain c where "0 < length bs" "length bs \<le> c" "(p, c) \<in> A"
      "holds (A - {(p, c)}) (blocks_of C - {(p, length bs)})"
    by (rule held_block [OF assms(1,2)])
  with that [of c] show thesis
    by (simp add: blocks_of_remove [of C p bs] assms(3))
qed

lemma data_inv_realloc:
  assumes A: "rep s A" "holds A (blocks_of C)" "in_memory (s, C)" and C: "C p = Some bs"
    and n: "0 < n" "n \<le> limit" and run: "pk_realloc pk (of_nat p) (of_nat n) s = Some (q, u)" "q \<noteq> NULL"
  shows "data_inv (u, (C(p := None))(unat q \<mapsto> take n bs @ load u (unat q + length bs) (n - length bs)))"
proof -
  obtain c where c: "length bs \<le> c" "(p, c) \<in> A" and B: "holds (A - {(p, c)}) (blocks_of (C(p := None)))"
    by (rule data_block [OF A(1,2) C])
  obtain e where e: "n \<le> e" "(unat q, e) \<notin> A - {(p, c)}" "rep u (insert (unat q, e) (A - {(p, c)}))"
    "kept s u (A - {(p, c)})" "\<And>i. i < min n c \<Longrightarrow> byte_at u (unat q + i) = byte_at s (p + i)"
    using realloc_gave [OF A(1) c(2) n run] by metis
  let ?bs = "take n bs @ load u (unat q + length bs) (n - length bs)"
  have len: "length ?bs = n"
    by simp
  show ?thesis
  proof (rule data_inv_insert [OF e(3,2) B])
    show "byte_at u (unat q + i) = ?bs ! i" if "i < length ?bs" for i
    proof (cases "i < length bs")
      case True
      have "i < n"
        using that by (simp only: len)
      with True e(5) c(1) in_memoryD [OF A(3) C True] show ?thesis
        by (simp add: nth_append)
    next
      case False
      with that show ?thesis
        by (simp add: nth_append add.assoc)
    qed
    show "in_memory (u, C(p := None))"
      by (rule in_memory_kept [OF in_memory_remove [OF A(3)] e(4) B])
  qed (use e(1) n in auto)
qed

lemma data_inv_store:
  assumes A: "rep s A" "holds A (blocks_of C)" "in_memory (s, C)" and C: "C p = Some bs" "i < length bs"
    and run: "write8 s (of_nat (p + i)) v = Some u"
  shows "data_inv (u, C(p \<mapsto> bs[i := v]))"
proof -
  obtain c where c: "length bs \<le> c" "(p, c) \<in> A"
    by (rule data_block [OF A(1,2) C(1)])
  have u: "u = s\<lparr>mem_bytes := (mem_bytes s)(of_nat (p + i) := v)\<rparr>"
    using run by (auto simp: write8_def split: if_splits)
  have byte: "byte_at u k = (if k = p + i then v else byte_at s k)" if "k < 2 ^ 32" for k
    using that rep_bounds(3) [OF A(1) c(2)] c(1) C(2) of_nat_word32_eq [of k "p + i"]
    by (auto simp: u byte_at_def)
  then have "changes_only s u p (p + c)"
    using c(1) C(2) by (auto simp: changes_only_def u)
  then have "rep u A"
    by (rule rep_write [OF A(1) c(2)])
  moreover have "in_memory (u, C(p \<mapsto> bs[i := v]))"
  proof (rule in_memoryI)
    fix q cs j
    assume q: "(C(p \<mapsto> bs[i := v])) q = Some cs" "j < length cs"
    obtain ds where ds: "C q = Some ds" "length ds = length cs" "cs = (if q = p then ds[i := v] else ds)"
      using q(1) C(1) by (cases "q = p") simp_all
    obtain e where e: "length ds \<le> e" "(q, e) \<in> A"
      by (rule data_block [OF A(1,2) ds(1)])
    have "q + j < 2 ^ 32" "q = p \<or> q + j \<noteq> p + i"
      using rep_bounds(3) [OF A(1) e(2)] rep_apart [OF A(1) c(2) e(2)] c(1) e(1) C(2) q(2) ds(2) by auto
    note far = this
    have old: "byte_at s (q + j) = ds ! j"
      by (rule in_memoryD [OF A(3) ds(1)]) (use q(2) ds(2) in simp)
    show "byte_at u (q + j) = cs ! j"
    proof (cases "q = p")
      case True
      with ds C(1) have "cs = bs[i := v]" "ds = bs"
        by simp_all
      with byte [OF far(1)] old True q(2) show ?thesis
        by (cases "j = i") simp_all
    next
      case False
      with byte [OF far(1)] old far(2) ds(3) show ?thesis
        by simp
    qed
  qed
  ultimately show ?thesis
    using A(2) blocks_of_update [of C p bs "bs[i := v]"] C(1) by (auto simp: data_inv_def)
qed

lemma data_inv_step:
  assumes "data_step pk limit (s, C) (u, D)" "data_inv (s, C)"
  shows "data_inv (u, D)"
proof -
  obtain A where A: "rep s A" "holds A (blocks_of C)" "in_memory (s, C)"
    using assms(2) by (auto simp: data_inv_def)
  from assms(1) show ?thesis
  proof (cases rule: data_stepE)
    case (malloc n p)
    obtain c where c: "n \<le> c" "(unat p, c) \<notin> A" "rep u (insert (unat p, c) A)" "kept s u A"
      by (rule malloc_gave [OF A(1) malloc(2-5)])
    with data_inv_insert [OF c(3,2) A(2), of "load u (unat p) n"] malloc(2) in_memory_kept [OF A(3) c(4) A(2)]
    show ?thesis
      by (simp add: malloc(1))
  next
    case (malloc_fails n)
    from malloc_failed(1,2) [OF A(1) malloc_fails(2-4)] A(2) in_memory_kept [OF A(3)] show ?thesis
      by (auto simp: data_inv_def malloc_fails(1))
  next
    case (free p bs)
    obtain c where c: "(p, c) \<in> A" "holds (A - {(p, c)}) (blocks_of (C(p := None)))"
      by (rule data_block [OF A(1,2) free(2)])
    from free_gave(1,2) [OF A(1) c(1) free(3)] c(2) in_memory_kept [OF in_memory_remove [OF A(3)]] show ?thesis
      by (auto simp: data_inv_def free(1))
  next
    case (realloc p bs n q)
    with data_inv_realloc [OF A] show ?thesis
      by simp
  next
    case (realloc_fails p bs n)
    obtain c where c: "(p, c) \<in> A"
      by (rule data_block [OF A(1,2) realloc_fails(2)])
    from realloc_failed(1,2) [OF A(1) c realloc_fails(3-5)] A(2) in_memory_kept [OF A(3)] show ?thesis
      by (auto simp: data_inv_def realloc_fails(1))
  next
    case (store p bs i v)
    with data_inv_store [OF A] show ?thesis
      by simp
  qed
qed

lemma data_reach_inv:
  assumes "data_reach pk limit s0 x" "arena_ok s0" "hi s0 + limit + slack \<le> 2 ^ 32"
  shows "data_inv x"
  using assms(1)
proof (induction rule: data_reach.induct)
  case (init s)
  have "rep s {}"
    by (rule init_rep [OF assms(2,3) init])
  then show ?case
    by (auto simp: data_inv_def holds_def in_memory_def)
next
  case (step x y)
  then show ?case
    by (cases x; cases y) (use data_inv_step in blast)
qed

text \<open>Every block that is handed out is a new one.\<close>

lemma fresh_insert:
  assumes "rep u (insert (q, c) A)" "(q, c) \<notin> A" "holds A (blocks_of C)" "n \<le> c"
  shows "fresh C q n"
  unfolding fresh_def
proof (intro allI impI)
  fix r bs
  assume "C r = Some bs"
  then have "(r, length bs) \<in> blocks_of C"
    by (simp add: blocks_of_iff)
  then obtain e where e: "length bs \<le> e" "(r, e) \<in> A"
    by (rule holdsE [OF assms(3)])
  have "(q, c) = (r, e) \<or> q + c \<le> r \<or> r + e \<le> q"
    by (rule rep_apart [OF assms(1)]) (use e(2) in simp_all)
  with assms(2,4) e show "q + n \<le> r \<or> r + length bs \<le> q"
    by auto
qed

lemma data_inv_never_shared:
  assumes "data_inv (s, C)"
  shows "never_shared pk limit (s, C)"
proof -
  obtain A where A: "rep s A" "holds A (blocks_of C)"
    using assms by (auto simp: data_inv_def)
  have "fresh C (unat p) n"
    if n: "0 < n" "n \<le> limit" "pk_malloc pk (of_nat n) s = Some (p, u)" "p \<noteq> NULL" for n p u
  proof -
    obtain c where "n \<le> c" "(unat p, c) \<notin> A" "rep u (insert (unat p, c) A)"
      by (rule malloc_gave [OF A(1) n])
    with fresh_insert [OF _ _ A(2)] show ?thesis
      by blast
  qed
  moreover have "fresh (C(p := None)) (unat q) n"
    if C: "C p = Some bs" and n: "0 < n" "n \<le> limit" "pk_realloc pk (of_nat p) (of_nat n) s = Some (q, u)" "q \<noteq> NULL"
    for p bs n q u
  proof -
    obtain c where c: "(p, c) \<in> A" "holds (A - {(p, c)}) (blocks_of (C(p := None)))"
      by (rule data_block [OF A C])
    obtain e where "n \<le> e" "(unat q, e) \<notin> A - {(p, c)}" "rep u (insert (unat q, e) (A - {(p, c)}))"
      by (rule realloc_gave [OF A(1) c(1) n])
    with fresh_insert [OF _ _ c(2)] show ?thesis
      by blast
  qed
  ultimately show ?thesis
    unfolding never_shared_def fst_conv snd_conv by blast
qed

text \<open>Every load from a block the program holds returns what the store says.\<close>

lemma data_inv_read:
  assumes "data_inv (s, C)" "C p = Some bs" "i < length bs"
  shows "read8 s (of_nat (p + i)) = Some (bs ! i)"
proof -
  obtain A where A: "rep s A" "holds A (blocks_of C)" "in_memory (s, C)"
    using assms(1) by (auto simp: data_inv_def)
  obtain c where c: "length bs \<le> c" "(p, c) \<in> A"
    by (rule data_block [OF A(1,2) assms(2)])
  have "read8 s (of_nat (p + i)) = Some (byte_at s (p + i))"
    by (rule read8_nat) (use rep_inside [OF A(1) c(2)] rep_bounds [OF A(1) c(2)] c(1) assms(3) in auto)
  with in_memoryD [OF A(3) assms(2,3)] show ?thesis
    by simp
qed

end

end
