(* ===== verification/Ranges.thy ===== *)
theory Ranges
  imports Memlib
begin

text \<open>
  The first part of \<open>mdriver.c\<close>: error reports and the range list, with which the driver
  checks every block an allocator hands out. The driver's state is polymorphic in the
  allocator's own variables, of which it only sees the memory system's part.
\<close>

section \<open>Driver state and error reports\<close>

text \<open>The length of the buffers for one line of text.\<close>

definition MAXLINE :: nat where "MAXLINE = 1024"

text \<open>The messages the driver reports about a malloc package.\<close>

datatype err_msg =
    Not_Aligned addr
  | Outside_Heap addr addr addr addr
  | Overlaps addr addr addr addr
  | Init_Failed
  | Malloc_Failed
  | Realloc_Failed
  | Not_Preserved
  | Libc_Malloc_Failed
  | Libc_Realloc_Failed

text \<open>\<open>range_t\<close>; the linked list is a list, newest element first.\<close>

record range_t =
  r_lo :: addr
  r_hi :: addr

record 'a driver =
  mach :: "'a mem_scheme"
  ranges :: "range_t list"
  errors :: int
  log :: "(int \<times> int \<times> err_msg) list"  \<comment> \<open>the lines printed by \<open>malloc_error\<close>\<close>

definition ALIGNMENT :: nat where "ALIGNMENT = 8"

definition LINENUM :: "int \<Rightarrow> int" where
  "LINENUM i = i + 5"

definition IS_ALIGNED :: "addr \<Rightarrow> bool" where
  "IS_ALIGNED p \<longleftrightarrow> unat p mod ALIGNMENT = 0"

definition malloc_error :: "int \<Rightarrow> int \<Rightarrow> err_msg \<Rightarrow> 'a driver \<Rightarrow> 'a driver" where
  "malloc_error tracenum opnum m d =
     d\<lparr>errors := errors d + 1, log := log d @ [(tracenum, LINENUM opnum, m)]\<rparr>"

text \<open>\<open>app_error\<close> and \<open>unix_error\<close> print and exit with status 1.\<close>

definition app_error :: "string \<Rightarrow> exit" where "app_error m = Exit 1 (line m)"
definition unix_error :: "string \<Rightarrow> exit" where "unix_error m = System_Exit m"

section \<open>The range list\<close>

text \<open>The loop of \<open>add_range\<close>: the first range that one end of the new one lies in.\<close>

fun find_overlap :: "addr \<Rightarrow> addr \<Rightarrow> range_t list \<Rightarrow> range_t option" where
  "find_overlap l h [] = None"
| "find_overlap l h (p # ps) =
     (if (l \<ge> r_lo p \<and> l \<le> r_hi p) \<or> (h \<ge> r_lo p \<and> h \<le> r_hi p) then Some p
      else find_overlap l h ps)"

text \<open>
  \<open>size\<close> is an \<open>int\<close>. \<open>node\<close> says whether the C library's \<open>malloc\<close> finds memory for the
  new list element.
\<close>

definition add_range :: "bool \<Rightarrow> addr \<Rightarrow> u32 \<Rightarrow> int \<Rightarrow> int \<Rightarrow> 'a driver \<Rightarrow> exit + int \<times> 'a driver" where
  "add_range node l sz tracenum opnum d =
     (let h = l + sz - 1; s = mach d in
      if \<not> 0 < sint sz then Inl Abort
      else if \<not> IS_ALIGNED l then Inr (0, malloc_error tracenum opnum (Not_Aligned l) d)
      else if l < mem_heap_lo s \<or> l > mem_heap_hi s \<or> h < mem_heap_lo s \<or> h > mem_heap_hi s
      then Inr (0, malloc_error tracenum opnum (Outside_Heap l h (mem_heap_lo s) (mem_heap_hi s)) d)
      else case find_overlap l h (ranges d) of
        Some p \<Rightarrow> Inr (0, malloc_error tracenum opnum (Overlaps l h (r_lo p) (r_hi p)) d)
      | None \<Rightarrow>
          if \<not> node then Inl (unix_error ''malloc error in add_range'')
          else Inr (1, d\<lparr>ranges := \<lparr>r_lo = l, r_hi = h\<rparr> # ranges d\<rparr>))"

fun remove_from :: "addr \<Rightarrow> range_t list \<Rightarrow> range_t list" where
  "remove_from l [] = []"
| "remove_from l (p # ps) = (if r_lo p = l then ps else p # remove_from l ps)"

definition remove_range :: "addr \<Rightarrow> 'a driver \<Rightarrow> 'a driver" where
  "remove_range l d = d\<lparr>ranges := remove_from l (ranges d)\<rparr>"

definition clear_ranges :: "'a driver \<Rightarrow> 'a driver" where
  "clear_ranges d = d\<lparr>ranges := []\<rparr>"

section \<open>Facts\<close>

definition meets :: "addr \<Rightarrow> addr \<Rightarrow> range_t \<Rightarrow> bool" where
  "meets l h p \<longleftrightarrow> l \<le> r_hi p \<and> r_lo p \<le> h"

definition encloses :: "addr \<Rightarrow> addr \<Rightarrow> range_t \<Rightarrow> bool" where
  "encloses l h p \<longleftrightarrow> l < r_lo p \<and> r_hi p < h"

lemma find_overlap_None_iff:
  assumes "l \<le> h"
  shows "find_overlap l h ps = None \<longleftrightarrow> (\<forall>p \<in> set ps. meets l h p \<longrightarrow> encloses l h p)"
  using assms by (induction ps) (auto simp: meets_def encloses_def)

lemma find_overlap_SomeD: "find_overlap l h ps = Some p \<Longrightarrow> p \<in> set ps"
  by (induction ps) (auto split: if_splits)

lemma find_overlap_disjoint:
  assumes "\<And>p. p \<in> set ps \<Longrightarrow> h < r_lo p \<or> r_hi p < l" "l \<le> h"
  shows "find_overlap l h ps = None"
  using assms by (simp add: find_overlap_None_iff meets_def) (meson not_le)

lemma set_remove_from: "distinct (map r_lo ps) \<Longrightarrow> set (remove_from l ps) = {p \<in> set ps. r_lo p \<noteq> l}"
  by (induction ps) (auto, metis imageI)

lemma distinct_remove_from: "distinct (map r_lo ps) \<Longrightarrow> distinct (map r_lo (remove_from l ps))"
  by (induction ps) (auto simp: set_remove_from)

lemma malloc_error_fields [simp]:
  "mach (malloc_error t i m d) = mach d"
  "ranges (malloc_error t i m d) = ranges d"
  "errors (malloc_error t i m d) = errors d + 1"
  "log (malloc_error t i m d) = log d @ [(t, LINENUM i, m)]"
  by (simp_all add: malloc_error_def)

text \<open>No error has been reported between two states, or one, in the given trace.\<close>

definition quiet :: "'a driver \<Rightarrow> 'a driver \<Rightarrow> bool" where
  "quiet d d' \<longleftrightarrow> errors d' = errors d \<and> log d' = log d"

definition reports :: "int \<Rightarrow> 'a driver \<Rightarrow> 'a driver \<Rightarrow> bool" where
  "reports tracenum d d' \<longleftrightarrow> errors d' = errors d + 1 \<and> (\<exists>i m. log d' = log d @ [(tracenum, i, m)])"

lemma quiet_trans:
  "quiet d e \<Longrightarrow> quiet e f \<Longrightarrow> quiet d f" "quiet d e \<Longrightarrow> reports tracenum e f \<Longrightarrow> reports tracenum d f"
  "reports tracenum d e \<Longrightarrow> quiet e f \<Longrightarrow> reports tracenum d f"
  by (auto simp: quiet_def reports_def)

lemma quiet_update [simp]:
  "quiet d d" "quiet d (d\<lparr>mach := m\<rparr>)" "quiet d (remove_range p d)" "quiet d (clear_ranges d)"
  by (simp_all add: quiet_def remove_range_def clear_ranges_def)

lemma reports_malloc_error [simp]: "reports tracenum d (malloc_error tracenum i m d)"
  by (simp add: reports_def)

lemma add_range_errors:
  "add_range node p sz tracenum i d = Inr (r, d')
    \<Longrightarrow> r = 0 \<and> reports tracenum d d' \<or> r = 1 \<and> quiet d d'"
  by (auto simp: add_range_def Let_def quiet_def reports_def split: if_split_asm option.split_asm)

lemma add_range_iff:
  assumes "0 < sint sz" "l \<le> l + sz - 1"
  shows "add_range True l sz tracenum opnum d = Inr (1, d\<lparr>ranges := \<lparr>r_lo = l, r_hi = l + sz - 1\<rparr> # ranges d\<rparr>)
    \<longleftrightarrow> IS_ALIGNED l \<and> mem_heap_lo (mach d) \<le> l \<and> l + sz - 1 \<le> mem_heap_hi (mach d)
      \<and> (\<forall>p \<in> set (ranges d). meets l (l + sz - 1) p \<longrightarrow> encloses l (l + sz - 1) p)"
proof -
  have "find_overlap l (l + sz - 1) (ranges d) = None
      \<longleftrightarrow> (\<forall>p \<in> set (ranges d). meets l (l + sz - 1) p \<longrightarrow> encloses l (l + sz - 1) p)"
    by (rule find_overlap_None_iff [OF assms(2)])
  with assms show ?thesis
    by (auto simp: add_range_def Let_def not_less split: option.splits)
qed

end
