(* ===== verification/Scanf.thy ===== *)
theory Scanf
  imports Prelude
begin

text \<open>
  The calls of \<open>fscanf\<close> in \<open>mdriver.c\<close>, on the characters of the file that are left: the
  conversions \<open>%s\<close>, \<open>%d\<close> and \<open>%u\<close>, as the C standard describes them, and the three formats
  made of them. A number that its variable cannot hold has no defined result (\<open>None\<close>). The
  second part writes numbers in decimal and shows that they are read back.
\<close>

section \<open>Characters\<close>

definition isspace :: "char \<Rightarrow> bool" where
  "isspace c \<longleftrightarrow> c = CHR '' '' \<or> (9 \<le> (of_char c :: nat) \<and> (of_char c :: nat) \<le> 13)"

definition isdigit :: "char \<Rightarrow> bool" where
  "isdigit c \<longleftrightarrow> 48 \<le> (of_char c :: nat) \<and> (of_char c :: nat) \<le> 57"

definition digit_value :: "char \<Rightarrow> nat" where
  "digit_value c = of_char c - 48"

definition skip_space :: "string \<Rightarrow> string" where
  "skip_space inp = dropWhile isspace inp"

section \<open>Conversions\<close>

text \<open>An assignment with the rest of the input, no match with the rest, or the end of the file.\<close>

datatype 'v scan = Got 'v string | No_match string | Eof

text \<open>\<open>%s\<close>\<close>

definition scan_word :: "string \<Rightarrow> string scan" where
  "scan_word inp =
     (case skip_space inp of
        [] \<Rightarrow> Eof
      | c # cs \<Rightarrow> Got (takeWhile (\<lambda>c. \<not> isspace c) (c # cs)) (dropWhile (\<lambda>c. \<not> isspace c) (c # cs)))"

text \<open>The optional sign and the digits of \<open>%d\<close> and \<open>%u\<close>.\<close>

definition number :: "string \<Rightarrow> nat" where
  "number ds = foldl (\<lambda>n d. 10 * n + digit_value d) 0 ds"

definition scan_sign :: "string \<Rightarrow> bool \<times> string" where
  "scan_sign inp =
     (case inp of
        [] \<Rightarrow> (False, [])
      | c # cs \<Rightarrow> if c = CHR ''-'' then (True, cs) else if c = CHR ''+'' then (False, cs) else (False, inp))"

definition scan_number :: "string \<Rightarrow> (bool \<times> nat) scan" where
  "scan_number inp =
     (let s = skip_space inp; (neg, r) = scan_sign s; ds = takeWhile isdigit r in
      if s = [] then Eof
      else if ds = [] then No_match r
      else Got (neg, number ds) (dropWhile isdigit r))"

text \<open>
  The number as an \<open>int\<close> and as an \<open>unsigned\<close>. For the latter a minus sign means the
  negation modulo \<open>2 ^ 32\<close>.
\<close>

definition as_int :: "bool \<times> nat \<Rightarrow> u32 option" where
  "as_int = (\<lambda>(neg, n). if neg then (if n \<le> 2 ^ 31 then Some (- of_nat n) else None)
     else if n < 2 ^ 31 then Some (of_nat n) else None)"

definition as_unsigned :: "bool \<times> nat \<Rightarrow> u32 option" where
  "as_unsigned = (\<lambda>(neg, n). if n < 2 ^ 32 then Some (if neg then - of_nat n else of_nat n) else None)"

section \<open>The formats\<close>

text \<open>\<open>fscanf(f, "%d", &x)\<close>: \<open>x\<close> keeps its value \<open>old\<close> unless a number is read.\<close>

definition fscanf_d :: "u32 \<Rightarrow> string \<Rightarrow> (u32 \<times> string) option" where
  "fscanf_d old inp =
     (case scan_number inp of
        Got v r \<Rightarrow> map_option (\<lambda>x. (x, r)) (as_int v)
      | No_match r \<Rightarrow> Some (old, r)
      | Eof \<Rightarrow> Some (old, []))"

text \<open>\<open>fscanf(f, "%u %u", &x, &y)\<close>\<close>

definition fscanf_u_u :: "u32 \<Rightarrow> u32 \<Rightarrow> string \<Rightarrow> (u32 \<times> u32 \<times> string) option" where
  "fscanf_u_u old1 old2 inp =
     (case scan_number inp of
        Got v r \<Rightarrow>
          (case as_unsigned v of
             None \<Rightarrow> None
           | Some x \<Rightarrow>
              (case scan_number (skip_space r) of
                 Got v r \<Rightarrow> map_option (\<lambda>y. (x, y, r)) (as_unsigned v)
               | No_match r \<Rightarrow> Some (x, old2, r)
               | Eof \<Rightarrow> Some (x, old2, [])))
      | No_match r \<Rightarrow> Some (old1, old2, r)
      | Eof \<Rightarrow> Some (old1, old2, []))"

text \<open>
  \<open>fscanf(f, "%ud", &x)\<close>: an unsigned number, after which a letter \<open>d\<close> is skipped if it comes
  next.
\<close>

definition fscanf_ud :: "u32 \<Rightarrow> string \<Rightarrow> (u32 \<times> string) option" where
  "fscanf_ud old inp =
     (case scan_number inp of
        Got v r \<Rightarrow> map_option (\<lambda>x. (x, case r of c # cs \<Rightarrow> if c = CHR ''d'' then cs else r | [] \<Rightarrow> [])) (as_unsigned v)
      | No_match r \<Rightarrow> Some (old, r)
      | Eof \<Rightarrow> Some (old, []))"

section \<open>No call gives characters back\<close>

lemma length_skip_space: "length (skip_space inp) \<le> length inp"
  by (simp add: skip_space_def length_dropWhile_le)

lemma scan_word_length:
  assumes "scan_word inp = Got w r"
  shows "length r < length inp"
proof -
  obtain c cs where c: "skip_space inp = c # cs" and "r = dropWhile (\<lambda>c. \<not> isspace c) (c # cs)"
    using assms by (auto simp: scan_word_def split: list.splits)
  moreover from c have "\<not> isspace c"
    unfolding skip_space_def by (metis dropWhile_eq_Cons_conv)
  ultimately have "length r \<le> length cs"
    by (simp add: length_dropWhile_le)
  with length_skip_space [of inp] c show ?thesis
    by simp
qed

lemma scan_sign_length: "scan_sign inp = (b, r) \<Longrightarrow> length r \<le> length inp"
  by (auto simp: scan_sign_def split: list.splits if_splits)

lemma scan_number_length:
  "scan_number inp = Got v r \<or> scan_number inp = No_match r \<Longrightarrow> length r \<le> length inp"
proof -
  assume a: "scan_number inp = Got v r \<or> scan_number inp = No_match r"
  obtain neg q where q: "scan_sign (skip_space inp) = (neg, q)"
    by fastforce
  with a have "length r \<le> length q"
    by (auto simp: scan_number_def Let_def length_dropWhile_le split: if_splits)
  also have "\<dots> \<le> length inp"
    using scan_sign_length [OF q] length_skip_space [of inp] by simp
  finally show ?thesis .
qed

lemma fscanf_length:
  "fscanf_d old inp = Some (x, r) \<Longrightarrow> length r \<le> length inp"
  "fscanf_u_u old1 old2 inp = Some (x, y, r) \<Longrightarrow> length r \<le> length inp"
  "fscanf_ud old inp = Some (x, r) \<Longrightarrow> length r \<le> length inp"
proof -
  show "fscanf_d old inp = Some (x, r) \<Longrightarrow> length r \<le> length inp"
    using scan_number_length [of inp] by (auto simp: fscanf_d_def split: scan.splits)
  show "fscanf_ud old inp = Some (x, r) \<Longrightarrow> length r \<le> length inp"
    using scan_number_length [of inp]
    by (fastforce simp: fscanf_ud_def split: scan.splits list.splits if_splits)
  assume a: "fscanf_u_u old1 old2 inp = Some (x, y, r)"
  show "length r \<le> length inp"
  proof (cases "scan_number inp")
    case (Got v q)
    with a have "length r \<le> length (skip_space q)"
      using scan_number_length [of "skip_space q"]
      by (auto simp: fscanf_u_u_def split: scan.splits option.splits)
    with length_skip_space [of q] scan_number_length [of inp] Got show ?thesis
      by fastforce
  qed (use a scan_number_length [of inp] in \<open>auto simp: fscanf_u_u_def\<close>)
qed

section \<open>Decimal numbers\<close>

definition digit :: "nat \<Rightarrow> char" where
  "digit k = char_of (48 + k)"

fun decimal :: "nat \<Rightarrow> string" where
  "decimal n = (if n < 10 then [digit n] else decimal (n div 10) @ [digit (n mod 10)])"

declare decimal.simps [simp del]

lemma digit_facts:
  assumes "k < 10"
  shows "isdigit (digit k)" "digit_value (digit k) = k"
  using assms by (simp_all add: isdigit_def digit_value_def digit_def)

lemma digit_chars:
  "digit 0 = CHR ''0''" "digit 1 = CHR ''1''" "digit 2 = CHR ''2''" "digit 3 = CHR ''3''" "digit 4 = CHR ''4''"
  "digit 5 = CHR ''5''" "digit 6 = CHR ''6''" "digit 7 = CHR ''7''" "digit 8 = CHR ''8''" "digit 9 = CHR ''9''"
  by code_simp+

lemma isdigit_not_space: "isdigit c \<Longrightarrow> \<not> isspace c"
  by (auto simp: isdigit_def isspace_def)

lemma decimal_digits: "list_all isdigit (decimal n)" "decimal n \<noteq> []"
  by (induction n rule: decimal.induct)
    (subst decimal.simps, simp add: digit_facts; fail | subst decimal.simps, simp)+

lemma number_snoc: "number (ds @ [d]) = 10 * number ds + digit_value d"
  by (simp add: number_def)

lemma number_decimal: "number (decimal n) = n"
proof (induction n rule: decimal.induct)
  case (1 n)
  show ?case
  proof (cases "n < 10")
    case True
    then show ?thesis
      by (subst decimal.simps) (simp add: number_def digit_facts)
  next
    case False
    with 1 show ?thesis
      by (subst decimal.simps) (simp add: number_snoc digit_facts)
  qed
qed

text \<open>What may follow a number in the input.\<close>

definition stops :: "string \<Rightarrow> bool" where
  "stops r \<longleftrightarrow> (case r of [] \<Rightarrow> True | c # _ \<Rightarrow> \<not> isdigit c)"

lemma decimal_span:
  assumes "stops r"
  shows "takeWhile isdigit (decimal n @ r) = decimal n" "dropWhile isdigit (decimal n @ r) = r"
proof -
  have all: "\<And>x. x \<in> set (decimal n) \<Longrightarrow> isdigit x"
    using decimal_digits(1) [of n] by (simp add: list_all_iff)
  have "takeWhile isdigit r = []" "dropWhile isdigit r = r"
    using assms by (cases r; simp add: stops_def)+
  then show "takeWhile isdigit (decimal n @ r) = decimal n" "dropWhile isdigit (decimal n @ r) = r"
    using all by (simp_all add: takeWhile_append2 dropWhile_append2)
qed

lemma scan_number_decimal:
  assumes "list_all isspace sp" "stops r"
  shows "scan_number (sp @ decimal n @ r) = Got (False, n) r"
proof -
  obtain c cs where c: "decimal n = c # cs" "isdigit c"
    using decimal_digits [of n] by (cases "decimal n") auto
  then have "skip_space (sp @ decimal n @ r) = decimal n @ r"
    using assms(1) isdigit_not_space [of c]
    by (simp add: skip_space_def dropWhile_append2 list_all_iff)
  moreover have "scan_sign (decimal n @ r) = (False, decimal n @ r)"
    using c by (auto simp: scan_sign_def isdigit_def)
  ultimately show ?thesis
    using decimal_span [OF assms(2), of n] number_decimal [of n] c by (simp add: scan_number_def)
qed

end
