(* ===== verification/Trace.thy ===== *)
theory Trace
  imports Ranges Scanf
begin

text \<open>
  Traces of allocator requests (\<open>mdriver.c\<close>): the data types, the arrays a trace holds, and
  the parser \<open>read_trace\<close>. An array is a list of the length it was allocated with; reading
  or writing it out of bounds has no defined result, and neither has reading an element of
  \<open>blocks\<close> or \<open>block_sizes\<close> before the first write (\<open>None\<close> in the list).
\<close>

section \<open>Data types\<close>

datatype reqtype = ALLOC | FREE | REALLOC

record traceop_t =
  op_type :: reqtype
  op_index :: u32
  op_size :: u32

record trace_t =
  sugg_heapsize :: u32
  num_ids :: u32
  num_ops :: u32
  weight :: u32
  ops :: "traceop_t list"
  blocks :: "addr option list"
  block_sizes :: "u32 option list"

text \<open>
  The length of an array of \<open>n\<close> elements of \<open>esize\<close> bytes: the argument of \<open>malloc\<close> is a
  product of two 32-bit numbers. A \<open>traceop_t\<close> has 12 bytes, a pointer and a \<open>size_t\<close> 4.
\<close>

definition array_length :: "u32 \<Rightarrow> u32 \<Rightarrow> nat" where
  "array_length n esize = unat (n * esize) div unat esize"

text \<open>The subscript is an \<open>int\<close>.\<close>

definition in_bounds :: "u32 \<Rightarrow> 'b list \<Rightarrow> bool" where
  "in_bounds i xs \<longleftrightarrow> 0 \<le> sint i \<and> sint i < int (length xs)"

definition get_elem :: "'b option list \<Rightarrow> u32 \<Rightarrow> 'b option" where
  "get_elem xs i = (if in_bounds i xs then xs ! unat i else None)"

definition set_elem :: "u32 \<Rightarrow> 'b \<Rightarrow> 'b option list \<Rightarrow> 'b option list option" where
  "set_elem i v xs = (if in_bounds i xs then Some (xs[unat i := Some v]) else None)"

section \<open>\<open>read_trace\<close>\<close>

text \<open>
  The variables of the loop: \<open>index\<close>, \<open>size\<close> and \<open>max_index\<close>, with the part of the array
  \<open>ops\<close> written so far.
\<close>

record reader =
  rd_index :: u32
  rd_size :: u32
  rd_max :: u32
  rd_ops :: "traceop_t list"

text \<open>\<open>max_index = (index > max_index) ? index : max_index;\<close>\<close>

definition raise_max :: "reader \<Rightarrow> reader" where
  "raise_max r = r\<lparr>rd_max := (if rd_index r > rd_max r then rd_index r else rd_max r)\<rparr>"

text \<open>Writing \<open>ops[op_index]\<close>: \<open>None\<close> when the array of \<open>n\<close> elements is full.\<close>

definition put_op :: "u32 \<Rightarrow> traceop_t \<Rightarrow> reader \<Rightarrow> reader option" where
  "put_op n x r = (if length (rd_ops r) < array_length n 12 then Some (r\<lparr>rd_ops := rd_ops r @ [x]\<rparr>) else None)"

text \<open>
  The \<open>switch\<close> in the loop, on the first character of the word; \<open>inp\<close> is the rest of the
  file. \<open>junk\<close> is what \<open>malloc\<close> left in the array; a free request does not set \<open>size\<close>.
\<close>

definition read_request :: "string \<Rightarrow> u32 \<Rightarrow> (nat \<Rightarrow> u32) \<Rightarrow> char \<Rightarrow> string \<Rightarrow> reader \<Rightarrow> (exit + string \<times> reader) option" where
  "read_request path n junk c inp r =
     (if c = CHR ''a'' then do {
        (i, sz, inp) \<leftarrow> fscanf_u_u (rd_index r) (rd_size r) inp;
        r \<leftarrow> put_op n \<lparr>op_type = ALLOC, op_index = i, op_size = sz\<rparr> (raise_max (r\<lparr>rd_index := i, rd_size := sz\<rparr>));
        Some (Inr (inp, r)) }
      else if c = CHR ''r'' then do {
        (i, sz, inp) \<leftarrow> fscanf_u_u (rd_index r) (rd_size r) inp;
        r \<leftarrow> put_op n \<lparr>op_type = REALLOC, op_index = i, op_size = sz\<rparr> (raise_max (r\<lparr>rd_index := i, rd_size := sz\<rparr>));
        Some (Inr (inp, r)) }
      else if c = CHR ''f'' then do {
        (i, inp) \<leftarrow> fscanf_ud (rd_index r) inp;
        r \<leftarrow> put_op n \<lparr>op_type = FREE, op_index = i, op_size = junk (length (rd_ops r))\<rparr> (r\<lparr>rd_index := i\<rparr>);
        Some (Inr (inp, r)) }
      else Some (Inl (Exit 1 (line (''Bogus type character ('' @ [c] @ '') in tracefile '' @ path)))))"

text \<open>\<open>while (fscanf(tracefile, "%s", type) != EOF)\<close>; the buffer \<open>type\<close> has \<open>MAXLINE\<close> characters.\<close>

lemma read_request_length:
  "read_request path n junk c inp r = Some (Inr (inp', r')) \<Longrightarrow> length inp' \<le> length inp"
  by (auto simp: read_request_def bind_eq_Some_conv split: if_splits dest: fscanf_length)

function read_requests :: "string \<Rightarrow> u32 \<Rightarrow> (nat \<Rightarrow> u32) \<Rightarrow> string \<Rightarrow> reader \<Rightarrow> (exit + reader) option" where
  "read_requests path n junk inp r =
     (case scan_word inp of
        Got w rest \<Rightarrow>
          (if length w \<ge> MAXLINE then None
           else case read_request path n junk (hd w) rest r of
             None \<Rightarrow> None
           | Some (Inl e) \<Rightarrow> Some (Inl e)
           | Some (Inr (inp, r)) \<Rightarrow> read_requests path n junk inp r)
      | _ \<Rightarrow> Some (Inr r))"
  by auto
termination
  by (relation "measure (\<lambda>(_, _, _, inp, _). length inp)")
    (auto dest!: read_request_length scan_word_length)

declare read_requests.simps [simp del]

text \<open>
  The four numbers at the beginning of the file, into a record that \<open>malloc\<close> has delivered
  with the contents \<open>raw\<close>.
\<close>

definition read_header :: "trace_t \<Rightarrow> string \<Rightarrow> (trace_t \<times> string) option" where
  "read_header raw inp = do {
     (sugg, inp) \<leftarrow> fscanf_d (sugg_heapsize raw) inp;
     (ids, inp) \<leftarrow> fscanf_d (num_ids raw) inp;
     (n, inp) \<leftarrow> fscanf_d (num_ops raw) inp;
     (w, inp) \<leftarrow> fscanf_d (weight raw) inp;
     Some (raw\<lparr>sugg_heapsize := sugg, num_ids := ids, num_ops := n, weight := w\<rparr>, inp) }"

text \<open>
  \<open>file\<close> has the characters of the file, and is \<open>None\<close> when it cannot be opened; \<open>memory\<close>
  says which of the four calls of \<open>malloc\<close> succeed, and \<open>sz0\<close> is the indeterminate first
  value of \<open>size\<close>.
\<close>

definition read_trace ::
  "string \<Rightarrow> (nat \<Rightarrow> bool) \<Rightarrow> trace_t \<Rightarrow> (nat \<Rightarrow> u32) \<Rightarrow> u32 \<Rightarrow> string option \<Rightarrow> (exit + trace_t) option" where
  "read_trace path memory raw junk sz0 file =
     (if \<not> memory 1 then Some (Inl (unix_error ''malloc 1 failed in read_trance''))
      else case file of
        None \<Rightarrow> Some (Inl (unix_error (''Could not open '' @ path @ '' in read_trace'')))
      | Some inp \<Rightarrow> do {
          (t, inp) \<leftarrow> read_header raw inp;
          if \<not> memory 2 then Some (Inl (unix_error ''malloc 2 failed in read_trace''))
          else if \<not> memory 3 then Some (Inl (unix_error ''malloc 3 failed in read_trace''))
          else if \<not> memory 4 then Some (Inl (unix_error ''malloc 4 failed in read_trace''))
          else case read_requests path (num_ops t) junk inp \<lparr>rd_index = 0, rd_size = sz0, rd_max = 0, rd_ops = []\<rparr> of
            None \<Rightarrow> None
          | Some (Inl e) \<Rightarrow> Some (Inl e)
          | Some (Inr r) \<Rightarrow>
              if rd_max r \<noteq> num_ids t - 1 then Some (Inl Abort)
              else if num_ops t \<noteq> of_nat (length (rd_ops r)) then Some (Inl Abort)
              else Some (Inr (t\<lparr>ops := rd_ops r,
                     blocks := replicate (array_length (num_ids t) 4) None,
                     block_sizes := replicate (array_length (num_ids t) 4) None\<rparr>)) })"

text \<open>\<open>free_trace\<close> gives the four objects back to the C library.\<close>

definition free_trace :: "('obj \<Rightarrow> 'env \<Rightarrow> 'env) \<Rightarrow> 'obj \<Rightarrow> 'obj \<Rightarrow> 'obj \<Rightarrow> 'obj \<Rightarrow> 'env \<Rightarrow> 'env" where
  "free_trace libc_free ops_obj blocks_obj sizes_obj trace_obj env =
     libc_free trace_obj (libc_free sizes_obj (libc_free blocks_obj (libc_free ops_obj env)))"

section \<open>What the parser guarantees\<close>

text \<open>An array of 12-byte elements that \<open>malloc\<close> can deliver has fewer than \<open>2 ^ 31\<close> of them.\<close>

lemma array_length_12: "array_length n 12 < 2 ^ 31"
proof -
  have "unat (n * 12) < 2 ^ 32"
    using unsigned_less [of "n * 12"] by simp
  then have "unat (n * 12) div 12 < 2 ^ 32 div 12 + 1"
    by (simp add: div_less_iff_less_mult)
  then show ?thesis
    by (simp add: array_length_def)
qed

definition indexed :: "reader \<Rightarrow> bool" where
  "indexed r \<longleftrightarrow> (\<forall>x \<in> set (rd_ops r). op_type x \<noteq> FREE \<longrightarrow> op_index x \<le> rd_max r)"

lemma read_request_step:
  assumes "read_request path n junk c inp r = Some (Inr (inp', r'))" "indexed r"
  shows "indexed r' \<and> length (rd_ops r') \<le> array_length n 12"
  using assms unfolding read_request_def put_op_def raise_max_def indexed_def
  by (auto simp: bind_eq_Some_conv split: if_splits)

lemma read_requests_inv:
  assumes "read_requests path n junk inp r = Some (Inr r')" "indexed r" "length (rd_ops r) \<le> array_length n 12"
  shows "indexed r' \<and> length (rd_ops r') \<le> array_length n 12"
  using assms
proof (induction path n junk inp r rule: read_requests.induct)
  case (1 path n junk inp r)
  show ?case
  proof (cases "scan_word inp")
    case (Got w rest)
    with 1(2) obtain inp1 r1 where r1: "read_request path n junk (hd w) rest r = Some (Inr (inp1, r1))"
      "read_requests path n junk inp1 r1 = Some (Inr r')" "\<not> length w \<ge> MAXLINE"
      by (subst (asm) read_requests.simps) (auto split: option.splits sum.splits if_splits)
    with read_request_step [OF r1(1) 1(3)] 1(1) [OF Got r1(3,1) refl refl] show ?thesis
      by blast
  qed (use 1(2-4) in \<open>subst (asm) read_requests.simps, simp\<close>)+
qed

lemma read_trace_result:
  assumes "read_trace path memory raw junk sz0 file = Some (Inr t)"
  shows "sint (num_ops t) = int (length (ops t))" "length (block_sizes t) = length (blocks t)"
    "\<And>x. x \<in> set (ops t) \<Longrightarrow> op_type x \<noteq> FREE \<Longrightarrow> op_index x \<le> num_ids t - 1"
proof -
  obtain h inp r where
    r: "read_requests path (num_ops h) junk inp \<lparr>rd_index = 0, rd_size = sz0, rd_max = 0, rd_ops = []\<rparr> = Some (Inr r)"
    and eq: "rd_max r = num_ids h - 1" "num_ops h = of_nat (length (rd_ops r))"
    and t: "t = h\<lparr>ops := rd_ops r, blocks := replicate (array_length (num_ids h) 4) None,
      block_sizes := replicate (array_length (num_ids h) 4) None\<rparr>"
    using assms unfolding read_trace_def
    by (auto simp: bind_eq_Some_conv split: if_splits option.splits sum.splits)
  from read_requests_inv [OF r] have inv: "indexed r" "length (rd_ops r) \<le> array_length (num_ops h) 12"
    by (simp_all add: indexed_def)
  then have "length (rd_ops r) < 2 ^ 31"
    using array_length_12 [of "num_ops h"] by linarith
  then show "sint (num_ops t) = int (length (ops t))"
    unfolding t by (simp add: eq(2) sint_nonneg_word32)
  show "length (block_sizes t) = length (blocks t)"
    by (simp add: t)
  show "op_index x \<le> num_ids t - 1" if "x \<in> set (ops t)" "op_type x \<noteq> FREE" for x
    using inv(1) that eq(1) by (auto simp: t indexed_def)
qed

end
