(* ===== verification/Driver.thy ===== *)
theory Driver
  imports Trace Package
begin

text \<open>
  The evaluation routines of \<open>mdriver.c\<close>, for an arbitrary malloc package: correctness,
  space utilization and the request loop that is timed; and the same for the C library's
  allocator. The \<open>switch\<close> over a request is one function per case, the loop is
  \<open>for_ops\<close>. A state is the trace (its arrays are written) with the driver.
\<close>

section \<open>Control flow\<close>

text \<open>
  What one iteration does: go on, return from the function, or end the process. The whole
  is \<open>None\<close> when the code has no defined behaviour.
\<close>

datatype 's flow = Next 's | Return int 's | Stop exit 's

text \<open>
  The loop \<open>for (i = 0; i < num_ops; i++)\<close>, at \<open>i\<close> with \<open>n\<close> iterations and the array
  elements from \<open>i\<close> on left.
\<close>

fun for_ops :: "(int \<Rightarrow> traceop_t \<Rightarrow> 's \<Rightarrow> 's flow option) \<Rightarrow> int \<Rightarrow> nat \<Rightarrow> traceop_t list \<Rightarrow> 's
    \<Rightarrow> 's flow option" where
  "for_ops body i 0 xs s = Some (Next s)"
| "for_ops body i (Suc n) [] s = None"
| "for_ops body i (Suc n) (x # xs) s =
     (case body i x s of
        Some (Next s) \<Rightarrow> for_ops body (i + 1) n xs s
      | r \<Rightarrow> r)"

definition run_ops :: "(int \<Rightarrow> traceop_t \<Rightarrow> 's \<Rightarrow> 's flow option) \<Rightarrow> trace_t \<Rightarrow> 's \<Rightarrow> 's flow option" where
  "run_ops body t s = for_ops body 0 (nat (sint (num_ops t))) (ops t) s"

type_synonym 'a state = "trace_t \<times> 'a driver"

text \<open>\<open>trace->blocks[index] = p; trace->block_sizes[index] = size;\<close>\<close>

definition set_block :: "u32 \<Rightarrow> addr \<Rightarrow> trace_t \<Rightarrow> trace_t option" where
  "set_block i p t = map_option (\<lambda>bs. t\<lparr>blocks := bs\<rparr>) (set_elem i p (blocks t))"

definition set_block_size :: "u32 \<Rightarrow> u32 \<Rightarrow> trace_t \<Rightarrow> trace_t option" where
  "set_block_size i n t = map_option (\<lambda>bs. t\<lparr>block_sizes := bs\<rparr>) (set_elem i n (block_sizes t))"

section \<open>\<open>eval_mm_valid\<close>\<close>

text \<open>\<open>index & 0xFF\<close>, an \<open>int\<close> between 0 and 255.\<close>

definition fill :: "u32 \<Rightarrow> u32" where
  "fill i = i AND 0xFF"

definition valid_alloc :: "'a package \<Rightarrow> bool \<Rightarrow> int \<Rightarrow> int \<Rightarrow> u32 \<Rightarrow> u32 \<Rightarrow> 'a state
    \<Rightarrow> 'a state flow option" where
  "valid_alloc pk node tracenum i index sz = (\<lambda>(t, d). do {
     (p, m) \<leftarrow> pk_malloc pk sz (mach d);
     let d = d\<lparr>mach := m\<rparr>;
     if p = NULL then Some (Return 0 (t, malloc_error tracenum i Malloc_Failed d))
     else case add_range node p sz tracenum i d of
       Inl e \<Rightarrow> Some (Stop e (t, d))
     | Inr (r, d) \<Rightarrow>
        if r = 0 then Some (Return 0 (t, d))
        else do {
          m \<leftarrow> memset p (ucast (fill index)) sz (mach d);
          let d = d\<lparr>mach := m\<rparr>;
          t \<leftarrow> set_block index p t;
          t \<leftarrow> set_block_size index sz t;
          Some (Next (t, d)) } })"

text \<open>
  The loop that looks for the old data: \<open>n\<close> bytes from \<open>p + j\<close>. A \<open>char\<close> is signed, and is
  compared as an \<open>int\<close>.
\<close>

fun preserved :: "'a mem_scheme \<Rightarrow> addr \<Rightarrow> int \<Rightarrow> nat \<Rightarrow> nat \<Rightarrow> bool option" where
  "preserved s p c j 0 = Some True"
| "preserved s p c j (Suc n) = do {
     b \<leftarrow> read8 s (p + of_nat j);
     if sint b \<noteq> c then Some False else preserved s p c (Suc j) n }"

definition valid_realloc :: "'a package \<Rightarrow> bool \<Rightarrow> int \<Rightarrow> int \<Rightarrow> u32 \<Rightarrow> u32 \<Rightarrow> 'a state
    \<Rightarrow> 'a state flow option" where
  "valid_realloc pk node tracenum i index sz = (\<lambda>(t, d). do {
     oldp \<leftarrow> get_elem (blocks t) index;
     (newp, m) \<leftarrow> pk_realloc pk oldp sz (mach d);
     let d = d\<lparr>mach := m\<rparr>;
     if newp = NULL then Some (Return 0 (t, malloc_error tracenum i Realloc_Failed d))
     else let d = remove_range oldp d in
       case add_range node newp sz tracenum i d of
         Inl e \<Rightarrow> Some (Stop e (t, d))
       | Inr (r, d) \<Rightarrow>
          if r = 0 then Some (Return 0 (t, d))
          else do {
            oldsize \<leftarrow> get_elem (block_sizes t) index;
            let oldsize = (if sint sz < sint oldsize then sz else oldsize);
            ok \<leftarrow> preserved (mach d) newp (sint (fill index)) 0 (nat (sint oldsize));
            if \<not> ok then Some (Return 0 (t, malloc_error tracenum i Not_Preserved d))
            else do {
              m \<leftarrow> memset newp (ucast (fill index)) sz (mach d);
              let d = d\<lparr>mach := m\<rparr>;
              t \<leftarrow> set_block index newp t;
              t \<leftarrow> set_block_size index sz t;
              Some (Next (t, d)) } } })"

definition valid_free :: "'a package \<Rightarrow> u32 \<Rightarrow> 'a state \<Rightarrow> 'a state flow option" where
  "valid_free pk index = (\<lambda>(t, d). do {
     p \<leftarrow> get_elem (blocks t) index;
     let d = remove_range p d;
     m \<leftarrow> pk_free pk p (mach d);
     Some (Next (t, d\<lparr>mach := m\<rparr>)) })"

definition valid_op :: "'a package \<Rightarrow> (int \<Rightarrow> bool) \<Rightarrow> int \<Rightarrow> int \<Rightarrow> traceop_t \<Rightarrow> 'a state
    \<Rightarrow> 'a state flow option" where
  "valid_op pk nodes tracenum i x =
     (case op_type x of
        ALLOC \<Rightarrow> valid_alloc pk (nodes i) tracenum i (op_index x) (op_size x)
      | REALLOC \<Rightarrow> valid_realloc pk (nodes i) tracenum i (op_index x) (op_size x)
      | FREE \<Rightarrow> valid_free pk (op_index x))"

text \<open>\<open>nodes i\<close>: the C library finds memory for the range list element of request \<open>i\<close>.\<close>

definition eval_mm_valid :: "'a package \<Rightarrow> (int \<Rightarrow> bool) \<Rightarrow> int \<Rightarrow> 'a state \<Rightarrow> 'a state flow option" where
  "eval_mm_valid pk nodes tracenum = (\<lambda>(t, d). do {
     let d = d\<lparr>mach := mem_reset_brk (mach d)\<rparr>;
     let d = clear_ranges d;
     (r, m) \<leftarrow> pk_init pk (mach d);
     let d = d\<lparr>mach := m\<rparr>;
     if r < 0 then Some (Return 0 (t, malloc_error tracenum 0 Init_Failed d))
     else do {
       f \<leftarrow> run_ops (valid_op pk nodes tracenum) t (t, d);
       Some (case f of Next s \<Rightarrow> Return 1 s | f \<Rightarrow> f) } })"

section \<open>\<open>eval_mm_util\<close>\<close>

record totals =
  total_size :: int
  max_total_size :: int

text \<open>\<open>max_total_size = (total_size > max_total_size) ? total_size : max_total_size;\<close>\<close>

definition update_max :: "totals \<Rightarrow> totals" where
  "update_max c = c\<lparr>max_total_size :=
     (if total_size c > max_total_size c then total_size c else max_total_size c)\<rparr>"

definition util_alloc :: "'a package \<Rightarrow> u32 \<Rightarrow> u32 \<Rightarrow> 'a state \<times> totals \<Rightarrow> ('a state \<times> totals) flow option" where
  "util_alloc pk index sz = (\<lambda>((t, d), c). do {
     (p, m) \<leftarrow> pk_malloc pk sz (mach d);
     let d = d\<lparr>mach := m\<rparr>;
     if p = NULL then Some (Stop (app_error ''mm_malloc failed in eval_mm_util'') ((t, d), c))
     else do {
       t \<leftarrow> set_block index p t;
       t \<leftarrow> set_block_size index sz t;
       v \<leftarrow> int32 (total_size c + sint sz);
       Some (Next ((t, d), update_max (c\<lparr>total_size := v\<rparr>))) } })"

definition util_realloc :: "'a package \<Rightarrow> u32 \<Rightarrow> u32 \<Rightarrow> 'a state \<times> totals \<Rightarrow> ('a state \<times> totals) flow option" where
  "util_realloc pk index newsize = (\<lambda>((t, d), c). do {
     oldsize \<leftarrow> get_elem (block_sizes t) index;
     oldp \<leftarrow> get_elem (blocks t) index;
     (newp, m) \<leftarrow> pk_realloc pk oldp newsize (mach d);
     let d = d\<lparr>mach := m\<rparr>;
     if newp = NULL then Some (Stop (app_error ''mm_realloc failed in eval_mm_util'') ((t, d), c))
     else do {
       t \<leftarrow> set_block index newp t;
       t \<leftarrow> set_block_size index newsize t;
       w \<leftarrow> int32 (sint newsize - sint oldsize);
       v \<leftarrow> int32 (total_size c + w);
       Some (Next ((t, d), update_max (c\<lparr>total_size := v\<rparr>))) } })"

definition util_free :: "'a package \<Rightarrow> u32 \<Rightarrow> 'a state \<times> totals \<Rightarrow> ('a state \<times> totals) flow option" where
  "util_free pk index = (\<lambda>((t, d), c). do {
     sz \<leftarrow> get_elem (block_sizes t) index;
     p \<leftarrow> get_elem (blocks t) index;
     m \<leftarrow> pk_free pk p (mach d);
     v \<leftarrow> int32 (total_size c - sint sz);
     Some (Next ((t, d\<lparr>mach := m\<rparr>), c\<lparr>total_size := v\<rparr>)) })"

definition util_op :: "'a package \<Rightarrow> int \<Rightarrow> traceop_t \<Rightarrow> 'a state \<times> totals \<Rightarrow> ('a state \<times> totals) flow option" where
  "util_op pk i x =
     (case op_type x of
        ALLOC \<Rightarrow> util_alloc pk (op_index x) (op_size x)
      | REALLOC \<Rightarrow> util_realloc pk (op_index x) (op_size x)
      | FREE \<Rightarrow> util_free pk (op_index x))"

text \<open>
  The quotient of two \<open>double\<close>s: \<open>rnd\<close> is the rounding of the floating point unit; without
  a finite result (division by zero) the quotient is \<open>None\<close>. The conversions are exact.
\<close>

definition double_div :: "(real \<Rightarrow> real) \<Rightarrow> int \<Rightarrow> int \<Rightarrow> real option" where
  "double_div rnd a b = (if b = 0 then None else Some (rnd (of_int a / of_int b)))"

definition eval_mm_util :: "'a package \<Rightarrow> (real \<Rightarrow> real) \<Rightarrow> 'a state
    \<Rightarrow> (exit + real \<times> 'a state) option" where
  "eval_mm_util pk rnd = (\<lambda>(t, d). do {
     (r, m) \<leftarrow> pk_init pk (mem_reset_brk (mach d));
     let d = d\<lparr>mach := m\<rparr>;
     if r < 0 then Some (Inl (app_error ''mm_init failed in eval_mm_util''))
     else do {
       f \<leftarrow> run_ops (util_op pk) t ((t, d), \<lparr>total_size = 0, max_total_size = 0\<rparr>);
       case f of
         Stop e _ \<Rightarrow> Some (Inl e)
       | Return _ _ \<Rightarrow> None
       | Next ((t, d), c) \<Rightarrow> do {
           u \<leftarrow> double_div rnd (max_total_size c) (uint (mem_heapsize (mach d)));
           Some (Inr (u, (t, d))) } } })"

section \<open>\<open>eval_mm_speed\<close>\<close>

definition speed_op :: "'a package \<Rightarrow> int \<Rightarrow> traceop_t \<Rightarrow> 'a state \<Rightarrow> 'a state flow option" where
  "speed_op pk i x = (\<lambda>(t, d).
     case op_type x of
       ALLOC \<Rightarrow> do {
         (p, m) \<leftarrow> pk_malloc pk (op_size x) (mach d);
         let d = d\<lparr>mach := m\<rparr>;
         if p = NULL then Some (Stop (app_error ''mm_malloc error in eval_mm_speed'') (t, d))
         else do { t \<leftarrow> set_block (op_index x) p t; Some (Next (t, d)) } }
     | REALLOC \<Rightarrow> do {
         oldp \<leftarrow> get_elem (blocks t) (op_index x);
         (newp, m) \<leftarrow> pk_realloc pk oldp (op_size x) (mach d);
         let d = d\<lparr>mach := m\<rparr>;
         if newp = NULL then Some (Stop (app_error ''mm_realloc error in eval_mm_speed'') (t, d))
         else do { t \<leftarrow> set_block (op_index x) newp t; Some (Next (t, d)) } }
     | FREE \<Rightarrow> do {
         block \<leftarrow> get_elem (blocks t) (op_index x);
         m \<leftarrow> pk_free pk block (mach d);
         Some (Next (t, d\<lparr>mach := m\<rparr>)) })"

definition eval_mm_speed :: "'a package \<Rightarrow> 'a state \<Rightarrow> 'a state flow option" where
  "eval_mm_speed pk = (\<lambda>(t, d). do {
     (r, m) \<leftarrow> pk_init pk (mem_reset_brk (mach d));
     let d = d\<lparr>mach := m\<rparr>;
     if r < 0 then Some (Stop (app_error ''mm_init failed in eval_mm_speed'') (t, d))
     else run_ops (speed_op pk) t (t, d) })"

section \<open>The C library's allocator\<close>

text \<open>The three functions of the C library, over the state of the library's heap.\<close>

record 'e libc =
  lc_malloc :: "u32 \<Rightarrow> 'e \<Rightarrow> addr \<times> 'e"
  lc_free :: "addr \<Rightarrow> 'e \<Rightarrow> 'e"
  lc_realloc :: "addr \<Rightarrow> u32 \<Rightarrow> 'e \<Rightarrow> addr \<times> 'e"

definition libc_valid_op :: "'e libc \<Rightarrow> int \<Rightarrow> int \<Rightarrow> traceop_t \<Rightarrow> 'a state \<times> 'e
    \<Rightarrow> ('a state \<times> 'e) flow option" where
  "libc_valid_op lc tracenum i x = (\<lambda>((t, d), e).
     case op_type x of
       ALLOC \<Rightarrow>
         (let (p, e) = lc_malloc lc (op_size x) e in
          if p = NULL
          then Some (Stop (unix_error ''System message'') ((t, malloc_error tracenum i Libc_Malloc_Failed d), e))
          else do { t \<leftarrow> set_block (op_index x) p t; Some (Next ((t, d), e)) })
     | REALLOC \<Rightarrow> do {
         oldp \<leftarrow> get_elem (blocks t) (op_index x);
         let (newp, e) = lc_realloc lc oldp (op_size x) e;
         if newp = NULL
         then Some (Stop (unix_error ''System message'') ((t, malloc_error tracenum i Libc_Realloc_Failed d), e))
         else do { t \<leftarrow> set_block (op_index x) newp t; Some (Next ((t, d), e)) } }
     | FREE \<Rightarrow> do {
         p \<leftarrow> get_elem (blocks t) (op_index x);
         Some (Next ((t, d), lc_free lc p e)) })"

definition eval_libc_valid :: "'e libc \<Rightarrow> int \<Rightarrow> 'a state \<times> 'e \<Rightarrow> ('a state \<times> 'e) flow option" where
  "eval_libc_valid lc tracenum s = do {
     f \<leftarrow> run_ops (libc_valid_op lc tracenum) (fst (fst s)) s;
     Some (case f of Next s \<Rightarrow> Return 1 s | f \<Rightarrow> f) }"

definition libc_speed_op :: "'e libc \<Rightarrow> int \<Rightarrow> traceop_t \<Rightarrow> trace_t \<times> 'e \<Rightarrow> (trace_t \<times> 'e) flow option" where
  "libc_speed_op lc i x = (\<lambda>(t, e).
     case op_type x of
       ALLOC \<Rightarrow>
         (let (p, e) = lc_malloc lc (op_size x) e in
          if p = NULL then Some (Stop (unix_error ''malloc failed in eval_libc_speed'') (t, e))
          else do { t \<leftarrow> set_block (op_index x) p t; Some (Next (t, e)) })
     | REALLOC \<Rightarrow> do {
         oldp \<leftarrow> get_elem (blocks t) (op_index x);
         let (newp, e) = lc_realloc lc oldp (op_size x) e;
         if newp = NULL then Some (Stop (unix_error (line ''realloc failed in eval_libc_speed'')) (t, e))
         else do { t \<leftarrow> set_block (op_index x) newp t; Some (Next (t, e)) } }
     | FREE \<Rightarrow> do {
         block \<leftarrow> get_elem (blocks t) (op_index x);
         Some (Next (t, lc_free lc block e)) })"

definition eval_libc_speed :: "'e libc \<Rightarrow> trace_t \<times> 'e \<Rightarrow> (trace_t \<times> 'e) flow option" where
  "eval_libc_speed lc s = run_ops (libc_speed_op lc) (fst s) s"

end
