(* ===== verification/Driver_Loop.thy ===== *)
theory Driver_Loop
  imports Driver
begin

text \<open>
  The loop over the requests of a trace, which the evaluation routines share: invariants,
  early returns, simulation of one body by another, and the states on the way.
\<close>

section \<open>Runs of the request loop\<close>

text \<open>An invariant of one request is one of the loop.\<close>

lemma for_ops_inv:
  assumes "\<And>i x s s'. body i x s = Some (Next s') \<Longrightarrow> P s \<Longrightarrow> P s'"
    and "for_ops body i n xs s = Some (Next s')" "P s"
  shows "P s'"
  using assms(2,3)
proof (induction n arbitrary: i xs s)
  case (Suc n)
  then obtain x ys s1 where "xs = x # ys" "body i x s = Some (Next s1)"
    "for_ops body (i + 1) n ys s1 = Some (Next s')"
    by (cases xs) (auto split: option.split_asm flow.split_asm)
  with Suc assms(1) show ?case
    by blast
qed simp

text \<open>A loop that returns does so from one of its iterations.\<close>

lemma for_ops_return:
  assumes "\<And>i x s s'. body i x s = Some (Next s') \<Longrightarrow> P s \<Longrightarrow> P s'"
    and "\<And>i x s s'. body i x s = Some (Return r s') \<Longrightarrow> P s \<Longrightarrow> Q s'"
    and "for_ops body i n xs s = Some (Return r s')" "P s"
  shows "Q s'"
  using assms(3,4)
proof (induction n arbitrary: i xs s)
  case (Suc n)
  then obtain x ys where xs: "xs = x # ys"
    by (cases xs) auto
  from Suc.prems(1) consider s1 where "body i x s = Some (Next s1)" "for_ops body (i + 1) n ys s1 = Some (Return r s')"
    | "body i x s = Some (Return r s')"
    unfolding xs by (auto split: option.split_asm flow.split_asm)
  then show ?case
    by cases (use Suc assms(1,2) in blast)+
qed simp

text \<open>The loop of one body follows the loop of another whose steps it can match.\<close>

lemma for_ops_follow:
  assumes "\<And>i x s s1 t. R s t \<Longrightarrow> body i x s = Some (Next s1) \<Longrightarrow> \<exists>t1. body' i x t = Some (Next t1) \<and> R s1 t1"
    and "for_ops body i n xs s = Some (Next s1)" "R s t"
  shows "\<exists>t1. for_ops body' i n xs t = Some (Next t1) \<and> R s1 t1"
  using assms(2,3)
proof (induction n arbitrary: i xs s t)
  case (Suc n)
  obtain x ys where xs: "xs = x # ys"
    using Suc.prems(1) by (cases xs) auto
  then obtain s2 where s2: "body i x s = Some (Next s2)" "for_ops body (i + 1) n ys s2 = Some (Next s1)"
    using Suc.prems(1) by (auto split: option.split_asm flow.split_asm)
  obtain t2 where t2: "body' i x t = Some (Next t2)" "R s2 t2"
    using assms(1) [OF Suc.prems(2) s2(1)] by blast
  from Suc.IH [OF s2(2) t2(2)] t2(1) show ?case
    by (auto simp: xs)
qed simp

text \<open>The loop over one list after another.\<close>

lemma for_ops_append:
  "for_ops body i (length xs + n) (xs @ ys) s =
    (case for_ops body i (length xs) xs s of
       Some (Next s') \<Rightarrow> for_ops body (i + int (length xs)) n ys s'
     | r \<Rightarrow> r)"
  by (induction xs arbitrary: i s) (auto simp: add.assoc split: option.split flow.split)

text \<open>The states before and after request \<open>k\<close> of a run that gets through all of them.\<close>

lemma for_ops_reaches:
  assumes "for_ops body i n xs s = Some (Next s')" "k < n"
  shows "\<exists>u v. for_ops body i k xs s = Some (Next u) \<and> body (i + int k) (xs ! k) u = Some (Next v)
    \<and> for_ops body i (Suc k) xs s = Some (Next v) \<and> k < length xs"
  using assms
proof (induction body i n xs s arbitrary: k rule: for_ops.induct)
  case (3 body i n x xs s)
  then obtain w where w: "body i x s = Some (Next w)" "for_ops body (i + 1) n xs w = Some (Next s')"
    by (auto split: option.splits flow.splits)
  show ?case
  proof (cases k)
    case 0
    with w show ?thesis
      by simp
  next
    case (Suc j)
    with 3(1) [OF w(1) refl w(2), of j] 3(3) w show ?thesis
      by (auto simp: add.assoc)
  qed
qed simp_all

end
