(* ===== verification/Driver_Valid.thy ===== *)
theory Driver_Valid
  imports Driver_Loop
begin

text \<open>
  \<open>eval_mm_valid\<close> against the contract of a malloc package: on a well-formed trace it
  accepts a package that keeps the contract, unless the package runs out of memory; and it
  accepts a package with an exact specification just when the specified heap serves every
  request. The proof keeps, for every live id of the trace, where its block is, what its
  capacity is and how much of it the trace uses.
\<close>

section \<open>Well-formed traces\<close>

text \<open>
  \<open>L\<close> holds the ids with a block: an id is allocated once before it is reallocated or
  freed, ids are within the arrays, sizes are positive and at most \<open>limit\<close>.
\<close>

fun trace_wf :: "nat \<Rightarrow> nat \<Rightarrow> nat set \<Rightarrow> traceop_t list \<Rightarrow> bool" where
  "trace_wf limit ids L [] \<longleftrightarrow> True"
| "trace_wf limit ids L (x # xs) \<longleftrightarrow>
     unat (op_index x) < ids \<and>
     (case op_type x of
        ALLOC \<Rightarrow> unat (op_index x) \<notin> L \<and> 0 < unat (op_size x) \<and> unat (op_size x) \<le> limit
          \<and> trace_wf limit ids (insert (unat (op_index x)) L) xs
      | REALLOC \<Rightarrow> unat (op_index x) \<in> L \<and> 0 < unat (op_size x) \<and> unat (op_size x) \<le> limit
          \<and> trace_wf limit ids L xs
      | FREE \<Rightarrow> unat (op_index x) \<in> L \<and> trace_wf limit ids (L - {unat (op_index x)}) xs)"

text \<open>Every reallocated id has a fill byte that is not negative as a \<open>char\<close>.\<close>

definition fills_plain :: "traceop_t list \<Rightarrow> bool" where
  "fills_plain xs \<longleftrightarrow>
     list_all (\<lambda>x. op_type x = REALLOC \<longrightarrow> unat (op_index x) mod 256 < 128) xs"

text \<open>How much memory the requests can use up at most, \<open>slack\<close> bytes of overhead each.\<close>

fun demand :: "nat \<Rightarrow> traceop_t list \<Rightarrow> nat" where
  "demand slack [] = 0"
| "demand slack (x # xs) =
     (if op_type x = FREE then 0 else unat (op_size x) + slack) + demand slack xs"

text \<open>
  Whether the requests fit into the heap: they are run on the abstract heap of the package,
  with every freed block given back. \<open>N\<close> has the places of the blocks by their ids.
\<close>

definition heap_step :: "'h heap_spec \<Rightarrow> traceop_t \<Rightarrow> 'h \<times> (nat \<Rightarrow> nat) \<Rightarrow> ('h \<times> (nat \<Rightarrow> nat)) option" where
  "heap_step hs x = (\<lambda>(h, N).
     let k = unat (op_index x); n = unat (op_size x) in
     case op_type x of
       ALLOC \<Rightarrow> map_option (\<lambda>(e, h'). (h', N(k := e))) (hs_malloc hs n h)
     | REALLOC \<Rightarrow> map_option (\<lambda>(e, h'). (h', N(k := e))) (hs_realloc hs (N k) n h)
     | FREE \<Rightarrow> Some (hs_free hs (N k) h, N))"

fun heap_run :: "'h heap_spec \<Rightarrow> traceop_t list \<Rightarrow> 'h \<times> (nat \<Rightarrow> nat) \<Rightarrow> ('h \<times> (nat \<Rightarrow> nat)) option" where
  "heap_run hs [] h = Some h"
| "heap_run hs (x # xs) h = Option.bind (heap_step hs x h) (heap_run hs xs)"

lemma heap_run_append: "heap_run hs (xs @ ys) h = Option.bind (heap_run hs xs h) (heap_run hs ys)"
  by (induction xs arbitrary: h) (auto split: Option.bind_splits)

definition serves :: "'h heap_spec \<Rightarrow> traceop_t list \<Rightarrow> bool" where
  "serves hs xs \<longleftrightarrow> heap_run hs xs (hs_init hs, \<lambda>_. 0) \<noteq> None"

section \<open>The pieces of an iteration\<close>

lemma set_elem_nat:
  assumes "k < length xs" "length xs \<le> 2 ^ 31"
  shows "set_elem (of_nat k) v xs = Some (xs[k := Some v])" "get_elem xs (of_nat k) = xs ! k"
proof -
  have "k < 2 ^ 31"
    using assms by simp
  then have "sint (of_nat k :: u32) = int k" "unat (of_nat k :: u32) = k"
    by (auto intro: sint_nonneg_word32 unat_word32)
  with assms(1) show "set_elem (of_nat k) v xs = Some (xs[k := Some v])" "get_elem xs (of_nat k) = xs ! k"
    by (simp_all add: set_elem_def get_elem_def in_bounds_def)
qed

text \<open>The range of a block of \<open>n\<close> bytes at \<open>p\<close>.\<close>

definition range_of :: "nat \<Rightarrow> nat \<Rightarrow> range_t" where
  "range_of p n = \<lparr>r_lo = of_nat p, r_hi = of_nat (p + n - 1)\<rparr>"

lemma add_range_accepts:
  assumes "lo (mach d) \<le> p" "p + n \<le> brk (mach d)" "8 dvd p" "0 < n" "n < 2 ^ 31"
    and apart: "\<And>r. r \<in> set (ranges d) \<Longrightarrow>
      \<exists>q m. r = range_of q m \<and> 0 < m \<and> q + m \<le> brk (mach d) \<and> (p + n \<le> q \<or> q + m \<le> p)"
  shows "add_range True (of_nat p) (of_nat n) tracenum i d
    = Inr (1, d\<lparr>ranges := range_of p n # ranges d\<rparr>)"
proof -
  let ?s = "mach d"
  have b: "brk ?s < 2 ^ 32"
    using unsigned_less [of "mem_brk ?s"] by simp
  have last: "(of_nat q :: addr) + of_nat m - 1 = of_nat (q + m - 1)" if "0 < m" for q m
    using that by (cases m) (simp_all add: of_nat_add)
  have pos: "0 < brk ?s"
    using assms(2,4) by linarith
  have "mem_heap_hi ?s = of_nat (brk ?s) - 1"
    by (simp add: mem_heap_hi_def)
  also have "\<dots> = of_nat (brk ?s - 1)"
    using last [OF pos, of 0] by simp
  finally have top: "mem_heap_hi ?s = of_nat (brk ?s - 1)" .
  have inside: "\<not> ((of_nat p :: addr) < mem_heap_lo ?s \<or> of_nat p > mem_heap_hi ?s
      \<or> of_nat (p + n - 1) < mem_heap_lo ?s \<or> of_nat (p + n - 1) > mem_heap_hi ?s)"
    using assms(1-4) b by (auto simp: top mem_heap_lo_def word_less_nat_alt unat_word32)
  have "find_overlap (of_nat p) (of_nat (p + n - 1)) (ranges d) = None"
  proof (rule find_overlap_disjoint)
    show "of_nat (p + n - 1) < r_lo r \<or> r_hi r < of_nat p" if "r \<in> set (ranges d)" for r
      using apart [OF that] assms(2,4) b by (auto simp: range_of_def word_less_nat_alt unat_word32)
    show "(of_nat p :: addr) \<le> of_nat (p + n - 1)"
      using assms(2,4) b by (simp add: word_le_nat_alt unat_word32)
  qed
  moreover have "IS_ALIGNED (of_nat p)"
    using assms(2,3) b by (simp add: IS_ALIGNED_def ALIGNMENT_def unat_word32)
  moreover have "0 < sint (of_nat n :: u32)"
    using assms(4,5) by (simp add: sint_nonneg_word32)
  ultimately show ?thesis
    using inside assms(4) by (simp add: add_range_def Let_def last range_of_def)
qed

lemma preserved_value:
  assumes "\<And>i. i < n \<Longrightarrow> byte_at s (p + j + i) = b" "lo s \<le> p + j" "p + j + n \<le> hi s"
  shows "preserved s (of_nat p) c j n = Some (n = 0 \<or> sint b = c)"
  using assms
proof (induction n arbitrary: j)
  case (Suc n)
  have "(of_nat p :: addr) + of_nat j = of_nat (p + j)"
    by (simp add: of_nat_add)
  then have "read8 s (of_nat p + of_nat j) = Some b"
    using read8_nat [of s "p + j"] Suc.prems(1) [of 0] Suc.prems(2,3) by simp
  moreover have "preserved s (of_nat p) c (Suc j) n = Some (n = 0 \<or> sint b = c)"
    by (rule Suc.IH) (use Suc.prems(1) [of "Suc _"] Suc.prems in simp_all)
  ultimately show ?case
    by auto
qed simp

lemma fill_nat: "k < 2 ^ 32 \<Longrightarrow> fill (of_nat k) = of_nat (k mod 256)"
proof -
  assume "k < 2 ^ 32"
  have "unat (take_bit 8 (of_nat k :: u32)) = k mod 256"
    using \<open>k < 2 ^ 32\<close> by (simp add: take_bit_eq_mod unat_mod_distrib unat_word32)
  then have "(of_nat k :: u32) AND mask 8 = of_nat (k mod 256)"
    by (intro word_unat_eq_iff [THEN iffD2]) (simp add: take_bit_eq_mask unat_word32)
  then show ?thesis
    by (simp add: fill_def mask_eq_exp_minus_1)
qed

lemma fill_int: "k < 2 ^ 32 \<Longrightarrow> sint (fill (of_nat k)) = int (k mod 256)"
  by (simp only: fill_nat) (simp add: sint_nonneg_word32)

lemma fill_byte: "k < 2 ^ 32 \<Longrightarrow> ucast (fill (of_nat k)) = (of_nat (k mod 256) :: u8)"
  by (simp only: fill_nat) (simp add: unsigned_of_nat take_bit_nat_eq_self)

text \<open>A fill byte reads back as itself when it is not negative as a \<open>char\<close>.\<close>

lemma sint_byte:
  assumes "k < 256"
  shows "sint (of_nat k :: u8) = int k \<longleftrightarrow> k < 128"
proof -
  have "sint (of_nat k :: u8) < 128"
    using sint_lt [of "of_nat k :: u8"] by simp
  moreover have "sint (of_nat k :: u8) = int k" if "k < 128"
    using that by (simp add: signed_of_nat signed_take_bit_eq_if_positive bit_iff_odd take_bit_int_eq_self)
  ultimately show ?thesis
    by auto
qed

section \<open>What the driver knows about the blocks\<close>

text \<open>
  The ghost map \<open>M\<close> gives address, capacity and used bytes of the block of every live id.
  \<open>placed\<close>: the blocks are different members of \<open>A\<close> and the arrays of the trace hold them.
  \<open>filled\<close>: their used bytes carry the fill of their id. \<open>ranged\<close>: the range list has
  exactly their ranges.
\<close>

type_synonym ghost = "nat \<Rightarrow> (nat \<times> nat \<times> nat) option"

definition placed :: "(nat \<times> nat) set \<Rightarrow> ghost \<Rightarrow> trace_t \<Rightarrow> bool" where
  "placed A M t \<longleftrightarrow>
     (\<forall>k p c n. M k = Some (p, c, n) \<longrightarrow>
        (p, c) \<in> A \<and> 0 < n \<and> n \<le> c \<and> n < 2 ^ 31 \<and> p + c < 2 ^ 32
        \<and> k < length (blocks t) \<and> blocks t ! k = Some (of_nat p)
        \<and> k < length (block_sizes t) \<and> block_sizes t ! k = Some (of_nat n))
     \<and> (\<forall>k p c n j q e m. M k = Some (p, c, n) \<longrightarrow> M j = Some (q, e, m) \<longrightarrow> p = q \<longrightarrow> k = j)"

definition filled :: "ghost \<Rightarrow> 'a mem_scheme \<Rightarrow> bool" where
  "filled M s \<longleftrightarrow>
     (\<forall>k p c n. M k = Some (p, c, n) \<longrightarrow> (\<forall>i < n. byte_at s (p + i) = of_nat (k mod 256)))"

definition ranged :: "ghost \<Rightarrow> range_t list \<Rightarrow> bool" where
  "ranged M rs \<longleftrightarrow>
     set rs = {range_of p n |k p c n. M k = Some (p, c, n)} \<and> distinct (map r_lo rs)"

lemma placedD:
  assumes "placed A M t" "M k = Some (p, c, n)"
  shows "(p, c) \<in> A" "0 < n" "n \<le> c" "n < 2 ^ 31" "p + c < 2 ^ 32"
    "k < length (blocks t)" "blocks t ! k = Some (of_nat p)"
    "k < length (block_sizes t)" "block_sizes t ! k = Some (of_nat n)"
  using assms unfolding placed_def by blast+

lemma placed_inj: "placed A M t \<Longrightarrow> M k = Some (p, c, n) \<Longrightarrow> M j = Some (p, e, m) \<Longrightarrow> k = j"
  unfolding placed_def by blast

lemma placed_remove:
  assumes "placed A M t" "M k = Some (p, c, n)"
  shows "placed (A - {(p, c)}) (M(k := None)) t"
  using assms placed_inj [OF assms] unfolding placed_def by (auto split: if_splits)

lemma placed_insert:
  assumes "placed B M t" "(p, c) \<notin> B" "M k = None" "k < length (blocks t)" "k < length (block_sizes t)"
    "0 < n" "n \<le> c" "n < 2 ^ 31" "p + c < 2 ^ 32" "\<And>e. (p, e) \<in> insert (p, c) B \<Longrightarrow> e = c"
  shows "placed (insert (p, c) B) (M(k \<mapsto> (p, c, n)))
    (t\<lparr>blocks := (blocks t)[k := Some (of_nat p)], block_sizes := (block_sizes t)[k := Some (of_nat n)]\<rparr>)"
proof -
  have ne: "q \<noteq> p" if "M j = Some (q, e, m)" for j q e m
    using placedD(1) [OF assms(1) that] assms(2,10) by auto
  show ?thesis
    unfolding placed_def
  proof (intro conjI allI impI)
    fix j q e m
    assume "(M(k \<mapsto> (p, c, n))) j = Some (q, e, m)"
    then consider "j = k" "q = p" "e = c" "m = n" | "j \<noteq> k" "M j = Some (q, e, m)"
      by (auto split: if_splits)
    then show "(q, e) \<in> insert (p, c) B" "0 < m" "m \<le> e" "m < 2 ^ 31" "q + e < 2 ^ 32"
      by (cases; use assms(6-9) placedD [OF assms(1), of j q e m] in simp)+
    let ?t = "t\<lparr>blocks := (blocks t)[k := Some (of_nat p)], block_sizes := (block_sizes t)[k := Some (of_nat n)]\<rparr>"
    from \<open>(M(k \<mapsto> (p, c, n))) j = Some (q, e, m)\<close>
    show "j < length (blocks ?t)" "blocks ?t ! j = Some (of_nat q)"
      "j < length (block_sizes ?t)" "block_sizes ?t ! j = Some (of_nat m)"
      by (cases "j = k"; use assms(4,5) placedD [OF assms(1), of j q e m] in simp)+
  next
    fix i q e m j q' e' m'
    assume "(M(k \<mapsto> (p, c, n))) i = Some (q, e, m)" "(M(k \<mapsto> (p, c, n))) j = Some (q', e', m')" "q = q'"
    then show "i = j"
      using ne placed_inj [OF assms(1)] by (auto split: if_splits)
  qed
qed

lemma filledD: "filled M s \<Longrightarrow> M k = Some (p, c, n) \<Longrightarrow> i < n \<Longrightarrow> byte_at s (p + i) = of_nat (k mod 256)"
  unfolding filled_def by blast

lemma filled_kept:
  assumes "filled M s" "placed A M t" "kept s u A"
  shows "filled M u"
  unfolding filled_def
proof (intro allI impI)
  fix k p c n i
  assume k: "M k = Some (p, c, n)" and i: "i < n"
  have "byte_at u (p + i) = byte_at s (p + i)"
    using keptD [OF assms(3) placedD(1) [OF assms(2) k]] placedD(3) [OF assms(2) k] i by simp
  then show "byte_at u (p + i) = of_nat (k mod 256)"
    using filledD [OF assms(1) k i] by simp
qed

lemma filled_remove: "filled M s \<Longrightarrow> filled (M(k := None)) s"
  unfolding filled_def by auto

lemma ranged_remove:
  assumes "ranged M rs" "placed A M t" "M k = Some (p, c, n)"
  shows "ranged (M(k := None)) (remove_from (of_nat p) rs)"
proof -
  have bnd: "q < 2 ^ 32" if "M j = Some (q, e, m)" for j q e m
    using placedD(5) [OF assms(2) that] by simp
  have "r_lo (range_of q m) = of_nat p \<longleftrightarrow> j = k" if "M j = Some (q, e, m)" for j q e m
    using bnd [OF that] bnd [OF assms(3)] placed_inj [OF assms(2) that, of k] assms(3) that
    by (auto simp: range_of_def of_nat_word32_eq)
  then have "{r \<in> set rs. r_lo r \<noteq> of_nat p} = {range_of q m |j q e m. (M(k := None)) j = Some (q, e, m)}"
    using assms(1) unfolding ranged_def by (auto split: if_splits)
  with assms(1) show ?thesis
    by (simp add: ranged_def set_remove_from distinct_remove_from)
qed

lemma ranged_insert:
  assumes "ranged M rs" "M k = None" "p < 2 ^ 32"
    and "\<And>j q e m. M j = Some (q, e, m) \<Longrightarrow> q \<noteq> p \<and> q < 2 ^ 32"
  shows "ranged (M(k \<mapsto> (p, c, n))) (range_of p n # rs)"
proof -
  have "set rs = {range_of q m |j q e m. M j = Some (q, e, m)}" "distinct (map r_lo rs)"
    using assms(1) by (simp_all add: ranged_def)
  moreover have "of_nat p \<notin> r_lo ` set rs"
    using assms(3) by (auto simp: calculation(1) range_of_def of_nat_word32_eq dest: assms(4))
  moreover have "insert (range_of p n) {range_of q m |j q e m. M j = Some (q, e, m)}
      = {range_of q m |j q e m. (M(k \<mapsto> (p, c, n))) j = Some (q, e, m)}"
    using assms(2) by (auto split: if_splits) (metis option.distinct(1))+
  ultimately show ?thesis
    by (simp add: ranged_def range_of_def)
qed

text \<open>The blocks are where the abstract heap has put them.\<close>

definition located :: "nat \<Rightarrow> (nat \<Rightarrow> nat) \<Rightarrow> ghost \<Rightarrow> bool" where
  "located base N M \<longleftrightarrow> (\<forall>k p c n. M k = Some (p, c, n) \<longrightarrow> p = base + N k)"

lemma located_simps [simp]:
  "located base N Map.empty"
  "located base N M \<Longrightarrow> located base N (M(k := None))"
  "located base N M \<Longrightarrow> located base (N(k := e)) (M(k \<mapsto> (base + e, c, n)))"
  by (simp_all add: located_def)

lemma locatedD: "located base N M \<Longrightarrow> M k = Some (p, c, n) \<Longrightarrow> p = base + N k"
  by (simp add: located_def)

definition driver_inv :: "('a mem_scheme \<Rightarrow> 'h \<Rightarrow> (nat \<times> nat) set \<Rightarrow> bool) \<Rightarrow> nat \<Rightarrow> ghost \<Rightarrow> 'h \<times> (nat \<Rightarrow> nat)
    \<Rightarrow> trace_t \<Rightarrow> 'a driver \<Rightarrow> bool" where
  "driver_inv models ids M hn t d \<longleftrightarrow>
     (\<exists>A. models (mach d) (fst hn) A \<and> placed A M t) \<and> located (lo (mach d)) (snd hn) M
     \<and> filled M (mach d) \<and> ranged M (ranges d)
     \<and> length (blocks t) = ids \<and> length (block_sizes t) = ids"

text \<open>
  The outcomes of a stretch of requests that need at most \<open>need\<close> bytes: everything accepted,
  or the package ran out of memory and the driver reported just that.
\<close>

definition accepted :: "'a driver \<Rightarrow> 'a driver \<Rightarrow> nat \<Rightarrow> bool" where
  "accepted d d' need \<longleftrightarrow> grows (mach d) (mach d') need \<and> errors d' = errors d \<and> log d' = log d"

definition out_of_memory :: "int \<Rightarrow> 'a driver \<Rightarrow> nat \<Rightarrow> 'a state flow option \<Rightarrow> bool" where
  "out_of_memory tracenum d need r \<longleftrightarrow>
     hi (mach d) < brk (mach d) + need
     \<and> (\<exists>t' d' j m. r = Some (Return 0 (t', d')) \<and> m \<in> {Malloc_Failed, Realloc_Failed}
          \<and> errors d' = errors d + 1 \<and> log d' = log d @ [(tracenum, LINENUM j, m)])"

section \<open>One request\<close>

text \<open>The state after a successful request, with the two array elements written.\<close>

definition stored :: "nat \<Rightarrow> nat \<Rightarrow> nat \<Rightarrow> trace_t \<Rightarrow> trace_t" where
  "stored k p n t =
     t\<lparr>blocks := (blocks t)[k := Some (of_nat p)], block_sizes := (block_sizes t)[k := Some (of_nat n)]\<rparr>"

lemma set_stored:
  assumes "k < length (blocks t)" "k < length (block_sizes t)"
    "length (blocks t) \<le> 2 ^ 31" "length (block_sizes t) \<le> 2 ^ 31"
  shows "do { t \<leftarrow> set_block (of_nat k) (of_nat p) t; t \<leftarrow> set_block_size (of_nat k) (of_nat n) t; f t }
    = f (stored k p n t)"
  using assms by (simp add: set_block_def set_block_size_def set_elem_nat stored_def)

context malloc_package
begin

text \<open>A write into the payload \<open>(p, c)\<close> keeps the others.\<close>

lemma write_kept:
  assumes "rep s A" "(p, c) \<in> A" "changes_only s u p (p + c)"
  shows "kept s u (A - {(p, c)})"
proof -
  have "byte_at u (q + i) = byte_at s (q + i)" if q: "(q, e) \<in> A" "(q, e) \<noteq> (p, c)" and i: "i < e" for q e i
  proof -
    from rep_apart [OF assms(1,2) q(1)] q(2) have "p + c \<le> q \<or> q + e \<le> p"
      by auto
    with i rep_bounds(3) [OF assms(1) q(1)] have "q + i < 2 ^ 32" "q + i < p \<or> p + c \<le> q + i"
      by auto
    with assms(3) show ?thesis
      by (auto simp: changes_only_def)
  qed
  then show ?thesis
    by (auto simp: kept_def)
qed

text \<open>A payload \<open>(p, c)\<close> that the package has just handed out is apart from the blocks in use.\<close>

lemma new_apart:
  assumes "rep s (insert (p, c) B)" "(p, c) \<notin> B" "placed B M t" "n \<le> c" "M j = Some (q, e, m)"
  shows "q \<noteq> p" "q < 2 ^ 32" "q + m \<le> brk s" "0 < m" "p + n \<le> q \<or> q + m \<le> p"
proof -
  note pl = placedD [OF assms(3,5)]
  have pc: "(p, c) \<in> insert (p, c) B" and qe: "(q, e) \<in> insert (p, c) B" "(q, e) \<noteq> (p, c)"
    using pl(1) assms(2) by auto
  show "q \<noteq> p" "q < 2 ^ 32" "q + m \<le> brk s" "0 < m" "p + n \<le> q \<or> q + m \<le> p"
    using rep_apart [OF assms(1) pc qe(1)] qe(2) rep_inside [OF assms(1) qe(1)] rep_inside [OF assms(1) pc]
      pl assms(4) by auto
qed

text \<open>
  The end of \<open>valid_alloc\<close> and \<open>valid_realloc\<close>: the new block is checked, filled and
  remembered.
\<close>

lemma new_range_accepted:
  assumes rep: "rep (mach d) (insert (p, c) B)" and new: "(p, c) \<notin> B"
    and known: "placed B M t" "ranged M (ranges d)" and n: "0 < n" "n \<le> c" "n < 2 ^ 31"
  shows "add_range True (of_nat p) (of_nat n) tracenum i d = Inr (1, d\<lparr>ranges := range_of p n # ranges d\<rparr>)"
proof (rule add_range_accepts)
  fix r
  assume "r \<in> set (ranges d)"
  then obtain j q e m where r: "r = range_of q m" "M j = Some (q, e, m)"
    using known(2) by (auto simp: ranged_def)
  show "\<exists>q m. r = range_of q m \<and> 0 < m \<and> q + m \<le> brk (mach d) \<and> (p + n \<le> q \<or> q + m \<le> p)"
    using new_apart(3-5) [OF rep new known(1) n(2) r(2)] r(1) by blast
qed (use rep_inside [OF rep, of p c] n rep_arena [OF rep] in auto)

end

context exact_package
begin

lemma new_block_filled:
  assumes models: "models s h (insert (p, c) B)" and new: "(p, c) \<notin> B"
    and known: "placed B M t" "filled M s" and n: "0 < n" "n \<le> c"
  obtains m where "memset (of_nat p) (of_nat (k mod 256)) (of_nat n) s = Some m"
    "models m h (insert (p, c) B)" "grows s m 0" "filled (M(k \<mapsto> (p, c, n))) m"
proof -
  note rep = models_rep [OF models]
  have pc: "(p, c) \<in> insert (p, c) B"
    by simp
  obtain m where m: "memset (of_nat p) (of_nat (k mod 256)) (of_nat n) s = Some m"
    "changes_only s m p (p + n)" "\<forall>i < n. byte_at m (p + i) = of_nat (k mod 256)"
    using memset_nat [of s p n] rep_inside [OF rep pc] rep_bounds [OF rep pc] n by auto
  have ch: "changes_only s m p (p + c)"
    by (rule changes_only_mono [OF m(2)]) (use n in auto)
  have "kept s m B"
    using write_kept [OF rep pc ch] new by simp
  from filled_kept [OF known(2,1) this] m(3) have "filled (M(k \<mapsto> (p, c, n))) m"
    unfolding filled_def by auto
  with m(1) models_write [OF models pc ch] changes_only_grows [OF m(2)] that show thesis
    by blast
qed

text \<open>The invariant with the new block, which has taken the place of \<open>k\<close>.\<close>

lemma new_block_inv:
  assumes models: "models (mach d) h (insert (p, c) B)" and new: "(p, c) \<notin> B"
    and known: "placed B M t" "filled (M(k \<mapsto> (p, c, n))) (mach d)" "ranged M rs" "ranges d = range_of p n # rs"
    and loc: "located (lo (mach d)) N (M(k \<mapsto> (p, c, n)))"
    and k: "M k = None" and n: "0 < n" "n \<le> c" "n < 2 ^ 31"
    and len: "k < ids" "length (blocks t) = ids" "length (block_sizes t) = ids"
  shows "driver_inv models ids (M(k \<mapsto> (p, c, n))) (h, N) (stored k p n t) d"
proof -
  note rep = models_rep [OF models]
  have pc: "(p, c) \<in> insert (p, c) B"
    by simp
  note bnd = rep_bounds [OF rep pc]
  have "placed (insert (p, c) B) (M(k \<mapsto> (p, c, n))) (stored k p n t)"
    unfolding stored_def
    by (rule placed_insert [OF known(1) new k]) (use len n bnd(3) rep_address_unique [OF rep pc] in auto)
  moreover have "ranged (M(k \<mapsto> (p, c, n))) (ranges d)"
    unfolding known(4) using ranged_insert [OF known(3) k bnd(4)] new_apart(1,2) [OF rep new known(1) n(2)] by blast
  ultimately show ?thesis
    using models known(2) loc len by (auto simp: driver_inv_def stored_def)
qed

lemma valid_alloc_step:
  fixes tracenum i :: int
  assumes inv: "driver_inv models ids M (h, N) t d" and k: "M k = None" "k < ids" "ids \<le> 2 ^ 31"
    and n: "0 < n" "n \<le> limit" "limit < 2 ^ 31"
  defines "r \<equiv> valid_alloc pk True tracenum i (of_nat k) (of_nat n) (t, d)"
  shows "(\<exists>e h' c t' d'. hs_malloc hs n h = Some (e, h') \<and> r = Some (Next (t', d'))
       \<and> driver_inv models ids (M(k \<mapsto> (lo (mach d) + e, c, n))) (h', N(k := e)) t' d' \<and> accepted d d' (n + slack))
    \<or> hs_malloc hs n h = None \<and> out_of_memory tracenum d (n + slack) r"
proof -
  let ?l = "lo (mach d)"
  obtain A where A: "models (mach d) h A" "placed A M t" "located ?l N M" "filled M (mach d)" "ranged M (ranges d)"
    and len: "length (blocks t) = ids" "length (block_sizes t) = ids"
    using inv by (auto simp: driver_inv_def)
  from models_malloc [OF A(1) n(1,2)] show ?thesis
  proof (elim disjE exE conjE)
    fix u
    assume "hs_malloc hs n h = None" "pk_malloc pk (of_nat n) (mach d) = Some (NULL, u)" "hi (mach d) < brk (mach d) + n + slack"
    then show ?thesis
      by (auto simp: r_def valid_alloc_def out_of_memory_def)
  next
    fix e h' c u
    let ?p = "?l + e"
    assume spec: "hs_malloc hs n h = Some (e, h')"
      and run: "pk_malloc pk (of_nat n) (mach d) = Some (of_nat ?p, u)" and c: "n \<le> c" "(?p, c) \<notin> A"
      and u: "models u h' (insert (?p, c) A)" "grows (mach d) u (n + slack)" "kept (mach d) u A"
    have n31: "n < 2 ^ 31" and k32: "k < 2 ^ 32"
      using n k by simp_all
    obtain m where m: "memset (of_nat ?p) (of_nat (k mod 256)) (of_nat n) u = Some m"
      "models m h' (insert (?p, c) A)" "grows u m 0" "filled (M(k \<mapsto> (?p, c, n))) m"
      by (rule new_block_filled [OF u(1) c(2) A(2) filled_kept [OF A(4,2) u(3)] n(1) c(1)])
    let ?d = "d\<lparr>mach := u, ranges := range_of ?p n # ranges d\<rparr>"
    have "add_range True (of_nat ?p) (of_nat n) tracenum i (d\<lparr>mach := u\<rparr>) = Inr (1, ?d)"
      using new_range_accepted [of "d\<lparr>mach := u\<rparr>", OF _ c(2) A(2) _ n(1) c(1) n31] models_rep [OF u(1)] A(5) by simp
    then have "r = Some (Next (stored k ?p n t, ?d\<lparr>mach := m\<rparr>))"
      using run m(1) k len rep_not_NULL [OF models_rep [OF u(1)]]
      by (simp add: r_def valid_alloc_def fill_byte [OF k32] set_stored)
    moreover have "driver_inv models ids (M(k \<mapsto> (?p, c, n))) (h', N(k := e)) (stored k ?p n t) (?d\<lparr>mach := m\<rparr>)"
      by (rule new_block_inv [OF _ c(2) A(2) _ A(5) _ _ k(1) n(1) c(1) n31 k(2) len])
        (use m A(3) growsD(1) [OF u(2)] growsD(1) [OF m(3)] in simp_all)
    moreover have "accepted d (?d\<lparr>mach := m\<rparr>) (n + slack)"
      using grows_trans [OF u(2) m(3)] by (simp add: accepted_def)
    ultimately show ?thesis
      using spec by blast
  qed
qed

lemma valid_free_step:
  assumes inv: "driver_inv models ids M (h, N) t d" and k: "M k = Some b" "k < ids" "ids \<le> 2 ^ 31"
  shows "\<exists>d'. valid_free pk (of_nat k) (t, d) = Some (Next (t, d'))
    \<and> driver_inv models ids (M(k := None)) (hs_free hs (N k) h, N) t d' \<and> accepted d d' 0"
proof -
  obtain A where A: "models (mach d) h A" "placed A M t" "located (lo (mach d)) N M" "filled M (mach d)" "ranged M (ranges d)"
    and len: "length (blocks t) = ids" "length (block_sizes t) = ids"
    using inv by (auto simp: driver_inv_def)
  obtain p c n where M: "M k = Some (p, c, n)"
    using k(1) by (cases b) auto
  note pl = placedD [OF A(2) M] and p = locatedD [OF A(3) M]
  from models_free [OF A(1) pl(1) [unfolded p]] obtain u where u: "pk_free pk (of_nat p) (mach d) = Some u"
    "models u (hs_free hs (N k) h) (A - {(p, c)})" "grows (mach d) u 0" "kept (mach d) u (A - {(p, c)})"
    unfolding p by blast
  note pr = placed_remove [OF A(2) M]
  let ?d = "remove_range (of_nat p) d\<lparr>mach := u\<rparr>"
  have "valid_free pk (of_nat k) (t, d) = Some (Next (t, ?d))"
    using u(1) pl k len by (simp add: valid_free_def set_elem_nat remove_range_def)
  moreover have "driver_inv models ids (M(k := None)) (hs_free hs (N k) h, N) t ?d"
    using u(2) pr filled_kept [OF filled_remove [OF A(4)] pr u(4)] ranged_remove [OF A(5,2) M] len A(3) growsD(1) [OF u(3)]
    by (auto simp: driver_inv_def remove_range_def)
  moreover have "accepted d ?d 0"
    using u(3) by (simp add: accepted_def remove_range_def)
  ultimately show ?thesis
    by blast
qed

text \<open>
  The check of the old data: the bytes moved are those of the fill byte, which the driver
  compares as a signed \<open>char\<close> with the unsigned value it wrote.
\<close>

lemma realloc_preserved:
  assumes rep: "rep u (insert (p, c) B)" and nc: "n \<le> c" "0 < n" "0 < m" "m \<le> e"
    and old: "\<forall>i < m. byte_at s (q + i) = of_nat (k mod 256)"
    and moved: "\<forall>i < min n e. byte_at u (p + i) = byte_at s (q + i)"
  shows "preserved u (of_nat p) (int (k mod 256)) 0 (min n m) = Some (k mod 256 < 128)"
proof -
  have pc: "(p, c) \<in> insert (p, c) B"
    by simp
  have "preserved u (of_nat p) (int (k mod 256)) 0 (min n m)
      = Some (min n m = 0 \<or> sint (of_nat (k mod 256) :: u8) = int (k mod 256))"
  proof (rule preserved_value)
    show "byte_at u (p + 0 + i) = of_nat (k mod 256)" if "i < min n m" for i
      using moved old that nc by simp
  qed (use rep_bounds [OF rep pc] rep_inside [OF rep pc] rep_arena [OF rep] nc(1)
      in \<open>auto simp: arena_ok_def\<close>)
  then show ?thesis
    using sint_byte [of "k mod 256"] nc by (auto simp: min_def)
qed

text \<open>The size the driver compares over: the smaller of the new and the old one.\<close>

lemma realloc_oldsize:
  assumes "n < 2 ^ 31" "m < 2 ^ 31"
  shows "(if sint (of_nat n :: u32) < sint (of_nat m :: u32) then of_nat n else of_nat m)
      = (of_nat (min n m) :: u32)" "nat (sint (of_nat (min n m) :: u32)) = min n m"
  using assms by (simp_all add: sint_nonneg_word32 min_def)

text \<open>
  A reallocation that the package serves correctly is accepted, or rejected, according to
  the fill byte of the id.
\<close>

lemma valid_realloc_cases:
  fixes tracenum i :: int
  assumes inv: "driver_inv models ids M (h, N) t d" and k: "M k = Some b" "k < ids" "ids \<le> 2 ^ 31"
    and n: "0 < n" "n \<le> limit" "limit < 2 ^ 31"
  defines "r \<equiv> valid_realloc pk True tracenum i (of_nat k) (of_nat n) (t, d)"
  shows "(\<exists>e h' c t' d' d1. hs_realloc hs (N k) n h = Some (e, h')
       \<and> r = Some (if k mod 256 < 128 then Next (t', d') else Return 0 (t, malloc_error tracenum i Not_Preserved d1))
       \<and> driver_inv models ids (M(k \<mapsto> (lo (mach d) + e, c, n))) (h', N(k := e)) t' d' \<and> accepted d d' (n + slack)
       \<and> accepted d d1 (n + slack))
    \<or> hs_realloc hs (N k) n h = None \<and> out_of_memory tracenum d (n + slack) r"
proof -
  let ?l = "lo (mach d)"
  obtain A where A: "models (mach d) h A" "placed A M t" "located ?l N M" "filled M (mach d)" "ranged M (ranges d)"
    and len: "length (blocks t) = ids" "length (block_sizes t) = ids"
    using inv by (auto simp: driver_inv_def)
  obtain q e m where M: "M k = Some (q, e, m)"
    using k(1) by (cases b) auto
  note pl = placedD [OF A(2) M] and pr = placed_remove [OF A(2) M] and q = locatedD [OF A(3) M]
  have old: "get_elem (blocks t) (of_nat k) = Some (of_nat q)"
    "get_elem (block_sizes t) (of_nat k) = Some (of_nat m)"
    using pl k len by (simp_all add: set_elem_nat)
  from models_realloc [OF A(1) pl(1) [unfolded q] n(1,2)] show ?thesis
    unfolding q [symmetric]
  proof (elim disjE exE conjE)
    fix u
    assume "hs_realloc hs (N k) n h = None" "pk_realloc pk (of_nat q) (of_nat n) (mach d) = Some (NULL, u)"
      "hi (mach d) < brk (mach d) + n + slack"
    then show ?thesis
      using old by (auto simp: r_def valid_realloc_def out_of_memory_def)
  next
    fix a h' c u
    let ?B = "A - {(q, e)}" and ?M = "M(k := None)" and ?p = "?l + a"
    assume spec: "hs_realloc hs (N k) n h = Some (a, h')"
      and run: "pk_realloc pk (of_nat q) (of_nat n) (mach d) = Some (of_nat ?p, u)"
      and c: "n \<le> c" "(?p, c) \<notin> ?B"
      and u: "models u h' (insert (?p, c) ?B)" "grows (mach d) u (n + slack)" "kept (mach d) u ?B"
      and moved: "\<forall>i < min n e. byte_at u (?p + i) = byte_at (mach d) (q + i)"
    note rep = models_rep [OF u(1)]
    have n31: "n < 2 ^ 31" and k32: "k < 2 ^ 32" and none: "?M k = None"
      using n k by simp_all
    let ?rs = "remove_from (of_nat q) (ranges d)"
    let ?d = "d\<lparr>mach := u, ranges := ?rs\<rparr>" and ?d1 = "d\<lparr>mach := u, ranges := range_of ?p n # ?rs\<rparr>"
    note rng = ranged_remove [OF A(5,2) M]
    obtain v where v: "memset (of_nat ?p) (of_nat (k mod 256)) (of_nat n) u = Some v"
      "models v h' (insert (?p, c) ?B)" "grows u v 0" "filled (?M(k \<mapsto> (?p, c, n))) v"
      by (rule new_block_filled [OF u(1) c(2) pr filled_kept [OF filled_remove [OF A(4)] pr u(3)] n(1) c(1)])
    have add: "add_range True (of_nat ?p) (of_nat n) tracenum i ?d = Inr (1, ?d1)"
      using new_range_accepted [of ?d, OF _ c(2) pr _ n(1) c(1) n31] rep rng by simp
    have "preserved u (of_nat ?p) (int (k mod 256)) 0 (min n m) = Some (k mod 256 < 128)"
      by (rule realloc_preserved [OF rep c(1) n(1) pl(2,3) _ moved]) (use filledD [OF A(4) M] in simp)
    then have "r = Some (if k mod 256 < 128 then Next (stored k ?p n t, ?d1\<lparr>mach := v\<rparr>)
        else Return 0 (t, malloc_error tracenum i Not_Preserved ?d1))"
      using run add v(1) k len old n pl(4) rep_not_NULL [OF rep]
      by (simp add: r_def valid_realloc_def fill_byte [OF k32] fill_int [OF k32] set_stored
          realloc_oldsize [of n m] remove_range_def Let_def)
    moreover have "driver_inv models ids (?M(k \<mapsto> (?p, c, n))) (h', N(k := a)) (stored k ?p n t) (?d1\<lparr>mach := v\<rparr>)"
      by (rule new_block_inv [where M = ?M, OF _ c(2) pr _ rng _ _ none n(1) c(1) n31 k(2) len])
        (use v A(3) growsD(1) [OF u(2)] growsD(1) [OF v(3)] in simp_all)
    moreover have "accepted d (?d1\<lparr>mach := v\<rparr>) (n + slack)" "accepted d ?d1 (n + slack)"
      using grows_trans [OF u(2) v(3)] u(2) by (simp_all add: accepted_def)
    ultimately show ?thesis
      using spec unfolding fun_upd_upd by blast
  qed
qed

section \<open>All requests\<close>

lemma accepted_trans:
  "accepted d d1 m \<Longrightarrow> accepted d1 d2 n \<Longrightarrow> accepted d d2 (m + n)"
  using grows_trans by (auto simp: accepted_def)

lemma out_of_memory_later:
  "accepted d d1 m \<Longrightarrow> out_of_memory tracenum d1 n r \<Longrightarrow> out_of_memory tracenum d (m + n) r"
  unfolding accepted_def out_of_memory_def grows_def by fastforce

lemma out_of_memory_mono:
  "out_of_memory tracenum d m r \<Longrightarrow> m \<le> n \<Longrightarrow> out_of_memory tracenum d n r"
  unfolding out_of_memory_def by auto

text \<open>
  One request: the abstract heap decides between the next state and the report that there
  is no memory.
\<close>

definition op_done :: "nat \<Rightarrow> traceop_t \<Rightarrow> traceop_t list \<Rightarrow> 'h \<times> (nat \<Rightarrow> nat) \<Rightarrow> 'a driver \<Rightarrow> 'a state flow option \<Rightarrow> bool" where
  "op_done ids x ys hn d r \<longleftrightarrow>
     (\<exists>M' hn' t' d'. heap_step hs x hn = Some hn' \<and> r = Some (Next (t', d')) \<and> driver_inv models ids M' hn' t' d'
        \<and> trace_wf limit ids (dom M') ys \<and> accepted d d' (demand slack [x]))"

lemma valid_op_step:
  assumes inv: "driver_inv models ids M hn t d" and wf: "trace_wf limit ids (dom M) (x # xs)"
    and plain: "fills_plain [x]" and bnd: "ids \<le> 2 ^ 31" "limit < 2 ^ 31" and nodes: "nodes i"
  shows "op_done ids x xs hn d (valid_op pk nodes tracenum i x (t, d))
    \<or> heap_step hs x hn = None
       \<and> out_of_memory tracenum d (demand slack [x]) (valid_op pk nodes tracenum i x (t, d))"
proof -
  obtain h N where hn: "hn = (h, N)"
    by fastforce
  let ?k = "unat (op_index x)" and ?n = "unat (op_size x)"
  have k: "?k < ids"
    using wf by simp
  show ?thesis
  proof (cases "op_type x")
    case ALLOC
    with wf have w: "M ?k = None" "0 < ?n" "?n \<le> limit" "trace_wf limit ids (insert ?k (dom M)) xs"
      by auto
    from valid_alloc_step [OF inv [unfolded hn] w(1) k bnd(1) w(2,3) bnd(2), of tracenum i] show ?thesis
    proof (elim disjE exE conjE)
      fix e h' c t' d'
      assume "hs_malloc hs ?n h = Some (e, h')"
        "valid_alloc pk True tracenum i (of_nat ?k) (of_nat ?n) (t, d) = Some (Next (t', d'))"
        "driver_inv models ids (M(?k \<mapsto> (lo (mach d) + e, c, ?n))) (h', N(?k := e)) t' d'"
        "accepted d d' (?n + slack)"
      with w(4) nodes show ?thesis
        unfolding op_done_def
        by (intro disjI1 exI [of _ "M(?k \<mapsto> (lo (mach d) + e, c, ?n))"])
          (auto simp: valid_op_def ALLOC hn heap_step_def Let_def)
    qed (simp add: valid_op_def ALLOC hn heap_step_def Let_def nodes)
  next
    case REALLOC
    with wf obtain b where w: "M ?k = Some b" "0 < ?n" "?n \<le> limit" "trace_wf limit ids (dom M) xs"
      by auto
    then have dom: "insert ?k (dom M) = dom M"
      by auto
    have fill: "?k mod 256 < 128"
      using plain REALLOC by (simp add: fills_plain_def)
    from valid_realloc_cases [OF inv [unfolded hn] w(1) k bnd(1) w(2,3) bnd(2), of tracenum i] show ?thesis
    proof (elim disjE exE conjE)
      fix e h' c t' d' d1
      assume "hs_realloc hs (N ?k) ?n h = Some (e, h')"
        "valid_realloc pk True tracenum i (of_nat ?k) (of_nat ?n) (t, d)
           = Some (if ?k mod 256 < 128 then Next (t', d') else Return 0 (t, malloc_error tracenum i Not_Preserved d1))"
        "driver_inv models ids (M(?k \<mapsto> (lo (mach d) + e, c, ?n))) (h', N(?k := e)) t' d'"
        "accepted d d' (?n + slack)"
      with w(4) nodes fill show ?thesis
        unfolding op_done_def
        by (intro disjI1 exI [of _ "M(?k \<mapsto> (lo (mach d) + e, c, ?n))"])
          (auto simp: valid_op_def REALLOC hn heap_step_def Let_def dom)
    qed (simp add: valid_op_def REALLOC hn heap_step_def Let_def nodes)
  next
    case FREE
    with wf obtain b where w: "M ?k = Some b" "trace_wf limit ids (dom M - {?k}) xs"
      by auto
    from valid_free_step [OF inv [unfolded hn] w(1) k bnd(1)] obtain d' where
      "valid_free pk (of_nat ?k) (t, d) = Some (Next (t, d'))"
      "driver_inv models ids (M(?k := None)) (hs_free hs (N ?k) h, N) t d'" "accepted d d' 0"
      by blast
    with w(2) show ?thesis
      unfolding op_done_def
      by (intro disjI1 exI [of _ "M(?k := None)"]) (auto simp: valid_op_def FREE hn heap_step_def Let_def)
  qed
qed

lemma for_ops_valid:
  assumes "driver_inv models ids M hn t d" "trace_wf limit ids (dom M) (xs @ ys)" "fills_plain xs"
    and "ids \<le> 2 ^ 31" "limit < 2 ^ 31" and nodes: "\<And>i. nodes i"
  shows "(\<exists>M' hn' t' d'. heap_run hs xs hn = Some hn'
       \<and> for_ops (valid_op pk nodes tracenum) i (length xs) xs (t, d) = Some (Next (t', d'))
       \<and> driver_inv models ids M' hn' t' d' \<and> trace_wf limit ids (dom M') ys
       \<and> accepted d d' (demand slack xs))
    \<or> heap_run hs xs hn = None \<and> out_of_memory tracenum d (demand slack xs)
        (for_ops (valid_op pk nodes tracenum) i (length xs) xs (t, d))"
  using assms(1-3)
proof (induction xs arbitrary: M hn t d i)
  case (Cons x xs)
  have p: "fills_plain [x]" "fills_plain xs"
    using Cons.prems(3) by (simp_all add: fills_plain_def)
  let ?f = "valid_op pk nodes tracenum"
  from valid_op_step [of ids M hn t d x "xs @ ys" nodes i tracenum, OF Cons.prems(1) _ p(1) assms(4,5) nodes] Cons.prems(2)
  have "op_done ids x (xs @ ys) hn d (?f i x (t, d))
    \<or> heap_step hs x hn = None \<and> out_of_memory tracenum d (demand slack [x]) (?f i x (t, d))"
    by simp
  then show ?case
    unfolding op_done_def
  proof (elim disjE exE conjE)
    fix M1 hn1 t1 d1
    assume x: "heap_step hs x hn = Some hn1" "?f i x (t, d) = Some (Next (t1, d1))"
      and ok: "accepted d d1 (demand slack [x])"
      and inv1: "driver_inv models ids M1 hn1 t1 d1" "trace_wf limit ids (dom M1) (xs @ ys)"
    from Cons.IH [OF inv1 p(2), of "i + 1"] show ?thesis
    proof (elim disjE exE conjE)
      fix M' hn' t' d'
      assume "heap_run hs xs hn1 = Some hn'" "for_ops ?f (i + 1) (length xs) xs (t1, d1) = Some (Next (t', d'))"
        "driver_inv models ids M' hn' t' d'" "trace_wf limit ids (dom M') ys" "accepted d1 d' (demand slack xs)"
      with x accepted_trans [OF ok] show ?thesis
        by auto
    next
      assume "heap_run hs xs hn1 = None"
        "out_of_memory tracenum d1 (demand slack xs) (for_ops ?f (i + 1) (length xs) xs (t1, d1))"
      with out_of_memory_later [OF ok this(2)] x show ?thesis
        by simp
    qed
  next
    assume none: "heap_step hs x hn = None" and oom: "out_of_memory tracenum d (demand slack [x]) (?f i x (t, d))"
    then have "for_ops ?f i (length (x # xs)) (x # xs) (t, d) = ?f i x (t, d)"
      by (auto simp: out_of_memory_def)
    with none out_of_memory_mono [OF oom] show ?thesis
      by simp
  qed
qed (auto simp: accepted_def)

text \<open>The start of \<open>eval_mm_valid\<close>: the invariant holds, and the rest is the loop.\<close>

lemma eval_mm_valid_start:
  assumes start: "arena_ok (mach d)" "hi (mach d) + limit + slack \<le> 2 ^ 32"
    and len: "length (block_sizes t) = length (blocks t)"
  obtains u where "pk_init pk (mem_reset_brk (mach d)) = Some (0, u)"
    "grows (mem_reset_brk (mach d)) u slack" "\<And>n. hi u < brk u + n \<Longrightarrow> MAX_HEAP < slack + n"
    "driver_inv models (length (blocks t)) Map.empty (hs_init hs, \<lambda>_. 0) t (d\<lparr>ranges := [], mach := u\<rparr>)"
    "\<And>nodes tracenum. eval_mm_valid pk nodes tracenum (t, d)
      = map_option (\<lambda>f. case f of Next s \<Rightarrow> Return 1 s | f \<Rightarrow> f)
          (run_ops (valid_op pk nodes tracenum) t (t, d\<lparr>ranges := [], mach := u\<rparr>))"
proof (rule started_at [OF start])
  fix u
  assume u: "pk_init pk (mem_reset_brk (mach d)) = Some (0, u)" "models u (hs_init hs) {}"
    "grows (mem_reset_brk (mach d)) u slack" "\<And>n. hi u < brk u + n \<Longrightarrow> MAX_HEAP < slack + n"
  let ?d = "d\<lparr>ranges := [], mach := u\<rparr>"
  have "driver_inv models (length (blocks t)) Map.empty (hs_init hs, \<lambda>_. 0) t ?d"
    using u(2) len by (auto simp: driver_inv_def placed_def filled_def ranged_def)
  moreover have "eval_mm_valid pk nodes tracenum (t, d) = map_option (\<lambda>f. case f of Next s \<Rightarrow> Return 1 s | f \<Rightarrow> f)
      (run_ops (valid_op pk nodes tracenum) t (t, ?d))" for nodes tracenum
    using u(1) by (simp add: eval_mm_valid_def clear_ranges_def map_conv_bind_option o_def)
  ultimately show thesis
    using u that by blast
qed

text \<open>
  The trace as \<open>read_trace\<close> leaves it: as many requests as \<open>num_ops\<close> says, and two arrays of
  the same length.
\<close>

lemma eval_mm_valid_sound:
  assumes start: "arena_ok (mach d)" "hi (mach d) + limit + slack \<le> 2 ^ 32"
    and t: "sint (num_ops t) = int (length (ops t))" "length (block_sizes t) = length (blocks t)"
    and wf: "trace_wf limit (length (blocks t)) {} (ops t)" "fills_plain (ops t)"
    and bnd: "length (blocks t) \<le> 2 ^ 31" "limit < 2 ^ 31" and nodes: "\<And>i. nodes i"
  defines "need \<equiv> slack + demand slack (ops t)"
  shows "(serves hs (ops t)
       \<and> (\<exists>t' d'. eval_mm_valid pk nodes tracenum (t, d) = Some (Return 1 (t', d'))
            \<and> errors d' = errors d \<and> log d' = log d \<and> grows (mem_reset_brk (mach d)) (mach d') need))
    \<or> (\<not> serves hs (ops t) \<and> MAX_HEAP < need
       \<and> (\<exists>t' d' i m. eval_mm_valid pk nodes tracenum (t, d) = Some (Return 0 (t', d'))
            \<and> m \<in> {Malloc_Failed, Realloc_Failed}
            \<and> errors d' = errors d + 1 \<and> log d' = log d @ [(tracenum, LINENUM i, m)]))"
proof (rule eval_mm_valid_start [OF start t(2)])
  fix u
  let ?s = "mem_reset_brk (mach d)" and ?d = "d\<lparr>ranges := [], mach := u\<rparr>"
    and ?run = "for_ops (valid_op pk nodes tracenum) 0 (length (ops t)) (ops t)"
  assume u: "grows ?s u slack" "\<And>n. hi u < brk u + n \<Longrightarrow> MAX_HEAP < slack + n"
    and inv: "driver_inv models (length (blocks t)) Map.empty (hs_init hs, \<lambda>_. 0) t ?d"
    and run: "\<And>nodes tracenum. eval_mm_valid pk nodes tracenum (t, d)
      = map_option (\<lambda>f. case f of Next s \<Rightarrow> Return 1 s | f \<Rightarrow> f) (run_ops (valid_op pk nodes tracenum) t (t, ?d))"
  have run: "eval_mm_valid pk nodes tracenum (t, d) = map_option (\<lambda>f. case f of Next s \<Rightarrow> Return 1 s | f \<Rightarrow> f) (?run (t, ?d))"
    using run t(1) by (simp add: run_ops_def)
  have wf': "trace_wf limit (length (blocks t)) (dom Map.empty) (ops t @ [])"
    using wf(1) by simp
  from for_ops_valid [where nodes = nodes and tracenum = tracenum and i = 0, OF inv wf' wf(2) bnd nodes] show ?thesis
  proof (elim disjE exE conjE)
    fix hn' t' d'
    assume "heap_run hs (ops t) (hs_init hs, \<lambda>_. 0) = Some hn'" "?run (t, ?d) = Some (Next (t', d'))"
      "accepted ?d d' (demand slack (ops t))"
    with run grows_trans [OF u(1)] show ?thesis
      by (simp add: serves_def accepted_def need_def)
  next
    assume "heap_run hs (ops t) (hs_init hs, \<lambda>_. 0) = None"
      "out_of_memory tracenum ?d (demand slack (ops t)) (?run (t, ?d))"
    with run u(2) show ?thesis
      by (auto simp: serves_def out_of_memory_def need_def)
  qed
qed

text \<open>
  The first request that reallocates an id with a fill byte that is negative as a \<open>char\<close> is
  reported, whatever comes after it.
\<close>

lemma eval_mm_valid_rejects:
  assumes start: "arena_ok (mach d)" "hi (mach d) + limit + slack \<le> 2 ^ 32"
    and t: "sint (num_ops t) = int (length (ops t))" "length (block_sizes t) = length (blocks t)" "length (blocks t) \<le> 2 ^ 31"
    and ops: "ops t = xs @ x # ys" and x: "op_type x = REALLOC" "128 \<le> unat (op_index x) mod 256"
    and wf: "trace_wf limit (length (blocks t)) {} (xs @ [x])" "fills_plain xs" and limit: "limit < 2 ^ 31"
    and fits: "serves hs (xs @ [x])" and nodes: "\<And>i. nodes i"
  shows "\<exists>t' d'. eval_mm_valid pk nodes tracenum (t, d) = Some (Return 0 (t', d'))
    \<and> errors d' = errors d + 1 \<and> log d' = log d @ [(tracenum, LINENUM (int (length xs)), Not_Preserved)]"
proof (rule eval_mm_valid_start [OF start t(2)])
  fix u
  let ?d = "d\<lparr>ranges := [], mach := u\<rparr>" and ?ids = "length (blocks t)" and ?f = "valid_op pk nodes tracenum"
    and ?k = "unat (op_index x)" and ?n = "unat (op_size x)" and ?i = "int (length xs)"
  assume inv: "driver_inv models ?ids Map.empty (hs_init hs, \<lambda>_. 0) t ?d"
    and run: "\<And>nodes tracenum. eval_mm_valid pk nodes tracenum (t, d)
      = map_option (\<lambda>f. case f of Next s \<Rightarrow> Return 1 s | f \<Rightarrow> f) (run_ops (valid_op pk nodes tracenum) t (t, ?d))"
  have fit: "heap_run hs xs (hs_init hs, \<lambda>_. 0) = Some hn' \<Longrightarrow> heap_step hs x hn' \<noteq> None" for hn'
    using fits by (auto simp: serves_def heap_run_append split: Option.bind_splits)
  have "heap_run hs xs (hs_init hs, \<lambda>_. 0) \<noteq> None"
    using fits by (auto simp: serves_def heap_run_append bind_eq_Some_conv)
  then obtain M' h N t1 d1 where r1: "heap_run hs xs (hs_init hs, \<lambda>_. 0) = Some (h, N)"
    "for_ops ?f 0 (length xs) xs (t, ?d) = Some (Next (t1, d1))" "driver_inv models ?ids M' (h, N) t1 d1"
    "trace_wf limit ?ids (dom M') [x]" "accepted ?d d1 (demand slack xs)"
    using for_ops_valid [OF inv, of xs "[x]" nodes tracenum 0] wf t(3) limit nodes by auto
  obtain b where k: "?k < ?ids" "M' ?k = Some b" "0 < ?n" "?n \<le> limit"
    using r1(4) x(1) by auto
  have "hs_realloc hs (N ?k) ?n h \<noteq> None"
    using fit [OF r1(1)] x(1) by (simp add: heap_step_def Let_def)
  with valid_realloc_cases [OF r1(3) k(2,1) t(3) k(3,4) limit, of tracenum ?i] x(2)
  obtain d2 where r2: "valid_realloc pk True tracenum ?i (op_index x) (op_size x) (t1, d1)
      = Some (Return 0 (t1, malloc_error tracenum ?i Not_Preserved d2))" "accepted d1 d2 (?n + slack)"
    by auto
  have "for_ops ?f 0 (length (ops t)) (ops t) (t, ?d) = Some (Return 0 (t1, malloc_error tracenum ?i Not_Preserved d2))"
    using r1(2) r2(1) x(1) nodes for_ops_append [of ?f 0 xs "length (x # ys)" "x # ys"]
    by (simp add: ops valid_op_def)
  moreover have "errors d2 = errors d" "log d2 = log d"
    using r1(5) r2(2) by (simp_all add: accepted_def)
  ultimately show ?thesis
    using run [of nodes tracenum] t(1) by (simp add: run_ops_def)
qed

end

end
