(* ===== verification/Driver_Util.thy ===== *)
theory Driver_Util
  imports Driver_Valid
begin

text \<open>
  \<open>eval_mm_util\<close> and \<open>eval_mm_speed\<close> against the contract of a malloc package. The value
  \<open>eval_mm_util\<close> computes is compared with the high-water mark of the trace: the largest sum
  of the sizes of the blocks in use at the same time.
\<close>

section \<open>The high-water mark of a trace\<close>

text \<open>\<open>N\<close> gives the size in use for every id, 0 for an id without a block.\<close>

definition after_op :: "traceop_t \<Rightarrow> (nat \<Rightarrow> nat) \<Rightarrow> nat \<Rightarrow> nat" where
  "after_op x N = N(unat (op_index x) := (if op_type x = FREE then 0 else unat (op_size x)))"

fun high_water :: "nat \<Rightarrow> (nat \<Rightarrow> nat) \<Rightarrow> traceop_t list \<Rightarrow> nat" where
  "high_water ids N [] = (\<Sum>k < ids. N k)"
| "high_water ids N (x # xs) = max (\<Sum>k < ids. N k) (high_water ids (after_op x N) xs)"

definition sizes_of :: "ghost \<Rightarrow> nat \<Rightarrow> nat" where
  "sizes_of M k = (case M k of None \<Rightarrow> 0 | Some (p, c, n) \<Rightarrow> n)"

lemma sizes_of_upd [simp]:
  "sizes_of (M(k \<mapsto> (p, c, n))) = (sizes_of M)(k := n)"
  "sizes_of (M(k := None)) = (sizes_of M)(k := 0)"
  by (auto simp: sizes_of_def)

lemma sum_upd:
  fixes N :: "nat \<Rightarrow> nat"
  assumes "k < ids"
  shows "int (\<Sum>j < ids. (N(k := n)) j) = int (\<Sum>j < ids. N j) - int (N k) + int n"
proof -
  have "(\<Sum>j < ids. (N(k := n)) j) = n + (\<Sum>j \<in> {..< ids} - {k}. N j)"
    using assms by (subst sum.remove [of _ k]) auto
  moreover have "(\<Sum>j < ids. N j) = N k + (\<Sum>j \<in> {..< ids} - {k}. N j)"
    using assms by (subst sum.remove [of _ k]) auto
  ultimately show ?thesis
    by simp
qed

lemma high_water_start: "(\<Sum>k < ids. N k) \<le> high_water ids N xs"
  by (cases xs) simp_all

lemma int32_diff: "m < 2 ^ 31 \<Longrightarrow> n < 2 ^ 31 \<Longrightarrow> int32 (int m - int n) = Some (int m - int n)"
  by (simp add: int32_def)

lemma max_int_absorb:
  "int a \<le> c \<Longrightarrow> b \<le> h \<Longrightarrow> max (max c (int b)) (int h) = max c (int (max a h))"
  by (simp add: max_def)

section \<open>The invariant without ranges and contents\<close>

definition util_inv :: "('a mem_scheme \<Rightarrow> 'h \<Rightarrow> (nat \<times> nat) set \<Rightarrow> bool) \<Rightarrow> nat \<Rightarrow> ghost \<Rightarrow> 'h \<times> (nat \<Rightarrow> nat)
    \<Rightarrow> trace_t \<Rightarrow> 'a mem_scheme \<Rightarrow> bool" where
  "util_inv models ids M hn t s \<longleftrightarrow>
     (\<exists>A. models s (fst hn) A \<and> placed A M t) \<and> located (lo s) (snd hn) M
     \<and> length (blocks t) = ids \<and> length (block_sizes t) = ids"

context malloc_package
begin

lemma sizes_fit:
  assumes "rep s A" "placed A M t" "length (blocks t) = ids"
  shows "(\<Sum>k < ids. sizes_of M k) \<le> brk s - lo s"
proof -
  define slot where "slot k = (case the (M k) of (p, c, n) \<Rightarrow> (p, c))" for k
  have dom: "dom M \<subseteq> {..< ids}"
    using assms(2,3) by (auto dest: placedD)
  have inj: "inj_on slot (dom M)"
    using placed_inj [OF assms(2)] by (fastforce simp: inj_on_def slot_def)
  have "(\<Sum>k < ids. sizes_of M k) = (\<Sum>k \<in> dom M. sizes_of M k)"
    using dom by (intro sum.mono_neutral_right) (auto simp: sizes_of_def split: option.splits)
  also have "\<dots> \<le> (\<Sum>k \<in> dom M. snd (slot k))"
    by (rule sum_mono) (auto simp: sizes_of_def slot_def dest: placedD [OF assms(2)])
  also have "\<dots> = (\<Sum>x \<in> slot ` dom M. snd x)"
    by (simp add: sum.reindex [OF inj])
  also have "\<dots> \<le> (\<Sum>x \<in> A. snd x)"
    using rep_finite [OF assms(1)]
    by (intro sum_mono2) (auto simp: slot_def dest: placedD(1) [OF assms(2)])
  also have "\<dots> \<le> brk s - lo s"
    using rep_total [OF assms(1)] by (simp add: case_prod_beta)
  finally show ?thesis .
qed

end

context exact_package
begin

lemma util_fit:
  assumes "util_inv models ids M hn t s"
  shows "(\<Sum>k < ids. sizes_of M k) \<le> brk s - lo s" "brk s - lo s \<le> MAX_HEAP"
proof -
  obtain A where A: "rep s A" "placed A M t" "length (blocks t) = ids"
    using assms models_rep by (auto simp: util_inv_def)
  show "(\<Sum>k < ids. sizes_of M k) \<le> brk s - lo s"
    by (rule sizes_fit [OF A])
  show "brk s - lo s \<le> MAX_HEAP"
    using rep_arena [OF A(1)] by (auto simp: arena_ok_def)
qed

section \<open>One request, for both routines\<close>

text \<open>What a call of the package and the two array writes make of the invariant.\<close>

lemma malloc_step:
  assumes inv: "util_inv models ids M (h, N) t s" and k: "M k = None" "k < ids"
    and n: "0 < n" "n \<le> limit" "limit < 2 ^ 31"
  shows "(hs_malloc hs n h = None \<and> hi s < brk s + n + slack \<and> (\<exists>u. pk_malloc pk (of_nat n) s = Some (NULL, u)))
    \<or> (\<exists>d h' p c u. hs_malloc hs n h = Some (d, h') \<and> pk_malloc pk (of_nat n) s = Some (of_nat p, u) \<and> (of_nat p :: addr) \<noteq> NULL
        \<and> util_inv models ids (M(k \<mapsto> (p, c, n))) (h', N(k := d)) (stored k p n t) u \<and> grows s u (n + slack))"
proof -
  obtain A where A: "models s h A" "placed A M t" "located (lo s) N M"
    and len: "length (blocks t) = ids" "length (block_sizes t) = ids"
    using inv by (auto simp: util_inv_def)
  from models_malloc [OF A(1) n(1,2)] show ?thesis
  proof (elim disjE exE conjE)
    fix d h' c u
    let ?p = "lo s + d"
    assume run: "hs_malloc hs n h = Some (d, h')" "pk_malloc pk (of_nat n) s = Some (of_nat ?p, u)"
      and c: "n \<le> c" "(?p, c) \<notin> A"
      and u: "models u h' (insert (?p, c) A)" "grows s u (n + slack)"
    note rep = models_rep [OF u(1)]
    have pc: "(?p, c) \<in> insert (?p, c) A"
      by simp
    have "placed (insert (?p, c) A) (M(k \<mapsto> (?p, c, n))) (stored k ?p n t)"
      unfolding stored_def
      by (rule placed_insert [OF A(2) c(2) k(1)])
        (use k n c len rep_bounds(3) [OF rep pc] rep_address_unique [OF rep pc] in auto)
    moreover have "(of_nat ?p :: addr) \<noteq> NULL"
      by (rule rep_not_NULL [OF rep])
    moreover have "located (lo u) (N(k := d)) (M(k \<mapsto> (?p, c, n)))"
      using A(3) growsD(1) [OF u(2)] by simp
    ultimately have "util_inv models ids (M(k \<mapsto> (?p, c, n))) (h', N(k := d)) (stored k ?p n t) u"
      using u len by (auto simp: util_inv_def stored_def)
    with run u(2) \<open>of_nat ?p \<noteq> NULL\<close> show ?thesis
      by blast
  qed auto
qed

lemma realloc_step:
  assumes inv: "util_inv models ids M (h, N) t s" and k: "M k = Some (q, e, m)" "k < ids"
    and n: "0 < n" "n \<le> limit" "limit < 2 ^ 31"
  shows "(hs_realloc hs (N k) n h = None \<and> hi s < brk s + n + slack
        \<and> (\<exists>u. pk_realloc pk (of_nat q) (of_nat n) s = Some (NULL, u)))
    \<or> (\<exists>d h' p c u. hs_realloc hs (N k) n h = Some (d, h')
        \<and> pk_realloc pk (of_nat q) (of_nat n) s = Some (of_nat p, u) \<and> (of_nat p :: addr) \<noteq> NULL
        \<and> util_inv models ids (M(k \<mapsto> (p, c, n))) (h', N(k := d)) (stored k p n t) u \<and> grows s u (n + slack))"
proof -
  obtain A where A: "models s h A" "placed A M t" "located (lo s) N M"
    and len: "length (blocks t) = ids" "length (block_sizes t) = ids"
    using inv by (auto simp: util_inv_def)
  note pl = placedD [OF A(2) k(1)] and pr = placed_remove [OF A(2) k(1)] and q = locatedD [OF A(3) k(1)]
  from models_realloc [OF A(1) pl(1) [unfolded q] n(1,2)] show ?thesis
    unfolding q [symmetric]
  proof (elim disjE exE conjE)
    fix d h' c u
    let ?p = "lo s + d" and ?B = "A - {(q, e)}"
    assume run: "hs_realloc hs (N k) n h = Some (d, h')" "pk_realloc pk (of_nat q) (of_nat n) s = Some (of_nat ?p, u)"
      and c: "n \<le> c" "(?p, c) \<notin> ?B"
      and u: "models u h' (insert (?p, c) ?B)" "grows s u (n + slack)"
    note rep = models_rep [OF u(1)]
    have pc: "(?p, c) \<in> insert (?p, c) ?B"
      by simp
    have "placed (insert (?p, c) ?B) ((M(k := None))(k \<mapsto> (?p, c, n))) (stored k ?p n t)"
      unfolding stored_def
      by (rule placed_insert [OF pr c(2)])
        (use k n c len rep_bounds(3) [OF rep pc] rep_address_unique [OF rep pc] in auto)
    moreover have "(of_nat ?p :: addr) \<noteq> NULL"
      by (rule rep_not_NULL [OF rep])
    moreover have "located (lo u) (N(k := d)) (M(k \<mapsto> (?p, c, n)))"
      using A(3) growsD(1) [OF u(2)] by simp
    ultimately have "util_inv models ids (M(k \<mapsto> (?p, c, n))) (h', N(k := d)) (stored k ?p n t) u"
      using u len by (auto simp: util_inv_def stored_def)
    with run u(2) \<open>of_nat ?p \<noteq> NULL\<close> show ?thesis
      by blast
  qed auto
qed

lemma free_step:
  assumes inv: "util_inv models ids M (h, N) t s" and k: "M k = Some (q, e, m)"
  shows "\<exists>u. pk_free pk (of_nat q) s = Some u \<and> util_inv models ids (M(k := None)) (hs_free hs (N k) h, N) t u
    \<and> grows s u 0"
proof -
  obtain A where A: "models s h A" "placed A M t" "located (lo s) N M"
    and len: "length (blocks t) = ids" "length (block_sizes t) = ids"
    using inv by (auto simp: util_inv_def)
  note q = locatedD [OF A(3) k]
  from models_free [OF A(1) placedD(1) [OF A(2) k, unfolded q]] obtain u where u: "pk_free pk (of_nat q) s = Some u"
    "models u (hs_free hs (N k) h) (A - {(q, e)})" "grows s u 0"
    unfolding q by blast
  with placed_remove [OF A(2) k] len A(3) growsD(1) [OF u(3)] show ?thesis
    by (auto simp: util_inv_def)
qed


section \<open>The requests of \<open>eval_mm_util\<close>\<close>

text \<open>
  The outcome \<open>r\<close> of the request \<open>x\<close> before the requests \<open>xs\<close>: it has been carried out, or the
  package has run out of memory.
\<close>

definition util_done :: "nat \<Rightarrow> ghost \<Rightarrow> 'h \<times> (nat \<Rightarrow> nat) \<Rightarrow> traceop_t \<Rightarrow> traceop_t list \<Rightarrow> 'a driver \<Rightarrow> totals
    \<Rightarrow> ('a state \<times> totals) flow option \<Rightarrow> bool" where
  "util_done ids M hn x xs d c r \<longleftrightarrow>
     (\<exists>M' hn' t' d' c'. heap_step hs x hn = Some hn' \<and> r = Some (Next ((t', d'), c'))
        \<and> util_inv models ids M' hn' t' (mach d') \<and> trace_wf limit ids (dom M') xs
        \<and> sizes_of M' = after_op x (sizes_of M)
        \<and> grows (mach d) (mach d') (demand slack [x])
        \<and> total_size c' = int (\<Sum>k < ids. sizes_of M' k)
        \<and> max_total_size c' = max (max_total_size c) (total_size c'))
     \<or> (heap_step hs x hn = None \<and> hi (mach d) < brk (mach d) + demand slack [x] \<and> (\<exists>m s. r = Some (Stop (app_error m) s)))"

text \<open>The totals fit into an \<open>int\<close>, and the array accesses are in bounds.\<close>

lemma util_total_fits:
  assumes "util_inv models ids M hn t s" "v = int (\<Sum>k < ids. sizes_of M k)"
  shows "int32 v = Some v"
proof -
  have "int32 (int n) = Some (int n)" if "n \<le> MAX_HEAP" for n
    using that by (simp add: int32_def MAX_HEAP_val)
  with order_trans [OF util_fit [OF assms(1)]] show ?thesis
    unfolding assms(2) by blast
qed

lemma util_arrays:
  assumes "util_inv models ids M hn t s" "unat i < ids" "ids \<le> 2 ^ 31"
  shows "do { t \<leftarrow> set_block i (of_nat p) t; t \<leftarrow> set_block_size i n t; f t } = f (stored (unat i) p (unat n) t)"
    and "get_elem (blocks t) i = blocks t ! unat i" "get_elem (block_sizes t) i = block_sizes t ! unat i"
  using set_stored [of "unat i" t p "unat n" f] set_elem_nat(2) [of "unat i" "blocks t"]
    set_elem_nat(2) [of "unat i" "block_sizes t"] assms
  by (simp_all add: util_inv_def)

lemma util_live:
  assumes "util_inv models ids M hn t s" "k \<in> dom M"
  obtains q e m A where "M k = Some (q, e, m)" "placed A M t"
  using assms by (auto simp: util_inv_def)

lemma util_alloc_step:
  assumes inv: "util_inv models ids M (h, N) t (mach d)" and wf: "trace_wf limit ids (dom M) (x # xs)" and ty: "op_type x = ALLOC"
    and bnd: "ids \<le> 2 ^ 31" "limit < 2 ^ 31" and c: "total_size c = int (\<Sum>k < ids. sizes_of M k)"
  shows "util_done ids M (h, N) x xs d c (util_op pk i x ((t, d), c))"
proof -
  let ?k = "unat (op_index x)" and ?n = "unat (op_size x)"
  have w: "?k < ids" "M ?k = None" "0 < ?n" "?n \<le> limit" "trace_wf limit ids (insert ?k (dom M)) xs"
    using wf ty by auto
  have sint: "sint (op_size x) = int ?n"
    using sint_nonneg_word32 [of ?n] w(4) bnd(2) by simp
  from malloc_step [OF inv w(2,1,3,4) bnd(2)] show ?thesis
  proof (elim disjE exE conjE)
    fix u
    assume "hs_malloc hs ?n h = None" "pk_malloc pk (of_nat ?n) (mach d) = Some (NULL, u)" "hi (mach d) < brk (mach d) + ?n + slack"
    then show ?thesis
      by (auto simp: util_done_def heap_step_def Let_def util_op_def util_alloc_def ty)
  next
    fix a h' p e u
    let ?M = "M(?k \<mapsto> (p, e, ?n))"
    assume spec: "hs_malloc hs ?n h = Some (a, h')" and run: "pk_malloc pk (of_nat ?n) (mach d) = Some (of_nat p, u)" "(of_nat p :: addr) \<noteq> NULL"
      and u: "util_inv models ids ?M (h', N(?k := a)) (stored ?k p ?n t) u" "grows (mach d) u (?n + slack)"
    have tot: "total_size c + int ?n = int (\<Sum>j < ids. sizes_of ?M j)"
      using sum_upd [OF w(1), of "sizes_of M" ?n] c w(2) by (simp add: sizes_of_def)
    have "util_op pk i x ((t, d), c)
        = Some (Next ((stored ?k p ?n t, d\<lparr>mach := u\<rparr>), update_max (c\<lparr>total_size := total_size c + int ?n\<rparr>)))"
      using run util_total_fits [OF u(1) tot]
      by (simp add: util_op_def util_alloc_def ty util_arrays(1) [OF inv w(1) bnd(1)] sint)
    with spec u tot w(5) show ?thesis
      unfolding util_done_def
      by (intro disjI1 exI [of _ ?M]) (auto simp: update_max_def after_op_def ty max_def heap_step_def Let_def)
  qed
qed

lemma util_realloc_step:
  assumes inv: "util_inv models ids M (h, N) t (mach d)" and wf: "trace_wf limit ids (dom M) (x # xs)" and ty: "op_type x = REALLOC"
    and bnd: "ids \<le> 2 ^ 31" "limit < 2 ^ 31" and c: "total_size c = int (\<Sum>k < ids. sizes_of M k)"
  shows "util_done ids M (h, N) x xs d c (util_op pk i x ((t, d), c))"
proof -
  let ?k = "unat (op_index x)" and ?n = "unat (op_size x)"
  have w: "?k < ids" "?k \<in> dom M" "0 < ?n" "?n \<le> limit" "trace_wf limit ids (dom M) xs"
    using wf ty by auto
  obtain q e m A where M: "M ?k = Some (q, e, m)" and pl: "placed A M t"
    by (rule util_live [OF inv w(2)])
  note pk = placedD [OF pl M] and arr = util_arrays [OF inv w(1) bnd(1)]
  have sint: "sint (op_size x) = int ?n" "sint (of_nat m :: u32) = int m"
    using sint_nonneg_word32 [of ?n] sint_nonneg_word32 [of m] w(4) bnd(2) pk(4) by simp_all
  from realloc_step [OF inv M w(1,3,4) bnd(2)] show ?thesis
  proof (elim disjE exE conjE)
    fix u
    assume "hs_realloc hs (N ?k) ?n h = None" "pk_realloc pk (of_nat q) (of_nat ?n) (mach d) = Some (NULL, u)" "hi (mach d) < brk (mach d) + ?n + slack"
    then show ?thesis
      using pk by (auto simp: util_done_def heap_step_def Let_def util_op_def util_realloc_def ty arr)
  next
    fix a h' p f u
    let ?M = "M(?k \<mapsto> (p, f, ?n))" and ?v = "total_size c + (int ?n - int m)"
    assume spec: "hs_realloc hs (N ?k) ?n h = Some (a, h')" and run: "pk_realloc pk (of_nat q) (of_nat ?n) (mach d) = Some (of_nat p, u)" "(of_nat p :: addr) \<noteq> NULL"
      and u: "util_inv models ids ?M (h', N(?k := a)) (stored ?k p ?n t) u" "grows (mach d) u (?n + slack)"
    have tot: "?v = int (\<Sum>j < ids. sizes_of ?M j)"
      using sum_upd [OF w(1), of "sizes_of M" ?n] c M by (simp add: sizes_of_def)
    have "int32 (int ?n - int m) = Some (int ?n - int m)"
      using w(4) bnd(2) pk(4) by (intro int32_diff) linarith+
    then have "util_op pk i x ((t, d), c)
        = Some (Next ((stored ?k p ?n t, d\<lparr>mach := u\<rparr>), update_max (c\<lparr>total_size := ?v\<rparr>)))"
      using run pk util_total_fits [OF u(1) tot] by (simp add: util_op_def util_realloc_def ty arr sint)
    moreover have "dom ?M = dom M"
      using w(2) by auto
    ultimately show ?thesis
      using spec u tot w(5) unfolding util_done_def
      by (intro disjI1 exI [of _ ?M]) (auto simp: update_max_def after_op_def ty max_def heap_step_def Let_def)
  qed
qed

lemma util_free_step:
  assumes inv: "util_inv models ids M (h, N) t (mach d)" and wf: "trace_wf limit ids (dom M) (x # xs)" and ty: "op_type x = FREE"
    and bnd: "ids \<le> 2 ^ 31"
    and c: "total_size c = int (\<Sum>k < ids. sizes_of M k)" "total_size c \<le> max_total_size c"
  shows "util_done ids M (h, N) x xs d c (util_op pk i x ((t, d), c))"
proof -
  let ?k = "unat (op_index x)"
  have w: "?k < ids" "?k \<in> dom M" "trace_wf limit ids (dom M - {?k}) xs"
    using wf ty by auto
  obtain q e m A where M: "M ?k = Some (q, e, m)" and pl: "placed A M t"
    by (rule util_live [OF inv w(2)])
  note pk = placedD [OF pl M]
  have sint: "sint (of_nat m :: u32) = int m"
    using sint_nonneg_word32 [of m] pk(4) by simp
  let ?M = "M(?k := None)"
  obtain u where u: "pk_free pk (of_nat q) (mach d) = Some u" "util_inv models ids ?M (hs_free hs (N ?k) h, N) t u" "grows (mach d) u 0"
    using free_step [OF inv M] by blast
  have tot: "total_size c - int m = int (\<Sum>j < ids. sizes_of ?M j)"
    using sum_upd [OF w(1), of "sizes_of M" 0] c(1) M by (simp add: sizes_of_def)
  have "util_op pk i x ((t, d), c) = Some (Next ((t, d\<lparr>mach := u\<rparr>), c\<lparr>total_size := total_size c - int m\<rparr>))"
    using u(1) pk util_total_fits [OF u(2) tot]
    by (simp add: util_op_def util_free_def ty util_arrays(2,3) [OF inv w(1) bnd] sint)
  with u tot w(3) c(2) show ?thesis
    unfolding util_done_def
    by (intro disjI1 exI [of _ ?M]) (auto simp: after_op_def ty max_def heap_step_def Let_def)
qed

lemma util_op_step:
  assumes "util_inv models ids M hn t (mach d)" "trace_wf limit ids (dom M) (x # xs)"
    and "ids \<le> 2 ^ 31" "limit < 2 ^ 31"
    and "total_size c = int (\<Sum>k < ids. sizes_of M k)" "total_size c \<le> max_total_size c"
  shows "util_done ids M hn x xs d c (util_op pk i x ((t, d), c))"
  by (cases hn; cases "op_type x"; hypsubst) (rule util_alloc_step util_realloc_step util_free_step; use assms in simp)+

lemma for_ops_util:
  assumes "util_inv models ids M hn t (mach d)" "trace_wf limit ids (dom M) xs"
    and bnd: "ids \<le> 2 ^ 31" "limit < 2 ^ 31"
    and "total_size c = int (\<Sum>k < ids. sizes_of M k)" "total_size c \<le> max_total_size c"
  shows "(\<exists>M' hn' t' d' c'. heap_run hs xs hn = Some hn' \<and> for_ops (util_op pk) i (length xs) xs ((t, d), c) = Some (Next ((t', d'), c'))
       \<and> util_inv models ids M' hn' t' (mach d') \<and> grows (mach d) (mach d') (demand slack xs)
       \<and> max_total_size c' = max (max_total_size c) (int (high_water ids (sizes_of M) xs))
       \<and> high_water ids (sizes_of M) xs \<le> brk (mach d') - lo (mach d'))
    \<or> (heap_run hs xs hn = None \<and> hi (mach d) < brk (mach d) + demand slack xs
       \<and> (\<exists>m r. for_ops (util_op pk) i (length xs) xs ((t, d), c) = Some (Stop (app_error m) r)))"
  using assms(1,2,5,6)
proof (induction xs arbitrary: M hn t d c i)
  case Nil
  have "high_water ids (sizes_of M) [] \<le> brk (mach d) - lo (mach d)"
    using util_fit(1) [OF Nil(1)] by simp
  with Nil show ?case
    by (intro disjI1 exI [of _ M] exI [of _ hn] exI [of _ t] exI [of _ d] exI [of _ c]) (simp add: max_def)
next
  case (Cons x xs)
  let ?N = "sizes_of M"
  from util_op_step [OF Cons.prems(1,2) bnd Cons.prems(3,4), of i] show ?case
    unfolding util_done_def
  proof (elim disjE exE conjE)
    fix M1 hn1 t1 d1 c1
    assume h1: "heap_step hs x hn = Some hn1" and x: "util_op pk i x ((t, d), c) = Some (Next ((t1, d1), c1))"
      and inv: "util_inv models ids M1 hn1 t1 (mach d1)" "trace_wf limit ids (dom M1) xs"
      and N1: "sizes_of M1 = after_op x ?N" and g: "grows (mach d) (mach d1) (demand slack [x])"
      and c1: "total_size c1 = int (\<Sum>k < ids. sizes_of M1 k)"
        "max_total_size c1 = max (max_total_size c) (total_size c1)"
    have le: "total_size c1 \<le> max_total_size c1"
      by (simp add: c1(2))
    from Cons.IH [OF inv c1(1) le, of "i + 1"] show ?thesis
    proof (elim disjE exE conjE)
      fix M' hn' t' d' c'
      assume r: "heap_run hs xs hn1 = Some hn'" "for_ops (util_op pk) (i + 1) (length xs) xs ((t1, d1), c1) = Some (Next ((t', d'), c'))"
        and inv': "util_inv models ids M' hn' t' (mach d')" and g': "grows (mach d1) (mach d') (demand slack xs)"
        and m: "max_total_size c' = max (max_total_size c1) (int (high_water ids (sizes_of M1) xs))"
        and hw: "high_water ids (sizes_of M1) xs \<le> brk (mach d') - lo (mach d')"
      note gg = grows_trans [OF g g']
      have "(\<Sum>k < ids. ?N k) \<le> brk (mach d') - lo (mach d')"
        using util_fit(1) [OF Cons.prems(1)] growsD [OF gg] by simp
      with hw have "high_water ids ?N (x # xs) \<le> brk (mach d') - lo (mach d')"
        by (simp add: N1)
      moreover have "max_total_size c' = max (max_total_size c) (int (high_water ids ?N (x # xs)))"
        using max_int_absorb [OF Cons.prems(4) [unfolded Cons.prems(3)]
            high_water_start [where ids = ids and N = "after_op x ?N" and xs = xs]]
        by (simp only: m c1 N1 high_water.simps)
      ultimately show ?thesis
        using h1 x r inv' gg by (intro disjI1 exI [of _ M'] exI [of _ hn'] exI [of _ t'] exI [of _ d'] exI [of _ c']) auto
    next
      fix e r
      assume "heap_run hs xs hn1 = None" "hi (mach d1) < brk (mach d1) + demand slack xs"
        "for_ops (util_op pk) (i + 1) (length xs) xs ((t1, d1), c1) = Some (Stop (app_error e) r)"
      with h1 x growsD [OF g] show ?thesis
        by auto
    qed
  qed auto
qed

text \<open>
  The result of \<open>eval_mm_util\<close> is the rounded quotient of the high-water mark and the size
  of the heap, and the high-water mark is never more than that size.
\<close>

lemma eval_mm_util_value:
  assumes start: "arena_ok (mach d)" "hi (mach d) + limit + slack \<le> 2 ^ 32"
    and t: "sint (num_ops t) = int (length (ops t))" "length (block_sizes t) = length (blocks t)"
    and wf: "trace_wf limit (length (blocks t)) {} (ops t)" "0 < high_water (length (blocks t)) (\<lambda>_. 0) (ops t)"
    and bnd: "length (blocks t) \<le> 2 ^ 31" "limit < 2 ^ 31"
  defines "need \<equiv> slack + demand slack (ops t)"
    and "hwm \<equiv> high_water (length (blocks t)) (\<lambda>_. 0) (ops t)"
  shows "(serves hs (ops t) \<and> (\<exists>t' d' size. eval_mm_util pk rnd (t, d) = Some (Inr (rnd (real hwm / real size), (t', d')))
       \<and> hwm \<le> size \<and> size = brk (mach d') - lo (mach d')
       \<and> grows (mem_reset_brk (mach d)) (mach d') need))
    \<or> (\<not> serves hs (ops t) \<and> MAX_HEAP < need \<and> (\<exists>m. eval_mm_util pk rnd (t, d) = Some (Inl (app_error m))))"
proof -
  let ?s = "mem_reset_brk (mach d)" and ?ids = "length (blocks t)" and ?c = "\<lparr>total_size = 0, max_total_size = 0\<rparr>"
  obtain u where u: "pk_init pk ?s = Some (0, u)" "models u (hs_init hs) {}" "grows ?s u slack"
    "\<And>n. hi u < brk u + n \<Longrightarrow> MAX_HEAP < slack + n"
    using started_at [OF start] by blast
  let ?d = "d\<lparr>mach := u\<rparr>"
  have inv: "util_inv models ?ids Map.empty (hs_init hs, \<lambda>_. 0) t (mach ?d)"
    using u(2) t(2) by (auto simp: util_inv_def placed_def)
  have N: "sizes_of Map.empty = (\<lambda>_. 0)"
    by (simp add: sizes_of_def fun_eq_iff)
  let ?run = "for_ops (util_op pk) 0 (length (ops t)) (ops t) ((t, ?d), ?c)"
  have run: "eval_mm_util pk rnd (t, d) = do {
       f \<leftarrow> ?run;
       case f of
         Stop e _ \<Rightarrow> Some (Inl e)
       | Return _ _ \<Rightarrow> None
       | Next ((t, d), c) \<Rightarrow> do {
           u \<leftarrow> double_div rnd (max_total_size c) (uint (mem_heapsize (mach d)));
           Some (Inr (u, (t, d))) } }"
    using u(1) t(1) by (simp add: eval_mm_util_def run_ops_def)
  have wf0: "trace_wf limit ?ids (dom Map.empty) (ops t)"
    "total_size ?c = int (\<Sum>k < ?ids. sizes_of Map.empty k)" "total_size ?c \<le> max_total_size ?c"
    using wf(1) by (simp_all add: N)
  from for_ops_util [OF inv wf0(1) bnd wf0(2,3), of 0, unfolded N] show ?thesis
  proof (elim disjE exE conjE)
    fix M' hn' t' d' c'
    assume h: "heap_run hs (ops t) (hs_init hs, \<lambda>_. 0) = Some hn'" and r: "?run = Some (Next ((t', d'), c'))" and inv': "util_inv models ?ids M' hn' t' (mach d')"
      and g: "grows (mach ?d) (mach d') (demand slack (ops t))"
      and m: "max_total_size c' = max (max_total_size ?c) (int (high_water ?ids (\<lambda>_. 0) (ops t)))"
      and hw: "high_water ?ids (\<lambda>_. 0) (ops t) \<le> brk (mach d') - lo (mach d')"
    let ?size = "brk (mach d') - lo (mach d')"
    have "uint (mem_heapsize (mach d')) = int ?size"
      using inv' heapsize_nat models_rep by (fastforce simp: util_inv_def)
    then have "eval_mm_util pk rnd (t, d) = Some (Inr (rnd (real hwm / real ?size), (t', d')))"
      using r m hw wf(2) by (simp add: run double_div_def hwm_def)
    moreover have "grows ?s (mach d') need"
      unfolding need_def by (rule grows_trans [OF u(3)]) (use g in simp)
    ultimately show ?thesis
      using hw h by (auto simp: hwm_def serves_def)
  next
    fix e r
    assume "heap_run hs (ops t) (hs_init hs, \<lambda>_. 0) = None" "hi (mach ?d) < brk (mach ?d) + demand slack (ops t)" "?run = Some (Stop (app_error e) r)"
    then show ?thesis
      using u(4) by (auto simp: run need_def serves_def)
  qed
qed

end

end
