(* ===== verification/Driver_Check.thy ===== *)
theory Driver_Check
  imports Driver_Valid
begin

text \<open>
  What \<open>eval_mm_valid\<close> has checked of an arbitrary malloc package when it returns 1: every
  single payload that the package has handed out on the way, against all the payloads in use
  at that time.
\<close>

section \<open>Payloads in use\<close>

text \<open>The payload the arrays of the trace have for an id, and the ids in use after some requests.\<close>

definition payload_at :: "trace_t \<Rightarrow> nat \<Rightarrow> range_t" where
  "payload_at t k = \<lparr>r_lo = the (blocks t ! k), r_hi = the (blocks t ! k) + the (block_sizes t ! k) - 1\<rparr>"

definition use :: "traceop_t \<Rightarrow> nat set \<Rightarrow> nat set" where
  "use x L = (if op_type x = FREE then L - {unat (op_index x)} else insert (unat (op_index x)) L)"

definition in_use :: "traceop_t list \<Rightarrow> nat set" where
  "in_use xs = fold use xs {}"

text \<open>
  The payload of \<open>k\<close> is aligned and inside the heap, and is apart from the payload of every
  other id in \<open>L\<close> that it does not strictly enclose.
\<close>

definition passed :: "trace_t \<Rightarrow> 'a driver \<Rightarrow> nat \<Rightarrow> nat set \<Rightarrow> bool" where
  "passed t d k L \<longleftrightarrow>
     (let r = payload_at t k in
      IS_ALIGNED (r_lo r) \<and> r_lo r \<le> r_hi r \<and> mem_heap_lo (mach d) \<le> r_lo r \<and> r_hi r \<le> mem_heap_hi (mach d)
      \<and> (\<forall>j \<in> L - {k}. meets (r_lo r) (r_hi r) (payload_at t j) \<longrightarrow> encloses (r_lo r) (r_hi r) (payload_at t j)))"

text \<open>The payload has been recorded.\<close>

definition recorded :: "trace_t \<Rightarrow> nat \<Rightarrow> bool" where
  "recorded t k \<longleftrightarrow> k < length (blocks t) \<and> blocks t ! k \<noteq> None \<and> block_sizes t ! k \<noteq> None
     \<and> r_lo (payload_at t k) \<le> r_hi (payload_at t k)"

text \<open>
  The bookkeeping of the driver: the range list consists of the payloads of the ids in use,
  in some order, no two at the same address.
\<close>

definition books :: "nat \<Rightarrow> trace_t \<Rightarrow> 'a driver \<Rightarrow> nat list \<Rightarrow> bool" where
  "books ids t d js \<longleftrightarrow>
     length (blocks t) = ids \<and> length (block_sizes t) = ids \<and> ranges d = map (payload_at t) js
     \<and> distinct (map r_lo (ranges d)) \<and> list_all (recorded t) js"

lemma booksD:
  assumes "books ids t d js"
  shows "length (blocks t) = ids" "length (block_sizes t) = ids" "ranges d = map (payload_at t) js"
    "distinct (map r_lo (ranges d))" "j \<in> set js \<Longrightarrow> recorded t j" "distinct js"
proof -
  show d: "length (blocks t) = ids" "length (block_sizes t) = ids" "ranges d = map (payload_at t) js"
    "distinct (map r_lo (ranges d))" "j \<in> set js \<Longrightarrow> recorded t j"
    using assms unfolding books_def list_all_iff by blast+
  show "distinct js"
    using d(4) unfolding d(3) by (simp add: distinct_map)
qed

lemma books_cong:
  assumes "ranges e = ranges d" "books ids t d js"
  shows "books ids t e js"
  using assms(2) unfolding books_def assms(1) .

lemma remove_from_map:
  assumes "distinct (map r_lo (map f js))" "k \<in> set js"
  shows "remove_from (r_lo (f k)) (map f js) = map f (remove1 k js)"
  using assms by (induction js) force+

lemma books_remove:
  assumes "books ids t d js" "k \<in> set js" "ranges e = remove_from (the (blocks t ! k)) (ranges d)"
  shows "books ids t e (remove1 k js)" "set (remove1 k js) = set js - {k}"
proof -
  note b = booksD [OF assms(1)]
  have r: "ranges e = map (payload_at t) (remove1 k js)"
    using remove_from_map [OF b(4) [unfolded b(3)] assms(2)] assms(3) b(3) by (simp add: payload_at_def)
  have "distinct (map r_lo (ranges e))"
    unfolding assms(3) by (rule distinct_remove_from [OF b(4)])
  then show "books ids t e (remove1 k js)"
    using assms(1) r by (auto simp: books_def list_all_iff dest: notin_set_remove1 [rotated] set_remove1_subset [THEN subsetD])
  show "set (remove1 k js) = set js - {k}"
    by (rule set_remove1_eq [OF b(6)])
qed

section \<open>One payload\<close>

lemma sint_unat:
  assumes "0 \<le> sint (i :: u32)"
  shows "sint i = int (unat i)"
proof -
  have "sint i < 2 ^ 32"
    using sint_lt [of i] by simp
  with assms have "uint i = sint i"
    by (simp add: uint_sint [of i] take_bit_int_eq_self)
  then show ?thesis
    by simp
qed

lemma in_boundsD: "in_bounds i xs \<Longrightarrow> unat i < length xs"
  using sint_unat [of i] unfolding in_bounds_def by (simp only: of_nat_less_iff)

text \<open>A payload with both ends in the heap does not wrap around.\<close>

lemma no_wrap_around:
  assumes "arena_ok s" "0 < sint (sz :: u32)" "p \<le> mem_heap_hi s" "mem_heap_lo s \<le> p + sz - 1"
  shows "p \<le> p + sz - 1"
proof (rule ccontr)
  assume "\<not> p \<le> p + sz - 1"
  have sz: "0 < unat sz" "unat sz < 2 ^ 31"
  proof -
    have "int (unat sz) < int (2 ^ 31)" "int 0 < int (unat sz)"
      using assms(2) sint_lt [of sz] unfolding sint_unat [of sz, OF order_less_imp_le [OF assms(2)]] by simp_all
    then show "0 < unat sz" "unat sz < 2 ^ 31"
      by (simp_all only: of_nat_less_iff)
  qed
  have s: "0 < brk s" "brk s \<le> lo s + MAX_HEAP"
    using assms(1) by (auto simp: arena_ok_def)
  then have "unat (mem_brk s - 1) = brk s - 1"
    by (subst unat_minus_one) auto
  then have "unat p \<le> brk s - 1"
    using assms(3) by (simp add: word_le_nat_alt mem_heap_hi_def)
  moreover have "unat (p + sz - 1) + 2 ^ 32 = unat p + (unat sz - 1)"
  proof -
    have e: "p + sz - 1 = p + (sz - 1)"
      by simp
    have "unat (sz - 1) = unat sz - 1"
      by (rule unat_minus_one) (use sz(1) in auto)
    moreover from \<open>\<not> p \<le> p + sz - 1\<close> have "2 ^ 32 \<le> unat p + unat (sz - 1)"
      unfolding e using no_olen_add_nat [of p "sz - 1"] by simp
    ultimately show ?thesis
      unfolding e using unat_plus_if' [of p "sz - 1"] sz by auto
  qed
  moreover have "lo s \<le> unat (p + sz - 1)"
    using assms(4) by (simp add: word_le_nat_alt mem_heap_lo_def)
  ultimately show False
    using s sz by (simp add: MAX_HEAP_val)
qed

lemma memset_registers:
  assumes "memset p c n (mach e) = Some m" "f = e\<lparr>mach := m\<rparr>"
  shows "ranges f = ranges e" "mem_brk (mach f) = mem_brk (mach e)" "mem_start_brk (mach f) = mem_start_brk (mach e)"
  using assms by (auto simp: memset_def split: if_splits)

text \<open>The end of \<open>valid_alloc\<close> and \<open>valid_realloc\<close>: the new payload joins the others.\<close>

lemma new_payload:
  assumes b: "books ids t d js" "k \<notin> set js" "k = unat i"
    and add: "add_range node p sz tracenum opnum d = Inr (r, e)" "r \<noteq> 0"
    and set: "set_block i p t = Some t1" "set_block_size i sz t1 = Some u"
    and f: "ranges f = ranges e" "mem_brk (mach f) = mem_brk (mach e)" "mem_start_brk (mach f) = mem_start_brk (mach e)"
    and ok: "arena_ok (mach f)"
  shows "books ids u f (k # js) \<and> passed u f k (set (k # js)) \<and> block_sizes u ! k = Some sz"
proof -
  note b' = booksD [OF b(1)]
  let ?q = "\<lparr>r_lo = p, r_hi = p + sz - 1\<rparr>"
  have u: "blocks u = (blocks t)[k := Some p]" "block_sizes u = (block_sizes t)[k := Some sz]" "k < length (blocks t)"
    using set in_boundsD [of i] by (auto simp: set_block_def set_block_size_def set_elem_def b(3) split: if_splits)
  then have "k < ids"
    using b'(1) by simp
  have new: "payload_at u k = ?q"
    using u b'(1,2) by (simp add: payload_at_def)
  have old: "payload_at u j = payload_at t j" "recorded u j = recorded t j" if "j \<in> set js" for j
  proof -
    have "j \<noteq> k"
      using that b(2) by auto
    then show "payload_at u j = payload_at t j" "recorded u j = recorded t j"
      by (simp_all add: payload_at_def recorded_def u(1,2))
  qed
  from add have a: "0 < sint sz" "IS_ALIGNED p" "find_overlap p (p + sz - 1) (ranges d) = None"
    "mem_heap_lo (mach e) \<le> p" "p \<le> mem_heap_hi (mach e)"
    "mem_heap_lo (mach e) \<le> p + sz - 1" "p + sz - 1 \<le> mem_heap_hi (mach e)" "ranges e = ?q # ranges d"
    by (auto simp: add_range_def Let_def not_less split: if_splits option.splits)
  have ends: "mem_heap_hi (mach f) = mem_heap_hi (mach e)" "mem_heap_lo (mach f) = mem_heap_lo (mach e)"
    using f by (simp_all add: mem_heap_hi_def mem_heap_lo_def)
  have le: "p \<le> p + sz - 1"
    using no_wrap_around [OF ok a(1)] a(5,6) ends by simp
  have apart: "meets p (p + sz - 1) (payload_at t j) \<longrightarrow> encloses p (p + sz - 1) (payload_at t j)" if "j \<in> set js" for j
    using a(3) that unfolding find_overlap_None_iff [OF le] b'(3) by simp
  have "p \<noteq> r_lo (payload_at t j)" if "j \<in> set js" for j
    using apart [OF that] b'(5) [OF that] le by (auto simp: recorded_def meets_def encloses_def)
  then have "distinct (map r_lo (ranges f))"
    using b'(3,4) f(1) a(8) by auto
  moreover have "ranges f = map (payload_at u) (k # js)"
    using f(1) a(8) b'(3) new old(1) by simp
  moreover have "recorded u k"
    using \<open>k < ids\<close> u b'(1,2) le new by (simp add: recorded_def)
  ultimately have "books ids u f (k # js)"
    using b' old(2) u by (auto simp: books_def list_all_iff)
  moreover have "passed u f k (set (k # js))"
    using a le apart old(1) ends by (auto simp: passed_def new Let_def)
  moreover have "block_sizes u ! k = Some sz"
    using \<open>k < ids\<close> b'(2) u(2) by simp
  ultimately show ?thesis
    by blast
qed

section \<open>One request\<close>

text \<open>After a request that does not end the run.\<close>

lemma valid_op_books:
  assumes b: "books ids t d js" and wf: "trace_wf limit ids (set js) (x # xs)"
    and run: "valid_op pk nodes tracenum i x (t, d) = Some (Next (t', d'))" and ok: "arena_ok (mach d')"
  shows "\<exists>js'. books ids t' d' js' \<and> set js' = use x (set js) \<and> trace_wf limit ids (use x (set js)) xs
    \<and> (op_type x \<noteq> FREE \<longrightarrow> passed t' d' (unat (op_index x)) (use x (set js))
        \<and> block_sizes t' ! unat (op_index x) = Some (op_size x))"
proof -
  let ?k = "unat (op_index x)"
  show ?thesis
  proof (cases "op_type x")
    case ALLOC
    from run obtain p m r e n t1 where new:
      "add_range (nodes i) p (op_size x) tracenum i (d\<lparr>mach := m\<rparr>) = Inr (r, e)" "r \<noteq> 0"
      "set_block (op_index x) p t = Some t1" "set_block_size (op_index x) (op_size x) t1 = Some t'"
      "memset p (ucast (fill (op_index x))) (op_size x) (mach e) = Some n" "d' = e\<lparr>mach := n\<rparr>"
      by (auto simp: valid_op_def valid_alloc_def ALLOC Let_def bind_eq_Some_conv split: if_splits sum.splits prod.splits)
    have "books ids t (d\<lparr>mach := m\<rparr>) js" "?k \<notin> set js"
      using books_cong [OF _ b, of "d\<lparr>mach := m\<rparr>"] wf ALLOC by simp_all
    from new_payload [OF this refl new(1-4) memset_registers [OF new(5,6)] ok]
    have "books ids t' d' (?k # js) \<and> passed t' d' ?k (set (?k # js)) \<and> block_sizes t' ! ?k = Some (op_size x)" .
    then show ?thesis
      using wf ALLOC by (intro exI [of _ "?k # js"]) (auto simp: use_def)
  next
    case REALLOC
    have k: "?k \<in> set js"
      using wf REALLOC by simp
    from run obtain p q m r e n t1 where old: "get_elem (blocks t) (op_index x) = Some q"
      and new: "add_range (nodes i) p (op_size x) tracenum i (remove_range q (d\<lparr>mach := m\<rparr>)) = Inr (r, e)" "r \<noteq> 0"
      "set_block (op_index x) p t = Some t1" "set_block_size (op_index x) (op_size x) t1 = Some t'"
      "memset p (ucast (fill (op_index x))) (op_size x) (mach e) = Some n" "d' = e\<lparr>mach := n\<rparr>"
      by (auto simp: valid_op_def valid_realloc_def REALLOC Let_def bind_eq_Some_conv
          split: if_splits sum.splits prod.splits)
    let ?d = "remove_range q (d\<lparr>mach := m\<rparr>)" and ?js = "remove1 ?k js"
    have "ranges ?d = remove_from (the (blocks t ! ?k)) (ranges d)"
      using old by (simp add: remove_range_def get_elem_def split: if_splits)
    note rm = books_remove [OF b k this]
    have "?k \<notin> set ?js"
      using rm(2) by simp
    from new_payload [OF rm(1) this refl new(1-4) memset_registers [OF new(5,6)] ok]
    have "books ids t' d' (?k # ?js) \<and> passed t' d' ?k (set (?k # ?js)) \<and> block_sizes t' ! ?k = Some (op_size x)" .
    moreover have "set (?k # ?js) = set js" "use x (set js) = set js"
      using rm(2) k REALLOC by (auto simp: use_def)
    ultimately show ?thesis
      using wf REALLOC by (intro exI [of _ "?k # ?js"]) auto
  next
    case FREE
    have k: "?k \<in> set js"
      using wf FREE by simp
    from run obtain q m where old: "get_elem (blocks t) (op_index x) = Some q"
      "t' = t" "d' = remove_range q d\<lparr>mach := m\<rparr>"
      by (auto simp: valid_op_def valid_free_def FREE Let_def bind_eq_Some_conv)
    then have "ranges d' = remove_from (the (blocks t ! ?k)) (ranges d)"
      by (simp add: remove_range_def get_elem_def split: if_splits)
    note rm = books_remove [OF b k this]
    with wf FREE old(2) show ?thesis
      by (intro exI [of _ "remove1 ?k js"]) (auto simp: use_def)
  qed
qed

section \<open>A run of requests\<close>

text \<open>At every point of the run the memory system is in order.\<close>

definition arena_kept :: "'a package \<Rightarrow> (int \<Rightarrow> bool) \<Rightarrow> int \<Rightarrow> 'a state \<Rightarrow> bool" where
  "arena_kept pk nodes tracenum s \<longleftrightarrow>
     (\<forall>n t d. for_ops (valid_op pk nodes tracenum) 0 n (ops (fst s)) s = Some (Next (t, d)) \<longrightarrow> arena_ok (mach d))"

lemma in_use_Suc: "k < length xs \<Longrightarrow> in_use (take (Suc k) xs) = use (xs ! k) (in_use (take k xs))"
  by (simp add: in_use_def take_Suc_conv_app_nth)

lemma for_ops_Suc:
  assumes "for_ops body i (Suc n) xs s = Some (Next v)"
  obtains u where "for_ops body i n xs s = Some (Next u)" "body (i + int n) (xs ! n) u = Some (Next v)" "n < length xs"
  using for_ops_reaches [OF assms, of n] assms by auto

lemma run_books:
  assumes wf: "trace_wf limit ids {} (ops t)" and len: "length (blocks t) = ids" "length (block_sizes t) = ids"
    and empty: "ranges d = []" and ok: "arena_kept pk nodes tracenum (t, d)"
    and run: "for_ops (valid_op pk nodes tracenum) 0 n (ops t) (t, d) = Some (Next (t', d'))" "n \<le> length (ops t)"
  shows "\<exists>js. books ids t' d' js \<and> set js = in_use (take n (ops t)) \<and> trace_wf limit ids (set js) (drop n (ops t))"
  using run
proof (induction n arbitrary: t' d')
  case 0
  then show ?case
    using wf len empty by (auto simp: books_def in_use_def)
next
  case (Suc n)
  obtain tu du where u: "for_ops (valid_op pk nodes tracenum) 0 n (ops t) (t, d) = Some (Next (tu, du))"
    "valid_op pk nodes tracenum (int n) (ops t ! n) (tu, du) = Some (Next (t', d'))" "n < length (ops t)"
    using for_ops_Suc [OF Suc.prems(1)] by (metis add_0 surj_pair)
  obtain js where js: "books ids tu du js" "set js = in_use (take n (ops t))" "trace_wf limit ids (set js) (drop n (ops t))"
    using Suc.IH [OF u(1)] u(3) by auto
  have "arena_ok (mach d')"
    using ok Suc.prems(1) by (simp add: arena_kept_def)
  moreover have "trace_wf limit ids (set js) (ops t ! n # drop (Suc n) (ops t))"
    using js(3) u(3) by (simp only: Cons_nth_drop_Suc)
  ultimately show ?case
    using valid_op_books [OF js(1) _ u(2)] unfolding in_use_Suc [OF u(3)] js(2) by metis
qed

section \<open>A whole run\<close>

text \<open>A request that returns, returns 0.\<close>

lemma valid_op_return_0: "valid_op pk nodes tracenum i x s = Some (Return v s') \<Longrightarrow> v = 0"
  by (cases s; cases "op_type x")
    (auto simp: valid_op_def valid_alloc_def valid_realloc_def valid_free_def Let_def bind_eq_Some_conv
      split: if_splits sum.splits prod.splits)

lemma eval_mm_valid_runs:
  assumes "eval_mm_valid pk nodes tracenum (t, d) = Some (Return 1 s')"
  obtains r m where "pk_init pk (mem_reset_brk (mach d)) = Some (r, m)" "0 \<le> r"
    "run_ops (valid_op pk nodes tracenum) t (t, d\<lparr>ranges := [], mach := m\<rparr>) = Some (Next s')"
proof -
  from assms obtain r m f where m: "pk_init pk (mem_reset_brk (mach d)) = Some (r, m)" "0 \<le> r"
    and run: "run_ops (valid_op pk nodes tracenum) t (t, d\<lparr>ranges := [], mach := m\<rparr>) = Some f"
    and f: "(case f of Next s \<Rightarrow> Return 1 s | f \<Rightarrow> f) = Return 1 s'"
    by (auto simp: eval_mm_valid_def clear_ranges_def Let_def bind_eq_Some_conv malloc_error_def
        split: if_splits prod.splits)
  have "f = Next s'"
  proof (cases f)
    case (Return v u)
    with run have "v = 0"
      unfolding run_ops_def
      by (auto intro: for_ops_return [where P = "\<lambda>_. True" and Q = "\<lambda>_. v = 0"] dest: valid_op_return_0)
    with f Return show ?thesis
      by simp
  qed (use f in simp_all)
  with m run that show thesis
    by blast
qed

lemma eval_mm_valid_passed:
  assumes ret: "eval_mm_valid pk nodes tracenum (t, d) = Some (Return 1 s')"
    and t: "sint (num_ops t) = int (length (ops t))" "length (block_sizes t) = length (blocks t)"
    and wf: "trace_wf limit (length (blocks t)) {} (ops t)"
    and k: "k < length (ops t)" "op_type (ops t ! k) \<noteq> FREE"
    and ok: "\<And>r m. pk_init pk (mem_reset_brk (mach d)) = Some (r, m)
      \<Longrightarrow> arena_kept pk nodes tracenum (t, d\<lparr>ranges := [], mach := m\<rparr>)"
  shows "\<exists>r m t1 d1. pk_init pk (mem_reset_brk (mach d)) = Some (r, m) \<and> 0 \<le> r
    \<and> for_ops (valid_op pk nodes tracenum) 0 (Suc k) (ops t) (t, d\<lparr>ranges := [], mach := m\<rparr>) = Some (Next (t1, d1))
    \<and> block_sizes t1 ! unat (op_index (ops t ! k)) = Some (op_size (ops t ! k))
    \<and> passed t1 d1 (unat (op_index (ops t ! k))) (in_use (take (Suc k) (ops t)))"
proof (rule eval_mm_valid_runs [OF ret])
  fix r m
  let ?s = "(t, d\<lparr>ranges := [], mach := m\<rparr>)" and ?f = "valid_op pk nodes tracenum" and ?ids = "length (blocks t)"
  assume m: "pk_init pk (mem_reset_brk (mach d)) = Some (r, m)" "0 \<le> r"
    and run: "run_ops (valid_op pk nodes tracenum) t ?s = Some (Next s')"
  note ok = ok [OF m(1)]
  have all: "for_ops ?f 0 (length (ops t)) (ops t) ?s = Some (Next s')"
    using run t(1) by (simp add: run_ops_def)
  obtain tu du t1 d1 where u: "for_ops ?f 0 k (ops t) ?s = Some (Next (tu, du))"
    "?f (int k) (ops t ! k) (tu, du) = Some (Next (t1, d1))" "for_ops ?f 0 (Suc k) (ops t) ?s = Some (Next (t1, d1))"
    using for_ops_reaches [OF all k(1)] by (metis add_0 surj_pair)
  obtain js where js: "books ?ids tu du js" "set js = in_use (take k (ops t))" "trace_wf limit ?ids (set js) (drop k (ops t))"
    using run_books [OF wf refl t(2) _ ok u(1)] k(1) by auto
  have "arena_ok (mach d1)"
    using ok u(3) by (simp add: arena_kept_def)
  moreover have "trace_wf limit ?ids (set js) (ops t ! k # drop (Suc k) (ops t))"
    using js(3) k(1) by (simp only: Cons_nth_drop_Suc)
  ultimately have "passed t1 d1 (unat (op_index (ops t ! k))) (use (ops t ! k) (set js))
      \<and> block_sizes t1 ! unat (op_index (ops t ! k)) = Some (op_size (ops t ! k))"
    using valid_op_books [OF js(1) _ u(2)] k(2) by blast
  with m u(3) js(2) k(1) show ?thesis
    by (auto simp: in_use_Suc)
qed

section \<open>Packages that keep the contract\<close>

lemma for_ops_take:
  assumes "n \<le> length xs"
  shows "for_ops body i n xs s = for_ops body i n (take n xs) s"
proof -
  have "for_ops body i (length (take n xs) + 0) (take n xs @ drop n xs) s = for_ops body i (length (take n xs)) (take n xs) s"
    unfolding for_ops_append by (auto split: option.split flow.split)
  with assms show ?thesis
    by simp
qed

context exact_package
begin

lemma contract_arena_kept:
  assumes start: "arena_ok (mach d)" "hi (mach d) + limit + slack \<le> 2 ^ 32"
    and len: "length (block_sizes t) = length (blocks t)"
    and wf: "trace_wf limit (length (blocks t)) {} (ops t)" "fills_plain (ops t)"
    and bnd: "length (blocks t) \<le> 2 ^ 31" "limit < 2 ^ 31" and nodes: "\<And>i. nodes i"
    and init: "pk_init pk (mem_reset_brk (mach d)) = Some (r, m)"
  shows "arena_kept pk nodes tracenum (t, d\<lparr>ranges := [], mach := m\<rparr>)"
proof (rule eval_mm_valid_start [OF start len])
  fix u
  let ?d = "d\<lparr>ranges := [], mach := m\<rparr>" and ?f = "valid_op pk nodes tracenum"
  assume "pk_init pk (mem_reset_brk (mach d)) = Some (0, u)"
    and inv: "driver_inv models (length (blocks t)) Map.empty (hs_init hs, \<lambda>_. 0) t (d\<lparr>ranges := [], mach := u\<rparr>)"
  with init have m: "m = u"
    by simp
  have "arena_ok (mach d')" if run: "for_ops ?f 0 n (ops t) (t, ?d) = Some (Next (t', d'))" for n t' d'
  proof -
    have n: "n \<le> length (ops t)"
      using for_ops_reaches [OF run, of "length (ops t)"] by (cases "length (ops t) < n") auto
    let ?xs = "take n (ops t)"
    have wf': "trace_wf limit (length (blocks t)) (dom Map.empty) (?xs @ drop n (ops t))"
      using wf(1) by simp
    have "set ?xs \<subseteq> set (ops t)"
      by (rule set_take_subset)
    with wf(2) have plain: "fills_plain ?xs"
      by (auto simp: fills_plain_def list_all_iff)
    have "for_ops ?f 0 (length ?xs) ?xs (t, d\<lparr>ranges := [], mach := u\<rparr>) = Some (Next (t', d'))"
      using run for_ops_take [OF n, of ?f 0 "(t, ?d)"] n by (simp add: m)
    with for_ops_valid [where nodes = nodes and tracenum = tracenum and i = 0, OF inv wf' plain bnd nodes]
    obtain M' hn' where "driver_inv models (length (blocks t)) M' hn' t' d'"
      by (auto simp: out_of_memory_def)
    then show ?thesis
      unfolding driver_inv_def by (blast intro: rep_arena models_rep)
  qed
  then show ?thesis
    by (simp add: arena_kept_def)
qed

end

end
