(* ===== verification/Mm_Package.thy ===== *)
theory Mm_Package
  imports Mm_Client Client_Data Driver_Util Driver_Check
begin

text \<open>
  The functions of \<open>mm.c\<close> as a package in the sense of \<open>mm.h\<close>, and the proof that they
  keep the contract the driver relies on: the payload of an allocated block of \<open>n\<close> bytes
  has a capacity of \<open>n - 8\<close>. The heap is the first-fit heap \<open>mm_heap\<close>, a list of blocks, which
  says for every request where its block is or that there is no room for it.
\<close>

definition mm_package :: "unit mm_ext package" where
  "mm_package = \<lparr>pk_init = mm_init, pk_malloc = mm_malloc, pk_free = mm_free, pk_realloc = mm_realloc\<rparr>"

lemma mm_package_simps [simp]:
  "pk_init mm_package = mm_init" "pk_malloc mm_package = mm_malloc"
  "pk_free mm_package = mm_free" "pk_realloc mm_package = mm_realloc"
  by (simp_all add: mm_package_def)

definition payload :: "nat \<times> nat \<Rightarrow> nat \<times> nat" where
  "payload b = (fst b, snd b - 8)"

text \<open>
  \<open>k\<close> bounds the requests: break, request and heap extension together must not reach
  the end of the address space.
\<close>

definition mm_models :: "nat \<Rightarrow> mm \<Rightarrow> (nat \<times> bool) list \<Rightarrow> (nat \<times> nat) set \<Rightarrow> bool" where
  "mm_models k s bs A \<longleftrightarrow> heap_rep s bs \<and> A = payload ` set (live s bs) \<and> hi s + k + 4128 \<le> 2 ^ 32"

definition mm_rep :: "nat \<Rightarrow> mm \<Rightarrow> (nat \<times> nat) set \<Rightarrow> bool" where
  "mm_rep k s A \<longleftrightarrow> (\<exists>bs. mm_models k s bs A)"

text \<open>
  The abstract heap: the list of blocks, which starts 16 bytes after the heap and may grow up to
  the end of the storage.
\<close>

definition heap_room :: "(nat \<times> bool) list \<Rightarrow> nat" where
  "heap_room bs = MAX_HEAP - (16 + total bs)"

definition mm_heap :: "(nat \<times> bool) list heap_spec" where
  "mm_heap = \<lparr>hs_init = [(4096, False)],
     hs_malloc = (\<lambda>n bs. case spec_malloc (heap_room bs) n bs of
         (None, bs') \<Rightarrow> None | (Some d, bs') \<Rightarrow> Some (16 + d, bs')),
     hs_free = (\<lambda>d bs. free_block (d - 16) bs),
     hs_realloc = (\<lambda>d n bs. case spec_malloc (heap_room bs) n bs of
         (None, bs') \<Rightarrow> None | (Some e, bs') \<Rightarrow> Some (16 + e, free_block (d - 16) bs'))\<rparr>"

lemma mm_heap_simps [simp]:
  "hs_init mm_heap = [(4096, False)]"
  "hs_malloc mm_heap n bs = (case spec_malloc (heap_room bs) n bs of
     (None, bs') \<Rightarrow> None | (Some d, bs') \<Rightarrow> Some (16 + d, bs'))"
  "hs_free mm_heap d bs = free_block (d - 16) bs"
  "hs_realloc mm_heap d n bs = (case spec_malloc (heap_room bs) n bs of
     (None, bs') \<Rightarrow> None | (Some e, bs') \<Rightarrow> Some (16 + e, free_block (d - 16) bs'))"
  by (simp_all add: mm_heap_def)

section \<open>How far the heap grows\<close>

lemma spec_malloc_total:
  assumes "spec_malloc room n bs = (r, bs')"
  shows "total bs \<le> total bs'" "total bs' \<le> total bs + (n + 4128)"
    "r = None \<Longrightarrow> room < n + 4128 \<and> bs' = bs"
proof -
  have e: "extend_size (block_size n) \<le> n + 4127"
    using extend_size_props(4) [of "block_size n"] block_size_props(4) [of n] by linarith
  have "total bs \<le> total bs' \<and> total bs' \<le> total bs + (n + 4128)"
  proof (cases r)
    case None
    with assms show ?thesis
      by (auto simp: spec_malloc_def Let_def split: option.splits if_splits prod.splits)
  next
    case (Some d)
    show ?thesis
    proof (rule spec_malloc_Some [OF assms [unfolded Some]])
      fix xs m ys
      assume m: "block_size n \<le> m" and bs': "bs' = xs @ place_blocks (block_size n) m @ ys"
        and bs: "bs = xs @ (m, False) # ys \<or>
         ys = [] \<and> extend_size (block_size n) \<le> room \<and> merge_left bs (extend_size (block_size n)) = (xs, m)"
      then show ?thesis
        using e by (auto simp: total_place_blocks dest: merge_leftD(1))
    qed
  qed
  then show "total bs \<le> total bs'" "total bs' \<le> total bs + (n + 4128)"
    by simp_all
  show "room < n + 4128 \<and> bs' = bs" if "r = None"
    using assms that e by (auto simp: spec_malloc_def Let_def split: option.splits if_splits prod.splits)
qed

lemma heap_rep_brk: "heap_rep s bs \<Longrightarrow> brk s = lo s + 16 + total bs"
  using heap_tags_bounds(2) [of s bs "[]"] by (simp add: heap_rep_def)

lemma heap_rep_grows:
  assumes "heap_rep s bs" "heap_rep u bs'" "total bs \<le> total bs'" "total bs' \<le> total bs + n"
    and "mem_start_brk u = mem_start_brk s" "mem_max_addr u = mem_max_addr s"
  shows "grows s u n"
  using assms heap_rep_brk by (simp add: grows_def)

lemma total_free_block: "total (free_block d bs) = total bs"
proof (cases "split_at d bs")
  case (Some r)
  obtain xs n al ys where r: "split_at d bs = Some (xs, (n, al), ys)"
    using Some by (cases r) auto
  then show ?thesis
    using split_at_SomeD [OF r] by (cases al) (auto simp: free_block_def total_insert_free)
qed (simp add: free_block_def)

section \<open>Payloads and blocks\<close>

lemma payloads_kept_iff: "payloads_kept s u B \<longleftrightarrow> kept s u (payload ` B)"
  by (auto simp: payloads_kept_def kept_def payload_def)

lemma payload_inj:
  assumes "heap_rep s bs"
  shows "inj_on payload (set (live s bs))"
  by (rule inj_onI)
    (use live_bounds [OF assms] live_disjoint [OF assms] in \<open>fastforce simp: payload_def\<close>)

lemma payload_image_diff:
  assumes "heap_rep s bs" "b \<in> set (live s bs)"
  shows "payload ` (set (live s bs) - {b}) = payload ` set (live s bs) - {payload b}"
  using inj_on_image_set_diff [OF payload_inj [OF assms(1)], of "set (live s bs)" "{b}"] assms(2)
  by simp

text \<open>The room there is for the heap to grow.\<close>

lemma heap_room_hi:
  assumes "heap_rep s bs"
  shows "heap_room bs = hi s - brk s"
proof -
  have "hi s = lo s + MAX_HEAP"
    using assms by (simp add: heap_rep_def heap_tags_def arena_ok_def)
  then show ?thesis
    by (simp add: heap_room_def heap_rep_brk [OF assms])
qed

lemma mm_modelsD:
  assumes "mm_models k s bs A"
  shows "heap_rep s bs" "A = payload ` set (live s bs)" "hi s + k + 4128 \<le> 2 ^ 32"
  using assms by (simp_all add: mm_models_def)

lemma mm_modelsI:
  assumes "heap_rep s bs" "A = payload ` set (live s bs)" "hi s + k + 4128 \<le> 2 ^ 32"
  shows "mm_models k s bs A"
  using assms by (simp add: mm_models_def)

text \<open>A member of the represented set is the payload of an allocated block.\<close>

lemma mm_repE:
  assumes "mm_rep k s A"
  obtains bs where "heap_rep s bs" "A = payload ` set (live s bs)" "hi s + k + 4128 \<le> 2 ^ 32"
  using assms by (auto simp: mm_rep_def mm_models_def)

lemma mm_models_rep: "mm_models k s bs A \<Longrightarrow> mm_rep k s A"
  by (auto simp: mm_rep_def)

lemma no_wrapI:
  assumes "heap_rep s bs" "hi s + k + 4128 \<le> 2 ^ 32" "n \<le> k"
  shows "no_wrap s n"
proof -
  have "brk s \<le> hi s"
    using assms(1) by (simp add: heap_rep_def heap_tags_def arena_ok_def)
  with assms(2,3) show ?thesis
    by (simp add: no_wrap_def)
qed
section \<open>The laws of the exact contract\<close>

lemma mm_init_models:
  assumes "arena_ok s" "brk s = lo s" "hi s + k + 4128 \<le> 2 ^ 32"
  shows "\<exists>u. mm_init s = Some (0, u) \<and> mm_models k u [(4096, False)] {} \<and> grows s u 4128"
proof -
  obtain u where u: "mm_init s = Some (0, u)" "heap_rep u [(4096, False)]"
    "mem_start_brk u = mem_start_brk s" "mem_max_addr u = mem_max_addr s" "brk u = lo s + 4112"
    using mm_init_refines [OF assms(1,2)] by blast
  have "mm_models k u [(4096, False)] {}"
    by (rule mm_modelsI [OF u(2)]) (use u(4) assms(3) in simp_all)
  with u assms(2) show ?thesis
    by (simp add: grows_def)
qed

lemma mm_malloc_models:
  assumes models: "mm_models k s bs A" and n: "0 < n" "n \<le> k"
  shows "(hs_malloc mm_heap n bs = None \<and> hi s < brk s + n + 4128
       \<and> (\<exists>u. mm_malloc (of_nat n) s = Some (NULL, u) \<and> mm_models k u bs A \<and> grows s u 0 \<and> kept s u A))
    \<or> (\<exists>d bs' c u. hs_malloc mm_heap n bs = Some (d, bs')
       \<and> mm_malloc (of_nat n) s = Some (of_nat (lo s + d), u) \<and> n \<le> c \<and> (lo s + d, c) \<notin> A
       \<and> mm_models k u bs' (insert (lo s + d, c) A) \<and> grows s u (n + 4128) \<and> kept s u A)"
proof -
  note rep = mm_modelsD(1) [OF models] and A = mm_modelsD(2) [OF models] and k = mm_modelsD(3) [OF models]
  note nw = no_wrapI [OF rep k n(2)]
  obtain r bs' where spec: "spec_malloc (hi s - brk s) n bs = (r, bs')"
    by fastforce
  show ?thesis
  proof (cases r)
    case None
    from mm_malloc_refines [OF rep n(1) nw spec] None
    have run: "mm_malloc (of_nat n) s = Some (NULL, s\<lparr>errno := ENOMEM\<rparr>)"
      by auto
    moreover have "mm_models k (s\<lparr>errno := ENOMEM\<rparr>) bs A"
      by (rule mm_modelsI) (use rep A k in \<open>simp_all add: heap_rep_errno\<close>)
    moreover have "hi s < brk s + n + 4128"
      using spec_malloc_total(3) [OF spec None] by linarith
    ultimately show ?thesis
      using spec None by (simp add: heap_room_hi [OF rep] grows_def kept_def byte_at_def)
  next
    case (Some e)
    let ?d = "16 + e"
    obtain u m where u: "mm_malloc (of_nat n) s = Some (of_nat (lo s + 16 + e), u)" "heap_rep u bs'"
      "mem_start_brk u = mem_start_brk s" "mem_max_addr u = mem_max_addr s" and m: "n + 8 \<le> m"
      and lv: "set (live u bs') = insert (lo s + 16 + e, m) (set (live s bs))"
      and new: "(lo s + 16 + e, m) \<notin> set (live s bs)" and kept: "payloads_kept s u (set (live s bs))"
      using mm_malloc_live [OF rep n(1) nw spec [unfolded Some]] by blast
    let ?q = "payload (lo s + 16 + e, m)"
    have "mm_models k u bs' (insert ?q A)"
      by (rule mm_modelsI [OF u(2)]) (use u(4) k lv A in auto)
    moreover have "?q \<notin> A"
      using payload_image_diff [OF u(2), of "(lo s + 16 + e, m)"] lv new A by auto
    moreover have "grows s u (n + 4128)"
      by (rule heap_rep_grows [OF rep u(2) spec_malloc_total(1,2) [OF spec] u(3,4)])
    moreover have "hs_malloc mm_heap n bs = Some (?d, bs')"
      using spec Some by (simp add: heap_room_hi [OF rep])
    ultimately show ?thesis
      using u(1) m kept A
      by (intro disjI2 exI [of _ ?d] exI [of _ bs'] exI [of _ "m - 8"] exI [of _ u])
        (auto simp: payloads_kept_iff payload_def add.assoc)
  qed
qed

lemma mm_free_models:
  assumes models: "mm_models k s bs A" and mem: "(p, c) \<in> A"
  shows "\<exists>u. mm_free (of_nat p) s = Some u \<and> mm_models k u (hs_free mm_heap (p - lo s) bs) (A - {(p, c)})
    \<and> grows s u 0 \<and> kept s u (A - {(p, c)})"
proof -
  note rep = mm_modelsD(1) [OF models] and A = mm_modelsD(2) [OF models] and k = mm_modelsD(3) [OF models]
  obtain n where n: "(p, n) \<in> set (live s bs)" "(p, c) = payload (p, n)"
    using mem A by (auto simp: payload_def)
  from mm_free_live [OF rep n(1)] obtain u m where u: "mm_free (of_nat p) s = Some u"
    "heap_rep u (free_block (p - (lo s + 16)) bs)" "u = s\<lparr>mem_bytes := m\<rparr>"
    "set (live u (free_block (p - (lo s + 16)) bs)) = set (live s bs) - {(p, n)}"
    "payloads_kept s u (set (live s bs) - {(p, n)})"
    by blast
  have A': "payload ` (set (live s bs) - {(p, n)}) = A - {(p, c)}"
    using payload_image_diff [OF rep n(1)] A n(2) by simp
  have "mm_models k u (free_block (p - (lo s + 16)) bs) (A - {(p, c)})"
    by (rule mm_modelsI [OF u(2)]) (use u(3,4) k A' in simp_all)
  with u(1,3,5) A' show ?thesis
    by (simp add: payloads_kept_iff grows_def)
qed

lemma mm_write_models:
  assumes models: "mm_models k s bs A" and mem: "(p, c) \<in> A" and ch: "changes_only s s' p (p + c)"
  shows "mm_models k s' bs A"
proof -
  note rep = mm_modelsD(1) [OF models] and A = mm_modelsD(2) [OF models] and k = mm_modelsD(3) [OF models]
  obtain n where n: "(p, n) \<in> set (live s bs)" "c = n - 8"
    using mem A by (auto simp: payload_def)
  have "heap_rep s' bs"
    by (rule heap_rep_payload [OF rep n(1)]) (use ch n(2) live_bounds(5) [OF rep n(1)] in simp)
  then show ?thesis
    by (rule mm_modelsI) (use A k changes_only_regs [OF ch] in simp_all)
qed

lemma mm_realloc_models:
  assumes models: "mm_models k s bs A" and mem: "(p, c) \<in> A" and n: "0 < n" "n \<le> k"
  shows "(hs_realloc mm_heap (p - lo s) n bs = None \<and> hi s < brk s + n + 4128
       \<and> (\<exists>u. mm_realloc (of_nat p) (of_nat n) s = Some (NULL, u) \<and> mm_models k u bs A \<and> grows s u 0 \<and> kept s u A))
    \<or> (\<exists>d bs' e u. hs_realloc mm_heap (p - lo s) n bs = Some (d, bs')
       \<and> mm_realloc (of_nat p) (of_nat n) s = Some (of_nat (lo s + d), u) \<and> n \<le> e
       \<and> (lo s + d, e) \<notin> A - {(p, c)} \<and> mm_models k u bs' (insert (lo s + d, e) (A - {(p, c)})) \<and> grows s u (n + 4128)
       \<and> kept s u (A - {(p, c)}) \<and> (\<forall>i < min n c. byte_at u (lo s + d + i) = byte_at s (p + i)))"
proof -
  note rep = mm_modelsD(1) [OF models] and A = mm_modelsD(2) [OF models] and k = mm_modelsD(3) [OF models]
  note nw = no_wrapI [OF rep k n(2)]
  obtain m where m: "(p, m) \<in> set (live s bs)" "(p, c) = payload (p, m)"
    using mem A by (auto simp: payload_def)
  note pb = live_bounds [OF rep m(1)]
  obtain r bs1 where spec: "spec_malloc (hi s - brk s) n bs = (r, bs1)"
    by fastforce
  show ?thesis
  proof (cases r)
    case None
    have run: "mm_realloc (of_nat p) (of_nat n) s = Some (NULL, s\<lparr>errno := ENOMEM\<rparr>)"
      by (rule mm_realloc_fails [OF rep _ _ n(1) nw spec [unfolded None]]) (use pb in auto)
    moreover have "mm_models k (s\<lparr>errno := ENOMEM\<rparr>) bs A"
      by (rule mm_modelsI) (use rep A k in \<open>simp_all add: heap_rep_errno\<close>)
    moreover have "hi s < brk s + n + 4128"
      using spec_malloc_total(3) [OF spec None] by linarith
    ultimately show ?thesis
      using spec None by (simp add: heap_room_hi [OF rep] grows_def kept_def byte_at_def)
  next
    case (Some d)
    define bs' where "bs' = free_block (p - (lo s + 16)) bs1"
    let ?q = "lo s + 16 + d"
    obtain u j where u: "mm_realloc (of_nat p) (of_nat n) s = Some (of_nat ?q, u)" "heap_rep u bs'"
      "mem_start_brk u = mem_start_brk s" "mem_max_addr u = mem_max_addr s" and j: "n + 8 \<le> j"
      and lv: "set (live u bs') = insert (?q, j) (set (live s bs) - {(p, m)})"
      and new: "(?q, j) \<notin> set (live s bs)"
      and kept: "payloads_kept s u (set (live s bs) - {(p, m)})"
      and moved: "\<forall>i < min n (m - 8). byte_at u (?q + i) = byte_at s (p + i)"
      using mm_realloc_refines [OF rep m(1) n(1) nw spec [unfolded Some]]
      unfolding bs'_def by blast
    have A': "payload ` (set (live s bs) - {(p, m)}) = A - {(p, c)}"
      using payload_image_diff [OF rep m(1)] A m(2) by simp
    have "mm_models k u bs' (insert (payload (?q, j)) (A - {(p, c)}))"
      by (rule mm_modelsI [OF u(2)]) (use u(4) k lv A' in simp_all)
    moreover have "payload (?q, j) \<notin> A - {(p, c)}"
      using payload_image_diff [OF u(2), of "(?q, j)"] lv new A' by auto
    moreover have "total bs \<le> total bs'" "total bs' \<le> total bs + (n + 4128)"
      using spec_malloc_total(1,2) [OF spec] by (simp_all add: bs'_def total_free_block)
    then have "grows s u (n + 4128)"
      by (rule heap_rep_grows [OF rep u(2) _ _ u(3,4)])
    moreover have "hs_realloc mm_heap (p - lo s) n bs = Some (16 + d, bs')"
      using spec Some by (simp add: heap_room_hi [OF rep] bs'_def)
    ultimately show ?thesis
      using u(1) j kept moved A' m(2)
      by (intro disjI2 exI [of _ "16 + d"] exI [of _ bs'] exI [of _ "j - 8"] exI [of _ u])
        (auto simp: payloads_kept_iff payload_def add.assoc)
  qed
qed

section \<open>The laws of the contract\<close>

lemma mm_inside_law:
  assumes "mm_rep k s A" "(p, c) \<in> A"
  shows "lo s \<le> p \<and> p + c \<le> brk s \<and> 8 dvd p \<and> 0 < c"
proof (rule mm_repE [OF assms(1)])
  fix bs
  assume rep: "heap_rep s bs" and A: "A = payload ` set (live s bs)"
  obtain n where n: "(p, n) \<in> set (live s bs)" "c = n - 8"
    using assms(2) A by (auto simp: payload_def)
  show ?thesis
    using live_bounds [OF rep n(1)] n(2) by auto
qed

lemma mm_apart_law:
  assumes "mm_rep k s A" "(p, c) \<in> A" "(q, e) \<in> A"
  shows "(p, c) = (q, e) \<or> p + c \<le> q \<or> q + e \<le> p"
proof (rule mm_repE [OF assms(1)])
  fix bs
  assume rep: "heap_rep s bs" and A: "A = payload ` set (live s bs)"
  obtain n m where "(p, n) \<in> set (live s bs)" "c = n - 8" "(q, m) \<in> set (live s bs)" "e = m - 8"
    using assms(2,3) A by (auto simp: payload_def)
  with live_disjoint [OF rep this(1,3)] show ?thesis
    by (cases "(p, n) = (q, m)") auto
qed

lemma mm_write_law:
  "mm_rep k s A \<Longrightarrow> (p, c) \<in> A \<Longrightarrow> changes_only s s' p (p + c) \<Longrightarrow> mm_rep k s' A"
  unfolding mm_rep_def using mm_write_models by blast

lemma mm_init_law:
  "arena_ok s \<Longrightarrow> brk s = lo s \<Longrightarrow> hi s + k + 4128 \<le> 2 ^ 32
    \<Longrightarrow> \<exists>u. mm_init s = Some (0, u) \<and> mm_rep k u {} \<and> grows s u 4128"
  unfolding mm_rep_def using mm_init_models by blast

lemma mm_malloc_law:
  assumes "mm_rep k s A" "0 < n" "n \<le> k"
  shows "(\<exists>u. mm_malloc (of_nat n) s = Some (NULL, u) \<and> mm_rep k u A \<and> grows s u 0 \<and> kept s u A
       \<and> hi s < brk s + n + 4128)
    \<or> (\<exists>p c u. mm_malloc (of_nat n) s = Some (of_nat p, u) \<and> n \<le> c \<and> (p, c) \<notin> A
       \<and> mm_rep k u (insert (p, c) A) \<and> grows s u (n + 4128) \<and> kept s u A)"
  using assms(1) mm_malloc_models [OF _ assms(2,3)] unfolding mm_rep_def by blast

lemma mm_free_law:
  "mm_rep k s A \<Longrightarrow> (p, c) \<in> A \<Longrightarrow> \<exists>u. mm_free (of_nat p) s = Some u \<and> mm_rep k u (A - {(p, c)}) \<and> grows s u 0
    \<and> kept s u (A - {(p, c)})"
  unfolding mm_rep_def using mm_free_models by blast

lemma mm_realloc_law:
  assumes "mm_rep k s A" "(p, c) \<in> A" "0 < n" "n \<le> k"
  shows "(\<exists>u. mm_realloc (of_nat p) (of_nat n) s = Some (NULL, u) \<and> mm_rep k u A \<and> grows s u 0
       \<and> kept s u A \<and> hi s < brk s + n + 4128)
    \<or> (\<exists>q e u. mm_realloc (of_nat p) (of_nat n) s = Some (of_nat q, u) \<and> n \<le> e
       \<and> (q, e) \<notin> A - {(p, c)} \<and> mm_rep k u (insert (q, e) (A - {(p, c)})) \<and> grows s u (n + 4128)
       \<and> kept s u (A - {(p, c)}) \<and> (\<forall>i < min n c. byte_at u (q + i) = byte_at s (p + i)))"
proof -
  obtain bs where "mm_models k s bs A"
    using assms(1) by (auto simp: mm_rep_def)
  from mm_realloc_models [OF this assms(2-4)] show ?thesis
    by (elim disjE exE conjE) (blast dest: mm_models_rep)+
qed

interpretation mm: exact_package mm_package "mm_rep k" k 4128 mm_heap "mm_models k" for k
proof
  show "arena_ok s" if "mm_rep k s A" for s A
    using that by (auto simp: mm_rep_def mm_models_def heap_rep_def heap_tags_def)
  show "\<exists>u. pk_free mm_package (of_nat (lo s + d)) s = Some u \<and> mm_models k u (hs_free mm_heap d bs) (A - {(lo s + d, c)})
      \<and> grows s u 0 \<and> kept s u (A - {(lo s + d, c)})"
    if "mm_models k s bs A" "(lo s + d, c) \<in> A" for s bs A d c
    using mm_free_models [OF that] by (simp only: mm_package_simps add_diff_cancel_left')
  show "(hs_realloc mm_heap d n bs = None \<and> hi s < brk s + n + 4128
         \<and> (\<exists>u. pk_realloc mm_package (of_nat (lo s + d)) (of_nat n) s = Some (NULL, u) \<and> mm_models k u bs A
              \<and> grows s u 0 \<and> kept s u A))
      \<or> (\<exists>e h' b u. hs_realloc mm_heap d n bs = Some (e, h')
         \<and> pk_realloc mm_package (of_nat (lo s + d)) (of_nat n) s = Some (of_nat (lo s + e), u) \<and> n \<le> b
         \<and> (lo s + e, b) \<notin> A - {(lo s + d, c)} \<and> mm_models k u h' (insert (lo s + e, b) (A - {(lo s + d, c)}))
         \<and> grows s u (n + 4128) \<and> kept s u (A - {(lo s + d, c)})
         \<and> (\<forall>i < min n c. byte_at u (lo s + e + i) = byte_at s (lo s + d + i)))"
    if "mm_models k s bs A" "(lo s + d, c) \<in> A" "0 < n" "n \<le> k" for s bs A d c n
    using mm_realloc_models [OF that] by (simp only: mm_package_simps add_diff_cancel_left')
qed (simp_all only: mm_package_simps mm_heap_simps(1),
    (rule mm_inside_law; assumption), (rule mm_apart_law; assumption), (rule mm_write_law; assumption),
    (rule mm_init_law; assumption), (rule mm_malloc_law; assumption), (rule mm_free_law; assumption),
    (rule mm_realloc_law; assumption), (rule mm_models_rep; assumption), (rule mm_write_models; assumption),
    (rule mm_init_models; assumption), (rule mm_malloc_models; assumption))

end
