(* ===== verification/Mm_Reuse.thy ===== *)
theory Mm_Reuse
  imports Mm_Package
begin

text \<open>
  Memory that has been given back to \<open>mm.c\<close> can be had again: a request that fits into a free
  block does not make the heap grow, a freed block serves the next request of its size, and
  when a program has freed everything its heap is one free block.
\<close>

section \<open>Requests that fit\<close>

lemma alloc_fit_total:
  assumes "first_fit (block_size n) bs = Some (xs, m, ys)"
  shows "spec_malloc room n bs = (Some (total xs), xs @ place_blocks (block_size n) m @ ys)"
    "total (xs @ place_blocks (block_size n) m @ ys) = total bs"
  using assms first_fit_SomeD [OF assms]
  by (simp_all add: spec_malloc_def alloc_fit_def Let_def total_place_blocks)

lemma mm_malloc_reuses:
  assumes rep: "heap_rep s bs" and n: "0 < n" "no_wrap s n"
    and ff: "first_fit (block_size n) bs = Some (xs, m, ys)"
  shows "\<exists>u. mm_malloc (of_nat n) s = Some (of_nat (lo s + 16 + total xs), u) \<and> brk u = brk s"
proof -
  obtain u where u: "mm_malloc (of_nat n) s = Some (of_nat (lo s + 16 + total xs), u)"
    "heap_rep u (xs @ place_blocks (block_size n) m @ ys)" "mem_start_brk u = mem_start_brk s"
    using mm_malloc_refines [OF rep n alloc_fit_total(1) [OF ff]] by auto
  with heap_rep_brk [OF rep] heap_rep_brk [OF u(2)] alloc_fit_total(2) [OF ff] show ?thesis
    by auto
qed

section \<open>A freed block\<close>

lemma insert_free_fits:
  assumes "k \<le> n"
  shows "first_fit k (insert_free xs n ys) \<noteq> None"
proof (rule insert_freeE [of xs n ys])
  fix zs m us j
  assume "merge_left xs n = (zs, m)" "merge_right m ys = (j, us)"
    and eq: "insert_free xs n ys = zs @ (j, False) # us"
  with merge_leftD(3) merge_rightD(3) assms have "k \<le> j"
    by (meson le_trans)
  then have "fits k (j, False)"
    by (simp add: fits_def)
  then show ?thesis
    unfolding eq first_fit_None_iff by auto
qed

lemma mm_free_then_malloc:
  assumes rep: "heap_rep s bs" and live: "(p, m) \<in> set (live s bs)"
    and n: "0 < n" "no_wrap s n" "block_size n \<le> m"
  shows "\<exists>u q v. mm_free (of_nat p) s = Some u \<and> mm_malloc (of_nat n) u = Some (q, v)
    \<and> q \<noteq> NULL \<and> mem_brk v = mem_brk s"
proof -
  let ?bs = "free_block (p - (lo s + 16)) bs"
  obtain u where u: "mm_free (of_nat p) s = Some u" "heap_rep u ?bs" "\<exists>x. u = s\<lparr>mem_bytes := x\<rparr>"
    using mm_free_live [OF rep live] by blast
  have regs: "mem_brk u = mem_brk s" "mem_start_brk u = mem_start_brk s" "no_wrap u n"
    using u(3) n(2) by (auto simp: no_wrap_def)
  have "sizes_ok bs"
    using rep by (simp add: heap_rep_def heap_tags_def)
  then obtain zs us where "?bs = insert_free zs m us"
    by (rule free_block_allocs [OF _ live]) blast
  with insert_free_fits [OF n(3)] obtain xs k ys where ff: "first_fit (block_size n) ?bs = Some (xs, k, ys)"
    by (metis not_None_eq prod_cases3)
  obtain v where v: "mm_malloc (of_nat n) u = Some (of_nat (lo u + 16 + total xs), v)" "brk v = brk u"
    using mm_malloc_reuses [OF u(2) n(1) regs(3) ff] by blast
  have "brk u < 2 ^ 32"
    using unsigned_less [of "mem_brk u"] by simp
  then have "lo u + 16 + total xs < 2 ^ 32"
    using heap_rep_brk [OF u(2)] first_fit_SomeD [OF ff] by simp
  then have "(of_nat (lo u + 16 + total xs) :: addr) \<noteq> NULL"
    by (intro of_nat_not_NULL) simp_all
  with u(1) v regs show ?thesis
    by (auto simp: word_unat_eq_iff)
qed

section \<open>Everything freed\<close>

lemma all_free:
  assumes "allocs a bs = []" "coalesced bs"
  shows "bs = [] \<or> bs = [(total bs, False)]"
  using assms by (cases bs rule: coalesced.cases) (auto split: if_splits)

lemma mm_all_freed:
  assumes s0: "arena_ok s0" "hi s0 + limit + 4128 \<le> 2 ^ 32" and reach: "client_reach mm_package limit s0 (s, {})"
    and n: "0 < n" "n \<le> limit" "block_size n \<le> brk s - (lo s + 16)"
  shows "heap_rep s [(brk s - (lo s + 16), False)]
    \<and> (\<exists>u. mm_malloc (of_nat n) s = Some (of_nat (lo s + 16), u) \<and> mem_brk u = mem_brk s)"
proof -
  have "mm.client_inv limit (s, {})"
    by (rule mm.client_reach_inv [OF reach s0])
  then have "mm_rep limit s {}"
    by (auto simp: mm.client_inv_def holds_empty)
  then obtain bs where bs: "heap_rep s bs" "live s bs = []" and hi: "hi s + limit + 4128 \<le> 2 ^ 32"
    by (auto elim!: mm_repE)
  have total: "total bs = brk s - (lo s + 16)"
    using heap_rep_brk [OF bs(1)] by simp
  have "bs = [] \<or> bs = [(total bs, False)]"
    by (rule all_free [OF bs(2)]) (use bs(1) in \<open>simp add: heap_rep_def\<close>)
  moreover have "bs \<noteq> []"
    using total n(3) block_size_props(1) [of n] by auto
  ultimately have eq: "bs = [(brk s - (lo s + 16), False)]"
    using total by simp
  then have ff: "first_fit (block_size n) bs = Some ([], brk s - (lo s + 16), [])"
    using n(3) by (simp add: fits_def)
  from mm_malloc_reuses [OF bs(1) n(1) no_wrapI [OF bs(1) hi n(2)] ff] bs(1) show ?thesis
    by (auto simp: eq word_unat_eq_iff)
qed

end
