(* ===== verification/Mm_Correct.thy ===== *)
theory Mm_Correct
  imports Mm_Reuse
begin

text \<open>
  The properties of \<open>mm.c\<close>, each with its application at a concrete heap: the one
  \<open>mm_init\<close> makes in an arena at \<open>0x10000\<close>, and the one after a first request of 24 bytes.
\<close>

section \<open>Two concrete heaps\<close>

definition start_state :: mm where
  "start_state = \<lparr>mem_bytes = (\<lambda>_. 0), mem_start_brk = 0x10000, mem_brk = 0x10000,
     mem_max_addr = 0x1410000, errno = 0, heap_listp = 0\<rparr>"

definition heap1 :: mm where
  "heap1 = snd (the (mm_init start_state))"

definition heap2 :: mm where
  "heap2 = snd (the (mm_malloc 24 heap1))"

lemma start_state_ok:
  "arena_ok start_state" "lo start_state = 65536" "brk start_state = 65536" "hi start_state = 21037056"
  by (simp_all add: start_state_def arena_ok_def MAX_HEAP_val)

lemma heap1_run:
  "mm_init start_state = Some (0, heap1)" "heap_rep heap1 [(4096, False)]"
  "lo heap1 = 65536" "hi heap1 = 21037056" "brk heap1 = 69648"
proof -
  have eq: "brk start_state = lo start_state"
    by (simp add: start_state_ok)
  from mm_init_refines [OF start_state_ok(1) eq]
  obtain u where u: "mm_init start_state = Some (0, u)" "heap_rep u [(4096, False)]"
    "mem_start_brk u = mem_start_brk start_state" "mem_max_addr u = mem_max_addr start_state"
    "brk u = lo start_state + 4112"
    by blast
  then have "heap1 = u"
    by (simp add: heap1_def)
  with u start_state_ok show "mm_init start_state = Some (0, heap1)" "heap_rep heap1 [(4096, False)]"
    "lo heap1 = 65536" "hi heap1 = 21037056" "brk heap1 = 69648"
    by simp_all
qed

lemma spec_malloc_24: "spec_malloc r 24 [(4096, False)] = (Some 0, [(32, True), (4064, False)])"
  by (simp add: spec_malloc_def alloc_fit_def block_size_def fits_def place_blocks_def)

lemma heap2_run:
  "mm_malloc 24 heap1 = Some (65552, heap2)" "heap_rep heap2 [(32, True), (4064, False)]"
  "lo heap2 = 65536" "hi heap2 = 21037056" "brk heap2 = 69648"
proof -
  have nw: "no_wrap heap1 24"
    by (simp add: no_wrap_def heap1_run(5))
  from mm_malloc_refines [OF heap1_run(2) _ nw spec_malloc_24]
  obtain u where u: "mm_malloc (of_nat 24) heap1 = Some (of_nat (lo heap1 + 16), u)"
    "heap_rep u [(32, True), (4064, False)]"
    "mem_start_brk u = mem_start_brk heap1" "mem_max_addr u = mem_max_addr heap1"
    by auto
  then have eq: "heap2 = u"
    by (simp add: heap2_def)
  with u heap1_run(3,4)
  show run: "mm_malloc 24 heap1 = Some (65552, heap2)" "heap_rep heap2 [(32, True), (4064, False)]"
    "lo heap2 = 65536" "hi heap2 = 21037056"
    by simp_all
  from heap_rep_brk [OF run(2)] run(3) show "brk heap2 = 69648"
    by simp
qed

lemma live_heap2: "live heap2 [(32, True), (4064, False)] = [(65552, 32)]"
  by (simp add: heap2_run(3))

section \<open>Programs that use the allocator\<close>

text \<open>
  Property C2. Whatever a program does with \<open>mm.c\<close> after \<open>mm_init\<close> (requests of up to
  \<open>limit\<close> bytes, frees and reallocations of blocks it holds, writes into the bytes it asked
  for), its blocks stay 8-byte aligned, inside the heap and apart from each other, and every
  call it may make next returns. \<open>limit\<close> is any number for which the end of the storage, a
  request and one heap extension together do not pass the end of the address space.
\<close>

theorem mm_programs_safe:
  assumes "arena_ok s0" "hi s0 + limit + 4128 \<le> 2 ^ 32" "client_reach mm_package limit s0 x"
  shows "blocks_safe x \<and> calls_defined mm_package limit x"
  using mm.client_reach_inv [OF assms(3,1,2)] mm.client_inv_safe mm.client_inv_defined by blast

lemma client_reach_heap2: "client_reach mm_package 5000 start_state (heap2, {(65552, 24)})"
proof -
  have reset: "mem_reset_brk start_state = start_state"
    by (simp add: mem_reset_brk_def start_state_def)
  have "client_reach mm_package 5000 start_state (heap1, {})"
    by (rule client_reach.init) (simp add: reset heap1_run(1))
  moreover have "client_step mm_package 5000 (heap1, {}) (heap2, insert (unat (65552 :: addr), 24) {})"
    by (rule client_step.malloc) (simp_all add: heap2_run(1))
  ultimately show ?thesis
    by (simp add: client_reach.step)
qed

theorem mm_programs_safe_witness:
  "blocks_safe (heap2, {(65552, 24)}) \<and> calls_defined mm_package 5000 (heap2, {(65552, 24)})"
  by (rule mm_programs_safe [OF start_state_ok(1) _ client_reach_heap2]) (simp add: start_state_ok(4))

text \<open>
  Property C3. The memory a program sees is ideal: whatever it does with \<open>mm.c\<close> after
  \<open>mm_init\<close>, a block that \<open>mm_malloc\<close> or \<open>mm_realloc\<close> hands out is apart from all other
  blocks it holds, and every byte of a block it holds reads as it was last written, or as it
  was when the block was handed out; a reallocated block has the bytes of the old one as far
  as they go. Other blocks and the calls of the allocator in between make no difference.
\<close>

theorem mm_programs_read_back:
  assumes "arena_ok s0" "hi s0 + limit + 4128 \<le> 2 ^ 32" "data_reach mm_package limit s0 (s, C)"
  shows "never_shared mm_package limit (s, C)
    \<and> (\<forall>p bs i. C p = Some bs \<longrightarrow> i < length bs \<longrightarrow> read8 s (of_nat (p + i)) = Some (bs ! i))"
proof -
  note inv = mm.data_reach_inv [OF assms(3,1,2)]
  show ?thesis
    using mm.data_inv_never_shared [OF inv] mm.data_inv_read [OF inv] by blast
qed

text \<open>A program that writes into its block and makes it larger.\<close>

lemma data_reach_heap3:
  "\<exists>s q bs. data_reach mm_package 1000 start_state (s, [unat q \<mapsto> bs]) \<and> length bs = 500 \<and> bs ! 3 = 0x7F
    \<and> mm_realloc 65552 500 (heap2\<lparr>mem_bytes := (mem_bytes heap2)(65555 := 0x7F)\<rparr>) = Some (q, s)"
proof -
  let ?bs = "(load heap2 65552 24)[3 := 0x7F]" and ?s = "heap2\<lparr>mem_bytes := (mem_bytes heap2)(65555 := 0x7F)\<rparr>"
  have "data_reach mm_package 1000 start_state (heap1, Map.empty)"
    by (rule data_reach.init) (use heap1_run(1) in \<open>simp add: mem_reset_brk_def start_state_def\<close>)
  moreover have "data_step mm_package 1000 (heap1, Map.empty) (heap2, [unat (65552 :: addr) \<mapsto> load heap2 (unat (65552 :: addr)) 24])"
    by (rule data_step.malloc) (simp_all add: heap2_run(1) fresh_def)
  ultimately have "data_reach mm_package 1000 start_state (heap2, [65552 \<mapsto> load heap2 65552 24])"
    by (simp add: data_reach.step)
  moreover have "data_step mm_package 1000 (heap2, [65552 \<mapsto> load heap2 65552 24]) (?s, [65552 \<mapsto> load heap2 65552 24, 65552 \<mapsto> ?bs])"
    by (rule data_step.store [where i = 3])
      (simp_all add: write8_def in_arena_nat [of _ 65555, simplified] heap2_run(3,4))
  ultimately have r: "data_reach mm_package 1000 start_state (?s, [65552 \<mapsto> ?bs])"
    by (simp add: data_reach.step)
  then have "mm.data_inv 1000 (?s, [65552 \<mapsto> ?bs])"
    by (rule mm.data_reach_inv) (simp_all add: start_state_ok)
  then obtain A where A: "mm_rep 1000 ?s A" "holds A (blocks_of [65552 \<mapsto> ?bs])"
    by (auto simp: mm.data_inv_def)
  obtain c where c: "(65552, c) \<in> A"
    by (rule mm.data_block [OF A, of 65552 ?bs]) auto
  obtain q s where q: "mm_realloc 65552 500 ?s = Some (q, s)" "q \<noteq> NULL"
    using mm.realloc_law [OF A(1) c, of 500] heap2_run(4,5) mm.rep_not_NULL by fastforce
  let ?cs = "take 500 ?bs @ load s (unat q + length ?bs) (500 - length ?bs)"
  from q have "data_step mm_package 1000 (?s, [65552 \<mapsto> ?bs]) (s, ([65552 \<mapsto> ?bs](65552 := None))(unat q \<mapsto> ?cs))"
    by (intro data_step.realloc) (simp_all add: fresh_def)
  with r have "data_reach mm_package 1000 start_state (s, [unat q \<mapsto> ?cs])"
    by (auto dest: data_reach.step)
  moreover have "length ?cs = 500" "?cs ! 3 = 0x7F"
    by (simp_all add: nth_append)
  ultimately show ?thesis
    using q(1) by blast
qed

theorem mm_programs_read_back_witness:
  "\<exists>q s. mm_realloc 65552 500 (heap2\<lparr>mem_bytes := (mem_bytes heap2)(65555 := 0x7F)\<rparr>) = Some (q, s)
     \<and> read8 s (q + 3) = Some 0x7F
     \<and> (\<forall>p u. mm_malloc 16 s = Some (p, u) \<longrightarrow> p = NULL \<or> unat p + 16 \<le> unat q \<or> unat q + 500 \<le> unat p)"
proof -
  obtain s q bs where r: "data_reach mm_package 1000 start_state (s, [unat q \<mapsto> bs])" "length bs = 500" "bs ! 3 = 0x7F"
    and run: "mm_realloc 65552 500 (heap2\<lparr>mem_bytes := (mem_bytes heap2)(65555 := 0x7F)\<rparr>) = Some (q, s)"
    using data_reach_heap3 by blast
  have "arena_ok start_state" "hi start_state + 1000 + 4128 \<le> 2 ^ 32"
    by (simp_all add: start_state_ok)
  note ideal = mm_programs_read_back [OF this r(1)]
  have "read8 s (of_nat (unat q + 3)) = Some (bs ! 3)"
    using ideal r(2) by simp
  moreover have "(of_nat (unat q + 3) :: addr) = q + 3"
    by (simp only: of_nat_add) simp
  moreover have "p = NULL \<or> unat p + 16 \<le> unat q \<or> unat q + 500 \<le> unat p" if "mm_malloc 16 s = Some (p, u)" for p u
  proof -
    have "p = NULL \<or> fresh [unat q \<mapsto> bs] (unat p) 16"
      using conjunct1 [OF ideal] that unfolding never_shared_def fst_conv snd_conv
      by (elim conjE allE [of _ "16 :: nat"]) simp
    then show ?thesis
    proof
      assume "fresh [unat q \<mapsto> bs] (unat p) 16"
      from this [unfolded fresh_def, rule_format, of "unat q" bs] r(2) show ?thesis
        by simp
    qed simp
  qed
  ultimately show ?thesis
    using run r(3) by auto
qed

text \<open>
  Property C14. No memory is lost and none stays in pieces: when a program has freed all its
  blocks, in whatever order, the heap is one free block, and a request for up to all of it is
  served from its start without the heap growing.
\<close>

theorem mm_freed_heap:
  assumes "arena_ok s0" "hi s0 + limit + 4128 \<le> 2 ^ 32" "client_reach mm_package limit s0 (s, {})"
    and "0 < n" "n \<le> limit" "block_size n \<le> brk s - (lo s + 16)"
  shows "heap_rep s [(brk s - (lo s + 16), False)]
    \<and> (\<exists>u. mm_malloc (of_nat n) s = Some (of_nat (lo s + 16), u) \<and> mem_brk u = mem_brk s)"
  by (rule mm_all_freed [OF assms])

theorem mm_freed_heap_witness:
  "\<exists>s u. mm_free 65552 heap2 = Some s \<and> heap_rep s [(4096, False)] \<and> mm_malloc 4000 s = Some (65552, u)"
proof -
  have "mm_free (of_nat 65552) heap2 \<noteq> None"
    using mm.client_reach_inv [OF client_reach_heap2] mm.client_inv_defined [of 5000 "(heap2, {(65552, 24)})"]
    by (auto simp: calls_defined_def start_state_ok)
  then obtain s where s: "mm_free 65552 heap2 = Some s"
    by auto
  have "client_step mm_package 5000 (heap2, {(65552, 24)}) (s, {(65552, 24)} - {(65552, 24)})"
    by (rule client_step.free) (simp_all add: s)
  with client_reach_heap2 have reach: "client_reach mm_package 5000 start_state (s, {})"
    by (auto intro: client_reach.step)
  have "\<exists>x. s = heap2\<lparr>mem_bytes := x\<rparr>"
    using mm_free_live [OF heap2_run(2), of 65552 32] s heap2_run(3) by auto
  then have "brk s = 69648" "lo s = 65536"
    using heap2_run(3,5) by auto
  with mm_freed_heap [OF start_state_ok(1) _ reach, of 4000] s show ?thesis
    by (auto simp: start_state_ok(4) block_size_def)
qed

text \<open>
  Property C15. A block that is freed is available at once: the next request that fits into it
  succeeds without the heap growing.
\<close>

theorem mm_free_malloc_reuses:
  assumes "heap_rep s bs" "(p, m) \<in> set (live s bs)" "0 < n" "no_wrap s n" "block_size n \<le> m"
  shows "\<exists>u q v. mm_free (of_nat p) s = Some u \<and> mm_malloc (of_nat n) u = Some (q, v)
    \<and> q \<noteq> NULL \<and> mem_brk v = mem_brk s"
  by (rule mm_free_then_malloc [OF assms])

theorem mm_free_malloc_reuses_witness:
  "\<exists>u q v. mm_free 65552 heap2 = Some u \<and> mm_malloc 20 u = Some (q, v) \<and> q \<noteq> NULL \<and> mem_brk v = mem_brk heap2"
  using mm_free_malloc_reuses [OF heap2_run(2), of 65552 32 20] heap2_run(3,5)
  by (simp add: no_wrap_def block_size_def)

section \<open>The operations against the block list\<close>

text \<open>
  Property C4. \<open>mm_malloc\<close> on a well-formed heap is the specification's first-fit
  allocation: the pointer is the payload of the chosen block (or \<open>NULL\<close>, with only
  \<open>errno\<close> changed), the heap represents the specified blocks, with no two free blocks side
  by side, and the payloads of all allocated blocks are unchanged.
\<close>

theorem mm_malloc_correct:
  assumes "heap_rep s bs" "0 < n" "no_wrap s n" "spec_malloc (hi s - brk s) n bs = (r, bs')"
  shows "\<exists>u. mm_malloc (of_nat n) s = Some (ptr (lo s + 16) r, u)
    \<and> heap_rep u bs'
    \<and> mem_start_brk u = mem_start_brk s \<and> mem_max_addr u = mem_max_addr s
    \<and> payloads_kept s u (set (live s bs))
    \<and> (r = None \<longrightarrow> u = s\<lparr>errno := ENOMEM\<rparr>)"
  by (rule mm_malloc_refines [OF assms])

theorem mm_malloc_correct_witness:
  "\<exists>u. mm_malloc 24 heap1 = Some (65552, u) \<and> heap_rep u [(32, True), (4064, False)]"
  using mm_malloc_correct [OF heap1_run(2), of 24 "Some 0"] spec_malloc_24
  by (auto simp: no_wrap_def heap1_run(3,5))

text \<open>
  Property C5. \<open>mm_free\<close> of an allocated block returns its bytes to the heap as a free block,
  coalesced with its free neighbours on both sides; the other allocated blocks keep their
  places and their bytes, and nothing but heap bytes changes.
\<close>

theorem mm_free_correct:
  assumes "heap_rep s (xs @ (n, True) # ys)"
  shows "\<exists>u. mm_free (of_nat (lo s + 16 + total xs)) s = Some u
    \<and> heap_rep u (insert_free xs n ys)
    \<and> (\<exists>m. u = s\<lparr>mem_bytes := m\<rparr>)
    \<and> payloads_kept s u (set (live s (insert_free xs n ys)))"
  by (rule mm_free_refines [OF assms])

theorem mm_free_correct_witness:
  "\<exists>u. mm_free 65552 heap2 = Some u \<and> heap_rep u [(4096, False)]"
proof -
  have "insert_free [] 32 [(4064, False)] = [(4096, False)]"
    by (simp add: insert_free_def coalesce_blocks_def merge_left_def)
  then show ?thesis
    using mm_free_correct [of heap2 "[]" 32 "[(4064, False)]"] heap2_run(2,3) by auto
qed

text \<open>
  Property C6. \<open>mm_realloc\<close> of an allocated block for which a new place is found: the result
  is the new block, with room for the request, holding the old bytes up to the smaller of
  the two sizes; the old block is gone, the other blocks keep their places and bytes.
\<close>

theorem mm_realloc_correct:
  assumes "heap_rep s bs" "(p, m) \<in> set (live s bs)" "0 < n" "no_wrap s n"
    and "spec_malloc (hi s - brk s) n bs = (Some d, bs1)"
  shows "\<exists>u k. mm_realloc (of_nat p) (of_nat n) s = Some (of_nat (lo s + 16 + d), u)
    \<and> heap_rep u (free_block (p - (lo s + 16)) bs1)
    \<and> mem_start_brk u = mem_start_brk s \<and> mem_max_addr u = mem_max_addr s
    \<and> n + 8 \<le> k
    \<and> set (live u (free_block (p - (lo s + 16)) bs1)) = insert (lo s + 16 + d, k) (set (live s bs) - {(p, m)})
    \<and> (lo s + 16 + d, k) \<notin> set (live s bs)
    \<and> payloads_kept s u (set (live s bs) - {(p, m)})
    \<and> (\<forall>i < min n (m - 8). byte_at u (lo s + 16 + d + i) = byte_at s (p + i))"
  by (rule mm_realloc_refines [OF assms])

theorem mm_realloc_correct_witness:
  "\<exists>u. mm_realloc 65552 100 heap2 = Some (65584, u) \<and> byte_at u 65584 = byte_at heap2 65552"
proof -
  have "spec_malloc (hi heap2 - brk heap2) 100 [(32, True), (4064, False)]
      = (Some 32, [(32, True), (112, True), (3952, False)])"
    by (simp add: spec_malloc_def alloc_fit_def block_size_def fits_def place_blocks_def)
  from mm_realloc_correct [OF heap2_run(2) _ _ _ this, of 65552 32]
  obtain u where u: "mm_realloc 65552 100 heap2 = Some (65584, u)"
    "\<forall>i < 24. byte_at u (65584 + i) = byte_at heap2 (65552 + i)"
    by (auto simp: live_heap2 no_wrap_def heap2_run(3,5))
  from u(1) spec [OF u(2), of 0] show ?thesis
    by simp
qed

text \<open>
  Property C27. A reallocation for which no place is found returns \<open>NULL\<close> and leaves the heap,
  the old block included, as it was.
\<close>

theorem mm_realloc_no_room:
  assumes "heap_rep s bs" "0 < p" "p < 2 ^ 32" "0 < n" "no_wrap s n"
    and "spec_malloc (hi s - brk s) n bs = (None, bs1)"
  shows "mm_realloc (of_nat p) (of_nat n) s = Some (NULL, s\<lparr>errno := ENOMEM\<rparr>)"
  by (rule mm_realloc_fails [OF assms])

theorem mm_realloc_no_room_witness:
  "mm_realloc 65552 30000000 heap2 = Some (NULL, heap2\<lparr>errno := ENOMEM\<rparr>)"
proof -
  have "spec_malloc (hi heap2 - brk heap2) 30000000 [(32, True), (4064, False)]
      = (None, [(32, True), (4064, False)])"
    by (simp add: spec_malloc_def alloc_fit_def block_size_def fits_def extend_size_def heap2_run(4,5))
  from mm_realloc_no_room [OF heap2_run(2) _ _ _ _ this, of 65552] show ?thesis
    by (simp add: no_wrap_def heap2_run(5))
qed

section \<open>The functions behind them\<close>

text \<open>
  Property C9. \<open>coalesce\<close>, in all four cases of its comment: the free block it is called on
  absorbs a free left and a free right neighbour, the result points to the payload of the
  merged block, and only bytes between its tags change.
\<close>

theorem coalesce_correct:
  assumes "heap_tags s (xs @ (n, False) # ys)"
    and "merge_left xs n = (zs, m)" "merge_right m ys = (k, us)"
  shows "\<exists>u. coalesce (of_nat (block_addr s xs)) s = Some (of_nat (block_addr s zs), u)
    \<and> heap_tags u (zs @ (k, False) # us)
    \<and> changes_only s u (block_addr s zs - 4) (block_addr s zs + k - 4)"
  by (rule coalesce_refines [OF assms])

text \<open>The heap after the block of \<open>heap2\<close> was marked free, before \<open>coalesce\<close> runs.\<close>

lemma heap2_marked:
  "heap_tags (put_word 65576 32 (put_word 65548 32 heap2)) [(32, False), (4064, False)]"
proof -
  have tags: "heap_tags heap2 ([] @ [(32, True)] @ [(4064, False)])"
    using heap2_run(2) by (simp add: heap_rep_def)
  have ch: "changes_only heap2 (put_word 65576 32 (put_word 65548 32 heap2)) 65548 65580"
    by (intro changes_only_put) simp_all
  show ?thesis
    using heap_tags_splice [OF tags refl, of "put_word 65576 32 (put_word 65548 32 heap2)" "[(32, False)]"] ch
    by (simp add: heap2_run(3) word_at_put_word tag_def PACK_def)
qed

theorem coalesce_correct_witness:
  "\<exists>u. coalesce 65552 (put_word 65576 32 (put_word 65548 32 heap2)) = Some (65552, u)
     \<and> heap_tags u [(4096, False)]"
  using coalesce_correct [of "put_word 65576 32 (put_word 65548 32 heap2)" "[]" 32 "[(4064, False)]" "[]" 32 4096 "[]"]
    heap2_marked
  by (auto simp: merge_left_def heap2_run(3))

text \<open>
  Property C10. The loop of \<open>find_fit\<close> ends on every well-formed heap and returns the first
  free block that is large enough, or \<open>NULL\<close> when there is none.
\<close>

theorem find_fit_correct:
  assumes "heap_tags s bs" "k < 2 ^ 32"
  shows "find_fit (of_nat k) s = Some (found (lo s + 16) (first_fit k bs))"
  by (rule find_fit_refines [OF assms])

theorem find_fit_correct_witness:
  "find_fit 48 heap2 = Some 65584 \<and> find_fit 8000 heap2 = Some NULL"
  using find_fit_correct [of heap2 "[(32, True), (4064, False)]" 48]
    find_fit_correct [of heap2 "[(32, True), (4064, False)]" 8000] heap2_run(2,3)
  by (simp add: heap_rep_def fits_def)

text \<open>
  Property C11. \<open>place\<close> in a free block of \<open>n\<close> bytes: it allocates the first \<open>k\<close> and makes a
  free block of the rest when that is at least the smallest block, and else the whole block;
  only bytes of that block change.
\<close>

theorem place_correct:
  assumes "heap_tags s (xs @ (n, False) # ys)" "p = lo s + 16 + total xs" "16 \<le> k" "8 dvd k" "k \<le> n"
  shows "\<exists>u. place (of_nat p) (of_nat k) s = Some u
    \<and> heap_tags u (xs @ place_blocks k n @ ys) \<and> changes_only s u (p - 4) (p + n - 4)"
  by (rule place_refines [OF assms])

theorem place_correct_witness:
  "(\<exists>u. place 65584 4056 heap2 = Some u \<and> heap_tags u [(32, True), (4064, True)])
   \<and> (\<exists>u. place 65584 48 heap2 = Some u \<and> heap_tags u [(32, True), (48, True), (4016, False)])"
  using place_correct [of heap2 "[(32, True)]" 4064 "[]" 65584 4056]
    place_correct [of heap2 "[(32, True)]" 4064 "[]" 65584 48] heap2_run(2,3)
  by (auto simp: heap_rep_def place_blocks_def)

text \<open>
  Property C12. \<open>extend_heap\<close> of \<open>w\<close> words, two or more, where the storage has room for them
  rounded up to an even number: the break moves by the bytes of the rounded number, the new
  free block is coalesced with a free block at the end of the old heap, the result points to
  it, and no byte before its header or after the new break changes.
\<close>

theorem extend_heap_correct:
  assumes "heap_tags s bs" "2 \<le> w" "w < 2 ^ 32" "e = words_size w" "brk s + e \<le> hi s"
    and "merge_left bs e = (zs, m)"
  shows "\<exists>u. extend_heap (of_nat w) s = Some (of_nat (lo s + 16 + total zs), u)
    \<and> heap_tags u (zs @ [(m, False)])
    \<and> changes_only (s\<lparr>mem_brk := of_nat (brk s + e)\<rparr>) u (lo s + 16 + total zs - 4) (brk s + e)"
  by (rule extend_heap_refines [OF assms])

theorem extend_heap_correct_witness:
  "\<exists>u. extend_heap 3 heap2 = Some (65584, u) \<and> heap_tags u [(32, True), (4096, False)]"
proof -
  have h: "heap_tags heap2 [(32, True), (4064, False)]" "brk heap2 + 32 \<le> hi heap2"
    using heap2_run(2,4,5) by (simp_all add: heap_rep_def)
  have l: "merge_left [(32, True), (4064, False)] 32 = ([(32, True)], 4096)" "32 = words_size 3"
    by (simp_all add: merge_left_def words_size_def)
  obtain u where "extend_heap (of_nat 3) heap2 = Some (of_nat (lo heap2 + 16 + total [(32, True)]), u)"
    "heap_tags u ([(32, True)] @ [(4096, False)])"
    using extend_heap_correct [OF h(1) _ _ l(2) h(2) l(1)] by auto
  then show ?thesis
    by (simp add: heap2_run(3))
qed

text \<open>
  Property C13. \<open>mm_init\<close> on an empty heap succeeds and leaves padding, prologue, epilogue and
  one free block of 4096 bytes; nothing outside these 4112 bytes changes.
\<close>

theorem mm_init_correct:
  assumes "arena_ok s" "brk s = lo s"
  shows "\<exists>u. mm_init s = Some (0, u) \<and> heap_rep u [(4096, False)]
    \<and> mem_start_brk u = mem_start_brk s \<and> mem_max_addr u = mem_max_addr s
    \<and> brk u = lo s + 4112 \<and> errno u = errno s
    \<and> same_bytes s u (lo s) (lo s + 4112)"
  by (rule mm_init_refines [OF assms])

theorem mm_init_correct_witness:
  "\<exists>u. mm_init start_state = Some (0, u) \<and> heap_rep u [(4096, False)] \<and> brk u = 69648"
proof -
  have "brk start_state = lo start_state"
    by (simp add: start_state_ok)
  from mm_init_correct [OF start_state_ok(1) this] obtain u
    where u: "mm_init start_state = Some (0, u)" "heap_rep u [(4096, False)]" "brk u = lo start_state + 4112"
    by blast
  from u(3) have "brk u = 69648"
    by (simp only: start_state_ok(2))
  with u(1,2) show ?thesis
    by blast
qed

section \<open>Where the code falls short\<close>

lemma adjust_size_wraps:
  assumes "2 ^ 32 - 15 \<le> n" "n \<le> 2 ^ 32 - 8"
  shows "adjust_size (of_nat n) = 0"
proof -
  define j where "j = n + 15 - 2 ^ 32"
  have j: "j < 8" "n + 15 = 2 ^ 32 + j"
    using assms by (auto simp: j_def)
  have "(of_nat n :: u32) + 15 = of_nat (n + 15)"
    by (simp add: of_nat_add)
  also have "\<dots> = of_nat j"
    unfolding j(2) by (simp add: of_nat_add)
  finally have "((of_nat n :: u32) + 15) div 8 = 0"
    using j(1) by (intro word_unat_eq_iff [THEN iffD2]) (simp add: unat_div_distrib unat_word32)
  moreover have "\<not> (of_nat n :: u32) \<le> 8"
    using of_nat_word32_le [of n 8] assms by simp
  ultimately show ?thesis
    by (simp add: adjust_size_def DSIZE_def add.assoc)
qed

lemma place_zero:
  assumes tags: "heap_tags s (xs @ (m, False) # ys)" and p: "p = block_addr s xs"
  shows "\<exists>u. place (of_nat p) 0 s = Some u
    \<and> word_at u (p - 4) = tag (m, False) \<and> word_at u (p - 8) = tag (0, True)"
proof -
  have mid: "heap_tags s (xs @ [(m, False)] @ ys)"
    using tags by simp
  note b = stretch_bounds [OF mid p, simplified]
  have m: "8 dvd m" "16 \<le> m" "hi s < 2 ^ 32"
    using tags hi_less [of s] by (auto simp: heap_tags_def)
  have h: "hdr s p (m, False)"
    using heap_tags_next(1) [OF tags, of "(m, False)"] p by simp
  let ?e = "(0, True) :: block" and ?b = "(m, False)"
  let ?s1 = "put_word (p - 4) (tag ?e) s"
  let ?s2 = "put_word (p - 8) (tag ?e) ?s1"
  let ?s3 = "put_word (p - 4) (tag ?b) ?s2"
  let ?s4 = "put_word (p + m - 8) (tag ?b) ?s3"
  have d: "4 dvd p - 4" "4 dvd p - 8" "4 dvd p + m - 8"
    using b(3) m by (auto intro: dvd4_footer)
  have h1: "hdr ?s1 p ?e"
    by (rule hdr_put_same) (use b m in auto)
  have h2: "hdr ?s2 p ?e"
    by (rule hdr_put_other [OF h1]) (use d b in auto)
  have h3: "hdr ?s3 p ?b"
    by (rule hdr_put_same) (use b m in auto)
  have p2: "PUT (of_nat (p - 8)) (tag ?e) ?s1 = Some ?s2"
    by (rule PUT_nat) (use d b m in auto)
  have p4: "PUT (of_nat (p + m - 8)) (tag ?b) ?s3 = Some ?s4"
    by (rule PUT_nat) (use d b m in auto)
  have "2 * DSIZE \<le> (of_nat m :: u32)"
    using of_nat_word32_le [of 16 m] b(2) m by (simp add: DSIZE_def)
  moreover have "PACK 0 1 = tag ?e"
    by (simp add: tag_def)
  ultimately have "place (of_nat p) 0 s = Some ?s4"
    using p2 p4 b hdr_reads(3) [OF h1] hdr_reads(4) [OF h2] hdr_reads(3) [OF h3]
    by (simp add: place_def hdr_reads(1) [OF h] PUT_hdr [OF h] PUT_hdr [OF h2])
  moreover have "word_at ?s4 (p - 4) = tag ?b"
    using d b m by (auto simp: word_at_put_word)
  moreover have "word_at ?s4 (p - 8) = tag ?e"
    using d b m by (auto simp: word_at_put_word)
  ultimately show ?thesis
    by blast
qed

lemma first_fit_zero: "\<forall>b \<in> set xs. snd b \<Longrightarrow> first_fit 0 (xs @ (m, False) # ys) = Some (xs, m, ys)"
  by (induction xs) (auto simp: fits_def)

text \<open>
  Property C37. A request so large that the rounding in \<open>mm_malloc\<close> wraps around gets a block
  size of 0: \<open>mm_malloc\<close> does not fail but returns the first free block of the heap, whose
  header still marks it free afterwards, and the word below that header is overwritten.
\<close>

theorem mm_malloc_wraps:
  assumes "heap_rep s (xs @ (m, False) # ys)" "\<forall>b \<in> set xs. snd b" "2 ^ 32 - 15 \<le> n" "n \<le> 2 ^ 32 - 8"
  shows "\<exists>u. mm_malloc (of_nat n) s = Some (of_nat (lo s + 16 + total xs), u)
    \<and> word_at u (lo s + 16 + total xs - 4) = tag (m, False)
    \<and> word_at u (lo s + 16 + total xs - 8) = tag (0, True)"
proof -
  let ?p = "lo s + 16 + total xs"
  have tags: "heap_tags s (xs @ (m, False) # ys)"
    using assms(1) by (simp add: heap_rep_def)
  have "(of_nat n :: u32) \<noteq> 0" "(of_nat ?p :: addr) \<noteq> NULL"
    using heap_tags_bounds(1,2,5) [OF tags] hi_less [of s] assms(3,4)
    by (intro of_nat_not_NULL; linarith)+
  moreover have "find_fit 0 s = Some (of_nat ?p)"
    using find_fit_refines [OF tags, of 0] first_fit_zero [OF assms(2)] by simp
  ultimately show ?thesis
    using place_zero [OF tags refl]
    by (auto simp: mm_malloc_def adjust_size_wraps [OF assms(3,4)] Let_def)
qed

theorem mm_malloc_wraps_witness:
  "\<exists>u. mm_malloc 0xFFFFFFF8 heap2 = Some (65584, u) \<and> word_at u 65580 = tag (4064, False)"
  using mm_malloc_wraps [of heap2 "[(32, True)]" 4064 "[]" 4294967288] heap2_run(2,3) by auto

text \<open>
  \<open>mm_free(NULL)\<close>, and \<open>mm_realloc(NULL, 0)\<close> which calls it, read outside the
  heap: unlike the C library's functions they have no defined result.
\<close>

lemma mm_free_NULL_undefined: "mm_free NULL s = None \<and> mm_realloc NULL 0 s = None"
proof -
  have "unat (- 4 :: addr) = 4294967292"
    by simp
  then have "\<not> in_arena s (- 4) 4"
    using hi_less [of s] by (simp add: in_arena_def)
  then have "mm_free NULL s = None"
    by (simp add: mm_free_def HDRP_def WSIZE_def GET_SIZE_def GET_def read32_def)
  then show ?thesis
    by (simp add: mm_realloc_def)
qed

end
