(* ===== verification/Trace_Text.thy ===== *)
theory Trace_Text
  imports Trace
begin

text \<open>
  The format of the trace files: four numbers, then one line per request. What \<open>read_trace\<close>
  makes of a file in this format, and of one with too many lines.
\<close>

section \<open>The format\<close>

definition space :: string where "space = '' ''"
definition newline :: string where "newline = [CHR 0x0A]"

definition op_letter :: "reqtype \<Rightarrow> char" where
  "op_letter ty = (case ty of ALLOC \<Rightarrow> CHR ''a'' | REALLOC \<Rightarrow> CHR ''r'' | FREE \<Rightarrow> CHR ''f'')"

definition op_text :: "traceop_t \<Rightarrow> string" where
  "op_text x = op_letter (op_type x) # space @ decimal (unat (op_index x))
     @ (if op_type x = FREE then [] else space @ decimal (unat (op_size x))) @ newline"

definition ops_text :: "traceop_t list \<Rightarrow> string" where
  "ops_text xs = concat (map op_text xs)"

definition header_text :: "u32 list \<Rightarrow> string" where
  "header_text ns = concat (map (\<lambda>n. decimal (unat n) @ newline) ns)"

definition trace_text :: "u32 \<Rightarrow> u32 \<Rightarrow> u32 \<Rightarrow> u32 \<Rightarrow> traceop_t list \<Rightarrow> string" where
  "trace_text sugg ids n w xs = header_text [sugg, ids, n, w] @ ops_text xs"

text \<open>What reading the requests back yields: the size of a free request is not set.\<close>

fun with_junk :: "(nat \<Rightarrow> u32) \<Rightarrow> nat \<Rightarrow> traceop_t list \<Rightarrow> traceop_t list" where
  "with_junk junk k [] = []"
| "with_junk junk k (x # xs) =
     (if op_type x = FREE then x\<lparr>op_size := junk k\<rparr> else x) # with_junk junk (Suc k) xs"

definition max_index :: "u32 \<Rightarrow> traceop_t list \<Rightarrow> u32" where
  "max_index m xs = fold (\<lambda>x m. if op_type x \<noteq> FREE \<and> op_index x > m then op_index x else m) xs m"

lemma length_with_junk [simp]: "length (with_junk junk k xs) = length xs"
  by (induction xs arbitrary: k) auto

section \<open>Scanning it\<close>

lemma spacing [simp]: "isspace CHR '' ''" "isspace CHR 0x0A" "list_all isspace space" "list_all isspace newline"
  "stops (space @ r)" "stops (newline @ r)" "stops (CHR '' '' # r)" "stops (CHR 0x0A # r)"
  by (simp_all add: isspace_def stops_def isdigit_def space_def newline_def)

lemma as_unsigned_unat [simp]: "as_unsigned (False, unat x) = Some x"
  using unsigned_less [of x] by (simp add: as_unsigned_def)

lemma as_int_unat [simp]: "unat x < 2 ^ 31 \<Longrightarrow> as_int (False, unat x) = Some x"
  by (simp add: as_int_def)

lemma scan_number_spaced:
  assumes "stops r"
  shows "scan_number (decimal n @ r) = Got (False, n) r"
    "scan_number (space @ decimal n @ r) = Got (False, n) r"
    "scan_number (newline @ decimal n @ r) = Got (False, n) r"
  using scan_number_decimal [of "[]" r n] scan_number_decimal [of space r n]
    scan_number_decimal [of newline r n] assms by simp_all

lemma skip_space_decimal: "skip_space (space @ decimal n @ r) = decimal n @ r"
proof -
  obtain c cs where c: "decimal n = c # cs" "isdigit c"
    using decimal_digits [of n] by (cases "decimal n") auto
  then show ?thesis
    using isdigit_not_space [of c] by (simp add: skip_space_def space_def)
qed

lemma fscanf_d_text:
  assumes "unat x < 2 ^ 31" "list_all isspace sp" "stops r"
  shows "fscanf_d old (sp @ decimal (unat x) @ r) = Some (x, r)"
  using assms by (simp add: fscanf_d_def scan_number_decimal)

lemma fscanf_u_u_text:
  "fscanf_u_u o1 o2 (space @ decimal (unat x) @ space @ decimal (unat y) @ newline @ r)
     = Some (x, y, newline @ r)"
  by (simp add: fscanf_u_u_def scan_number_spaced skip_space_decimal)

lemma fscanf_ud_text:
  "fscanf_ud o1 (space @ decimal (unat x) @ newline @ r) = Some (x, newline @ r)"
  by (simp add: fscanf_ud_def scan_number_spaced) (simp add: newline_def)

lemma op_letter_not_space: "\<not> isspace (op_letter ty)" "op_letter ty \<in> {CHR ''a'', CHR ''r'', CHR ''f''}"
  by (cases ty; simp add: op_letter_def isspace_def)+

lemma scan_word_op:
  assumes "list_all isspace sp"
  shows "scan_word (sp @ op_letter ty # space @ r) = Got [op_letter ty] (space @ r)"
proof -
  have "skip_space (sp @ op_letter ty # space @ r) = op_letter ty # space @ r"
    using assms op_letter_not_space(1) [of ty]
    by (simp add: skip_space_def dropWhile_append2 list_all_iff)
  then show ?thesis
    using op_letter_not_space(1) [of ty] by (simp add: scan_word_def space_def)
qed

text \<open>The rest of a request line after its letter.\<close>

definition op_rest :: "traceop_t \<Rightarrow> string" where
  "op_rest x = decimal (unat (op_index x))
     @ (if op_type x = FREE then [] else space @ decimal (unat (op_size x)))"

lemma op_text_rest: "op_text x = op_letter (op_type x) # space @ op_rest x @ newline"
  by (simp add: op_text_def op_rest_def)

lemma read_request_text:
  assumes "length (rd_ops s) < array_length n 12"
  shows "\<exists>s'. read_request path n junk (op_letter (op_type x)) (space @ op_rest x @ newline @ r) s
      = Some (Inr (newline @ r, s'))
    \<and> rd_max s' = max_index (rd_max s) [x]
    \<and> rd_ops s' = rd_ops s @ with_junk junk (length (rd_ops s)) [x]"
proof (cases x)
  case (fields ty i n)
  with assms fscanf_u_u_text [of _ _ i n r] fscanf_ud_text [of _ i r] show ?thesis
    by (cases ty) (auto simp: read_request_def put_op_def raise_max_def op_rest_def op_letter_def max_index_def)
qed

lemma read_request_text_full:
  assumes "\<not> length (rd_ops s) < array_length n 12"
  shows "read_request path n junk (op_letter (op_type x)) (space @ op_rest x @ newline @ r) s = None"
proof (cases x)
  case (fields ty i n)
  with assms fscanf_u_u_text [of _ _ i n r] fscanf_ud_text [of _ i r] show ?thesis
    by (cases ty) (auto simp: read_request_def put_op_def raise_max_def op_rest_def op_letter_def)
qed

section \<open>Reading a file\<close>

text \<open>After the line break that the line before has left in the input, or at the start.\<close>

lemma read_requests_Cons:
  assumes "list_all isspace sp"
  shows "read_requests path n junk (sp @ ops_text (x # xs)) s =
    (case read_request path n junk (op_letter (op_type x)) (space @ op_rest x @ newline @ ops_text xs) s of
       None \<Rightarrow> None
     | Some (Inl e) \<Rightarrow> Some (Inl e)
     | Some (Inr (inp, s)) \<Rightarrow> read_requests path n junk inp s)"
  using scan_word_op [OF assms, of "op_type x" "op_rest x @ newline @ ops_text xs"]
  by (subst read_requests.simps) (simp add: ops_text_def op_text_rest MAXLINE_def)

lemma read_requests_Nil:
  assumes "list_all isspace sp"
  shows "read_requests path n junk (sp @ ops_text []) s = Some (Inr s)"
proof -
  have "skip_space sp = []"
    using assms by (simp add: skip_space_def list_all_iff)
  then show ?thesis
    by (subst read_requests.simps) (simp add: ops_text_def scan_word_def)
qed

lemma read_requests_text:
  assumes "length (rd_ops s) + length xs \<le> array_length n 12" "list_all isspace sp"
  shows "\<exists>s'. read_requests path n junk (sp @ ops_text xs) s = Some (Inr s')
    \<and> rd_max s' = max_index (rd_max s) xs
    \<and> rd_ops s' = rd_ops s @ with_junk junk (length (rd_ops s)) xs"
  using assms
proof (induction xs arbitrary: s sp)
  case Nil
  then show ?case
    by (simp add: read_requests_Nil max_index_def)
next
  case (Cons x xs)
  then obtain t where t: "read_request path n junk (op_letter (op_type x)) (space @ op_rest x @ newline @ ops_text xs) s
      = Some (Inr (newline @ ops_text xs, t))"
    "rd_max t = max_index (rd_max s) [x]" "rd_ops t = rd_ops s @ with_junk junk (length (rd_ops s)) [x]"
    using read_request_text [of s n path junk x "ops_text xs"] by auto
  then have "length (rd_ops t) = Suc (length (rd_ops s))"
    by simp
  with Cons.IH [of t newline] Cons.prems t show ?case
    by (auto simp: read_requests_Cons max_index_def)
qed

text \<open>More request lines than \<open>num_ops\<close> announces are written past the end of the array.\<close>

lemma read_requests_full:
  assumes "array_length n 12 < length (rd_ops s) + length xs" "list_all isspace sp"
    and "length (rd_ops s) \<le> array_length n 12"
  shows "read_requests path n junk (sp @ ops_text xs) s = None"
  using assms
proof (induction xs arbitrary: s sp)
  case (Cons x xs)
  show ?case
  proof (cases "length (rd_ops s) < array_length n 12")
    case True
    then obtain t where t: "read_request path n junk (op_letter (op_type x)) (space @ op_rest x @ newline @ ops_text xs) s
        = Some (Inr (newline @ ops_text xs, t))" "length (rd_ops t) = Suc (length (rd_ops s))"
      using read_request_text [of s n path junk x "ops_text xs"] by auto
    with Cons.IH [of t newline] Cons.prems True show ?thesis
      by (simp add: read_requests_Cons)
  next
    case False
    with Cons.prems read_request_text_full show ?thesis
      by (simp add: read_requests_Cons)
  qed
qed simp

lemma read_header_text:
  assumes "list_all (\<lambda>n. unat n < 2 ^ 31) [sugg, ids, n, w]"
  shows "read_header raw (trace_text sugg ids n w xs)
    = Some (raw\<lparr>sugg_heapsize := sugg, num_ids := ids, num_ops := n, weight := w\<rparr>, newline @ ops_text xs)"
  using assms fscanf_d_text [of sugg "[]" "newline @ _"] fscanf_d_text [of _ newline "newline @ _"]
  by (simp add: read_header_def trace_text_def header_text_def)

definition parsed_trace :: "u32 \<Rightarrow> u32 \<Rightarrow> u32 \<Rightarrow> u32 \<Rightarrow> traceop_t list \<Rightarrow> trace_t" where
  "parsed_trace sugg ids n w xs = \<lparr>sugg_heapsize = sugg, num_ids = ids, num_ops = n, weight = w, ops = xs,
     blocks = replicate (array_length ids 4) None, block_sizes = replicate (array_length ids 4) None\<rparr>"

lemma read_trace_text:
  assumes "length xs \<le> array_length n 12" "n = of_nat (length xs)" "max_index 0 xs = ids - 1"
    and "list_all (\<lambda>n. unat n < 2 ^ 31) [sugg, ids, n, w]"
  shows "read_trace path (\<lambda>_. True) raw junk sz0 (Some (trace_text sugg ids n w xs))
    = Some (Inr (parsed_trace sugg ids n w (with_junk junk 0 xs)))"
  using read_requests_text [of "\<lparr>rd_index = 0, rd_size = sz0, rd_max = 0, rd_ops = []\<rparr>" xs n newline path junk] assms
  by (cases raw) (auto simp: read_trace_def read_header_text parsed_trace_def)

lemma read_trace_text_full:
  assumes "array_length n 12 < length xs" "list_all (\<lambda>n. unat n < 2 ^ 31) [sugg, ids, n, w]"
  shows "read_trace path (\<lambda>_. True) raw junk sz0 (Some (trace_text sugg ids n w xs)) = None"
  using read_requests_full [of n "\<lparr>rd_index = 0, rd_size = sz0, rd_max = 0, rd_ops = []\<rparr>" xs newline path junk] assms
  by (simp add: read_trace_def read_header_text)

end
