(* ===== verification/Driver_Correct.thy ===== *)
theory Driver_Correct
  imports Mm_Correct Trace_Text Driver_Check
begin

text \<open>
  The properties of \<open>mdriver.c\<close>: the range list, the trace parser, and the evaluation
  routines run on \<open>mm.c\<close>. The concrete runs start in the arena of \<open>start_state\<close>.
\<close>

section \<open>A concrete trace\<close>

definition op :: "reqtype \<Rightarrow> u32 \<Rightarrow> u32 \<Rightarrow> traceop_t" where
  "op ty i n = \<lparr>op_type = ty, op_index = i, op_size = n\<rparr>"

lemma op_simps [simp]: "op_type (op ty i n) = ty" "op_index (op ty i n) = i" "op_size (op ty i n) = n"
  by (simp_all add: op_def)

definition demo_ops :: "traceop_t list" where
  "demo_ops = [op ALLOC 0 24, op ALLOC 1 500, op REALLOC 0 100, op FREE 1 0, op FREE 0 0]"

definition demo_trace :: trace_t where
  "demo_trace = \<lparr>sugg_heapsize = 0, num_ids = 2, num_ops = 5, weight = 1, ops = demo_ops,
     blocks = [None, None], block_sizes = [None, None]\<rparr>"

definition demo_driver :: "unit mm_ext driver" where
  "demo_driver = \<lparr>mach = start_state, ranges = [], errors = 0, log = []\<rparr>"

lemma demo_facts:
  "length demo_ops \<le> array_length 5 12" "(5 :: u32) = of_nat (length demo_ops)"
  "max_index 0 demo_ops = 2 - 1" "with_junk (\<lambda>_. 0) 0 demo_ops = demo_ops"
  "replicate (array_length 2 4) None = [None, None]"
proof -
  have "array_length 2 4 = Suc (Suc 0)"
    by (simp add: array_length_def)
  then show "replicate (array_length 2 4) None = [None, None]"
    by simp
qed (simp_all add: demo_ops_def array_length_def max_index_def op_def)

section \<open>The evaluation of \<open>mm.c\<close>\<close>

text \<open>
  Property C7. On a trace whose ids are allocated before use, whose sizes are positive and
  whose reallocated ids have a fill byte below 128, \<open>eval_mm_valid\<close> accepts \<open>mm.c\<close> without
  reporting anything when the first-fit heap of \<open>mm.c\<close>, with freed blocks given back, serves
  every request within \<open>MAX_HEAP\<close>, as it always does when the requests (with 4128 bytes of
  overhead each) fit into the storage; otherwise the result is a report that a request failed.
\<close>

theorem eval_mm_valid_accepts:
  assumes "arena_ok (mach d)" "hi (mach d) + limit + 4128 \<le> 2 ^ 32"
    and "sint (num_ops t) = int (length (ops t))" "length (block_sizes t) = length (blocks t)"
    and "trace_wf limit (length (blocks t)) {} (ops t)" "fills_plain (ops t)"
    and "length (blocks t) \<le> 2 ^ 31" "limit < 2 ^ 31" "\<And>i. nodes i"
  shows "(serves mm_heap (ops t)
       \<and> (\<exists>t' d'. eval_mm_valid mm_package nodes tracenum (t, d) = Some (Return 1 (t', d'))
            \<and> errors d' = errors d \<and> log d' = log d))
    \<or> (\<not> serves mm_heap (ops t) \<and> MAX_HEAP < 4128 + demand 4128 (ops t)
       \<and> (\<exists>t' d' i m. eval_mm_valid mm_package nodes tracenum (t, d) = Some (Return 0 (t', d'))
            \<and> m \<in> {Malloc_Failed, Realloc_Failed}
            \<and> errors d' = errors d + 1 \<and> log d' = log d @ [(tracenum, LINENUM i, m)]))"
  using mm.eval_mm_valid_sound [OF assms(1-8), of nodes tracenum] assms(9) by blast

lemma demo_small: "\<not> MAX_HEAP < 4128 + demand 4128 (ops demo_trace)"
  by (simp add: demo_trace_def demo_ops_def MAX_HEAP_val)

theorem eval_mm_valid_accepts_witness:
  "\<exists>t' d'. eval_mm_valid mm_package (\<lambda>_. True) 0 (demo_trace, demo_driver) = Some (Return 1 (t', d'))
     \<and> errors d' = 0 \<and> log d' = []"
proof -
  have "(serves mm_heap (ops demo_trace)
       \<and> (\<exists>t' d'. eval_mm_valid mm_package (\<lambda>_. True) 0 (demo_trace, demo_driver) = Some (Return 1 (t', d'))
            \<and> errors d' = errors demo_driver \<and> log d' = log demo_driver))
    \<or> (\<not> serves mm_heap (ops demo_trace) \<and> MAX_HEAP < 4128 + demand 4128 (ops demo_trace)
       \<and> (\<exists>t' d' i m. eval_mm_valid mm_package (\<lambda>_. True) 0 (demo_trace, demo_driver) = Some (Return 0 (t', d'))
            \<and> m \<in> {Malloc_Failed, Realloc_Failed}
            \<and> errors d' = errors demo_driver + 1 \<and> log d' = log demo_driver @ [(0, LINENUM i, m)]))"
    by (rule eval_mm_valid_accepts [of _ 1000])
      (simp_all add: demo_driver_def demo_trace_def demo_ops_def start_state_ok fills_plain_def)
  with demo_small show ?thesis
    by (simp add: demo_driver_def)
qed

text \<open>
  Property C16. The utilization \<open>eval_mm_util\<close> computes for \<open>mm.c\<close> is the rounded quotient of
  the trace's high-water mark (the largest sum of the sizes in use after any request) and
  the size of the heap at the end, and the former is never more than the latter; no
  \<open>int\<close> computation on the way overflows.
\<close>

theorem eval_mm_util_correct:
  assumes "arena_ok (mach d)" "hi (mach d) + limit + 4128 \<le> 2 ^ 32"
    and "sint (num_ops t) = int (length (ops t))" "length (block_sizes t) = length (blocks t)"
    and "trace_wf limit (length (blocks t)) {} (ops t)"
    and "0 < high_water (length (blocks t)) (\<lambda>_. 0) (ops t)"
    and "length (blocks t) \<le> 2 ^ 31" "limit < 2 ^ 31"
  shows "(\<exists>t' d' sz. eval_mm_util mm_package rnd (t, d)
         = Some (Inr (rnd (real (high_water (length (blocks t)) (\<lambda>_. 0) (ops t)) / real sz), (t', d')))
       \<and> high_water (length (blocks t)) (\<lambda>_. 0) (ops t) \<le> sz
       \<and> sz = brk (mach d') - lo (mach d'))
    \<or> (\<not> serves mm_heap (ops t) \<and> MAX_HEAP < 4128 + demand 4128 (ops t) \<and> (\<exists>m. eval_mm_util mm_package rnd (t, d) = Some (Inl (app_error m))))"
  using mm.eval_mm_util_value [OF assms] by blast

theorem eval_mm_util_correct_witness:
  "\<exists>t' d' sz. eval_mm_util mm_package (\<lambda>x. x) (demo_trace, demo_driver)
     = Some (Inr (600 / real sz, (t', d'))) \<and> 600 \<le> sz"
proof -
  have hw: "high_water (length (blocks demo_trace)) (\<lambda>_. 0) (ops demo_trace) = 600"
    by (simp add: demo_trace_def demo_ops_def after_op_def lessThan_nat_numeral lessThan_Suc)
  note demo_small
  moreover have "(\<exists>t' d' sz. eval_mm_util mm_package (\<lambda>x. x) (demo_trace, demo_driver)
         = Some (Inr (real (high_water (length (blocks demo_trace)) (\<lambda>_. 0) (ops demo_trace)) / real sz, (t', d')))
       \<and> high_water (length (blocks demo_trace)) (\<lambda>_. 0) (ops demo_trace) \<le> sz
       \<and> sz = brk (mach d') - lo (mach d'))
    \<or> (\<not> serves mm_heap (ops demo_trace) \<and> MAX_HEAP < 4128 + demand 4128 (ops demo_trace)
       \<and> (\<exists>m. eval_mm_util mm_package (\<lambda>x. x) (demo_trace, demo_driver) = Some (Inl (app_error m))))"
    by (rule eval_mm_util_correct [of _ 1000])
      (simp_all add: hw, simp_all add: demo_driver_def demo_trace_def demo_ops_def start_state_ok)
  ultimately show ?thesis
    unfolding hw by auto
qed

text \<open>
  Property C39. \<open>eval_mm_valid\<close> rejects \<open>mm.c\<close>, which keeps the old data, at the first
  request that reallocates an id with a fill byte of 128 or more: after any requests of a
  well-formed trace without such a one, and whatever comes after it, provided that the
  first-fit heap of \<open>mm.c\<close> serves the requests up to it. The bytes are compared as signed
  \<open>char\<close>s with a number between 128 and 255.
\<close>

theorem eval_mm_valid_rejects_correct_realloc:
  assumes "arena_ok (mach d)" "hi (mach d) + limit + 4128 \<le> 2 ^ 32"
    and "sint (num_ops t) = int (length (ops t))" "length (block_sizes t) = length (blocks t)" "length (blocks t) \<le> 2 ^ 31"
    and "ops t = xs @ x # ys" "op_type x = REALLOC" "128 \<le> unat (op_index x) mod 256"
    and "trace_wf limit (length (blocks t)) {} (xs @ [x])" "fills_plain xs" "limit < 2 ^ 31"
    and "serves mm_heap (xs @ [x])" "\<And>i. nodes i"
  shows "\<exists>t' d'. eval_mm_valid mm_package nodes tracenum (t, d) = Some (Return 0 (t', d'))
    \<and> errors d' = errors d + 1 \<and> log d' = log d @ [(tracenum, LINENUM (int (length xs)), Not_Preserved)]"
  by (rule mm.eval_mm_valid_rejects [OF assms])

text \<open>The abstract heap on concrete requests.\<close>

lemmas heap_eval = serves_def heap_step_def spec_malloc_def alloc_fit_def alloc_extend_def merge_left_def
  place_blocks_def block_size_def extend_size_def fits_def heap_room_def free_block_def insert_free_def
  coalesce_blocks_def MAX_HEAP_val Let_def

definition signed_trace :: trace_t where
  "signed_trace = \<lparr>sugg_heapsize = 0, num_ids = 200, num_ops = 5, weight = 1,
     ops = [op ALLOC 0 24, op ALLOC 128 16, op FREE 0 0, op REALLOC 128 32, op FREE 128 0],
     blocks = replicate 200 None, block_sizes = replicate 200 None\<rparr>"

theorem eval_mm_valid_rejects_correct_realloc_witness:
  "\<exists>t' d'. eval_mm_valid mm_package (\<lambda>_. True) 0 (signed_trace, demo_driver) = Some (Return 0 (t', d'))
     \<and> log d' = [(0, 8, Not_Preserved)]"
proof -
  let ?xs = "[op ALLOC 0 24, op ALLOC 128 16, op FREE 0 0]" and ?x = "op REALLOC 128 32"
  have "serves mm_heap (?xs @ [?x])"
    by (simp add: heap_eval)
  then show ?thesis
    using eval_mm_valid_rejects_correct_realloc [of demo_driver 1000 signed_trace ?xs ?x "[op FREE 128 0]" "\<lambda>_. True" 0]
    by (auto simp: demo_driver_def start_state_ok signed_trace_def fills_plain_def LINENUM_def)
qed

section \<open>The range list\<close>

text \<open>
  Property C29. \<open>add_range\<close> accepts a payload only when it is aligned, lies inside the heap
  and meets no range of the list that it does not strictly enclose; and it accepts every
  such payload, as long as the C library finds memory for the list element.
\<close>

theorem add_range_accepts_iff:
  assumes "0 < sint sz" "l \<le> l + sz - 1"
  shows "add_range True l sz tracenum opnum d = Inr (1, d\<lparr>ranges := \<lparr>r_lo = l, r_hi = l + sz - 1\<rparr> # ranges d\<rparr>)
    \<longleftrightarrow> IS_ALIGNED l \<and> mem_heap_lo (mach d) \<le> l \<and> l + sz - 1 \<le> mem_heap_hi (mach d)
      \<and> (\<forall>p \<in> set (ranges d). meets l (l + sz - 1) p \<longrightarrow> encloses l (l + sz - 1) p)"
  by (rule add_range_iff [OF assms])

theorem add_range_accepts_iff_witness:
  "add_range True 0x10010 16 0 0 (demo_driver\<lparr>mach := start_state\<lparr>mem_brk := 0x11000\<rparr>\<rparr>)
     = Inr (1, demo_driver\<lparr>mach := start_state\<lparr>mem_brk := 0x11000\<rparr>,
         ranges := [\<lparr>r_lo = 0x10010, r_hi = 0x1001F\<rparr>]\<rparr>)"
  using add_range_accepts_iff [of 16 "0x10010" 0 0 "demo_driver\<lparr>mach := start_state\<lparr>mem_brk := 0x11000\<rparr>\<rparr>"]
  by (simp add: IS_ALIGNED_def ALIGNMENT_def mem_heap_lo_def mem_heap_hi_def demo_driver_def start_state_def)

text \<open>
  A payload that strictly encloses a block in use is accepted although the two
  overlap: the test only asks whether an end of the new payload lies in the old one.
\<close>

lemma add_range_misses_enclosed:
  assumes "0 < sint sz" "l \<le> l + sz - 1" "IS_ALIGNED l"
    and "mem_heap_lo (mach d) \<le> l" "l + sz - 1 \<le> mem_heap_hi (mach d)"
    and "ranges d = [p]" "l < r_lo p" "r_lo p \<le> r_hi p" "r_hi p < l + sz - 1"
  shows "meets l (l + sz - 1) p
    \<and> add_range True l sz tracenum opnum d = Inr (1, d\<lparr>ranges := \<lparr>r_lo = l, r_hi = l + sz - 1\<rparr> # ranges d\<rparr>)"
  using assms add_range_iff [OF assms(1,2), of tracenum opnum d]
  by (auto simp: meets_def encloses_def)

lemma add_range_misses_enclosed_witness:
  "\<exists>d'. add_range True 0x10010 64 0 0
     (demo_driver\<lparr>mach := start_state\<lparr>mem_brk := 0x11000\<rparr>, ranges := [\<lparr>r_lo = 0x10018, r_hi = 0x1001F\<rparr>]\<rparr>)
     = Inr (1, d')"
  using add_range_misses_enclosed [of 64 "0x10010"
      "demo_driver\<lparr>mach := start_state\<lparr>mem_brk := 0x11000\<rparr>, ranges := [\<lparr>r_lo = 0x10018, r_hi = 0x1001F\<rparr>]\<rparr>"
      "\<lparr>r_lo = 0x10018, r_hi = 0x1001F\<rparr>" 0 0]
  by (simp add: IS_ALIGNED_def ALIGNMENT_def mem_heap_lo_def mem_heap_hi_def demo_driver_def start_state_def)

text \<open>
  \<open>remove_range\<close> takes out of a list without two ranges at one address exactly
  the range that starts at the given address, and keeps the addresses different.
\<close>

lemma remove_range_correct:
  assumes "distinct (map r_lo (ranges d))"
  shows "set (ranges (remove_range l d)) = {p \<in> set (ranges d). r_lo p \<noteq> l}
    \<and> distinct (map r_lo (ranges (remove_range l d)))
    \<and> mach (remove_range l d) = mach d \<and> errors (remove_range l d) = errors d \<and> log (remove_range l d) = log d"
  using set_remove_from [OF assms] distinct_remove_from [OF assms] by (simp add: remove_range_def)

lemma remove_range_correct_witness:
  "set (ranges (remove_range 16 (demo_driver\<lparr>ranges := [\<lparr>r_lo = 32, r_hi = 39\<rparr>, \<lparr>r_lo = 16, r_hi = 23\<rparr>]\<rparr>)))
     = {\<lparr>r_lo = 32, r_hi = 39\<rparr>}"
proof -
  have "distinct (map r_lo (ranges (demo_driver\<lparr>ranges := [\<lparr>r_lo = 32, r_hi = 39\<rparr>, \<lparr>r_lo = 16, r_hi = 23\<rparr>]\<rparr>)))"
    by simp
  from remove_range_correct [OF this, of 16]
  have "set (ranges (remove_range 16 (demo_driver\<lparr>ranges := [\<lparr>r_lo = 32, r_hi = 39\<rparr>, \<lparr>r_lo = 16, r_hi = 23\<rparr>]\<rparr>)))
      = {p \<in> {\<lparr>r_lo = 32, r_hi = 39\<rparr>, \<lparr>r_lo = 16, r_hi = 23\<rparr>}. r_lo p \<noteq> 16}"
    by simp
  also have "\<dots> = {\<lparr>r_lo = 32, r_hi = 39\<rparr>}"
    by auto
  finally show ?thesis .
qed

text \<open>
  Property C8. What the driver's approval means, for any malloc package that leaves the memory
  system in order: when \<open>eval_mm_valid\<close> returns 1 for a well-formed trace, then for every
  request for memory of the trace the payload recorded for its id was aligned and inside the
  heap, and was disjoint from the payload of every other id in use at that time, except for
  payloads that it strictly enclosed.
\<close>

theorem eval_mm_valid_checks:
  assumes "eval_mm_valid pk nodes tracenum (t, d) = Some (Return 1 s')"
    and "sint (num_ops t) = int (length (ops t))" "length (block_sizes t) = length (blocks t)"
    and "trace_wf limit (length (blocks t)) {} (ops t)"
    and "k < length (ops t)" "op_type (ops t ! k) \<noteq> FREE"
    and "\<And>r m. pk_init pk (mem_reset_brk (mach d)) = Some (r, m)
      \<Longrightarrow> arena_kept pk nodes tracenum (t, d\<lparr>ranges := [], mach := m\<rparr>)"
  shows "\<exists>r m t1 d1. pk_init pk (mem_reset_brk (mach d)) = Some (r, m) \<and> 0 \<le> r
    \<and> for_ops (valid_op pk nodes tracenum) 0 (Suc k) (ops t) (t, d\<lparr>ranges := [], mach := m\<rparr>) = Some (Next (t1, d1))
    \<and> block_sizes t1 ! unat (op_index (ops t ! k)) = Some (op_size (ops t ! k))
    \<and> passed t1 d1 (unat (op_index (ops t ! k))) (in_use (take (Suc k) (ops t)))"
  by (rule eval_mm_valid_passed [OF assms])

lemma demo_valid: "\<exists>s. eval_mm_valid mm_package (\<lambda>_. True) 0 (demo_trace, demo_driver) = Some (Return 1 s)"
  using mm.eval_mm_valid_sound [of demo_driver 1000 demo_trace "\<lambda>_. True" 0] demo_small
  by (fastforce simp: demo_driver_def demo_trace_def demo_ops_def start_state_ok fills_plain_def)

theorem eval_mm_valid_checks_witness:
  "\<exists>t1 d1. for_ops (valid_op mm_package (\<lambda>_. True) 0) 0 3 demo_ops (demo_trace, demo_driver\<lparr>mach := heap1\<rparr>)
       = Some (Next (t1, d1))
     \<and> block_sizes t1 ! 0 = Some 100 \<and> passed t1 d1 0 {0, 1}"
proof -
  obtain s where s: "eval_mm_valid mm_package (\<lambda>_. True) 0 (demo_trace, demo_driver) = Some (Return 1 s)"
    using demo_valid by blast
  have init: "pk_init mm_package (mem_reset_brk (mach demo_driver)) = Some (0, heap1)"
    using heap1_run(1) by (simp add: demo_driver_def mem_reset_brk_def start_state_def)
  have t: "sint (num_ops demo_trace) = int (length (ops demo_trace))" "length (block_sizes demo_trace) = length (blocks demo_trace)"
    "trace_wf 1000 (length (blocks demo_trace)) {} (ops demo_trace)" "fills_plain (ops demo_trace)"
    "2 < length (ops demo_trace)" "op_type (ops demo_trace ! 2) \<noteq> FREE"
    "op_index (ops demo_trace ! 2) = 0" "op_size (ops demo_trace ! 2) = 100" "length (blocks demo_trace) \<le> 2 ^ 31"
    by (simp_all add: demo_trace_def demo_ops_def fills_plain_def)
  have L: "in_use (take (Suc 2) (ops demo_trace)) = {0, 1}"
    by (auto simp: in_use_def use_def demo_trace_def demo_ops_def eval_nat_numeral)
  have kept: "arena_kept mm_package (\<lambda>_. True) 0 (demo_trace, demo_driver\<lparr>ranges := [], mach := m\<rparr>)"
    if "pk_init mm_package (mem_reset_brk (mach demo_driver)) = Some (r, m)" for r m
    by (rule mm.contract_arena_kept [of demo_driver 1000, OF _ _ t(2-4,9) _ _ that])
      (simp_all add: demo_driver_def start_state_ok)
  from eval_mm_valid_checks [OF s t(1-3,5,6), unfolded L t(7,8)] kept obtain r m t1 d1 where
    m: "pk_init mm_package (mem_reset_brk (mach demo_driver)) = Some (r, m)"
    and run: "for_ops (valid_op mm_package (\<lambda>_. True) 0) 0 (Suc 2) (ops demo_trace)
        (demo_trace, demo_driver\<lparr>ranges := [], mach := m\<rparr>) = Some (Next (t1, d1))"
    and new: "block_sizes t1 ! unat (0 :: u32) = Some 100" "passed t1 d1 (unat (0 :: u32)) {0, 1}"
    by blast
  have "m = heap1"
    using m init by simp
  then have start: "demo_driver\<lparr>ranges := [], mach := m\<rparr> = demo_driver\<lparr>mach := heap1\<rparr>" "Suc 2 = 3" "ops demo_trace = demo_ops"
    by (simp_all add: demo_driver_def demo_trace_def)
  from run new show ?thesis
    unfolding start unsigned_0 by blast
qed

section \<open>The trace parser\<close>

text \<open>The file \<open>short1-bal.rep\<close>, which comes with the program, and what it says.\<close>

definition short1_bal :: string where
  "short1_bal = ''20000\<newline>6\<newline>12\<newline>1\<newline>a 0 2040\<newline>a 1 2040\<newline>f 1\<newline>a 2 48\<newline>a 3 4072\<newline>f 3\<newline>a 4 4072\<newline>f 0\<newline>f 2\<newline>a 5 4072\<newline>f 4\<newline>f 5\<newline>''"

definition short1_ops :: "traceop_t list" where
  "short1_ops = [op ALLOC 0 2040, op ALLOC 1 2040, op FREE 1 0, op ALLOC 2 48, op ALLOC 3 4072, op FREE 3 0,
     op ALLOC 4 4072, op FREE 0 0, op FREE 2 0, op ALLOC 5 4072, op FREE 4 0, op FREE 5 0]"

lemma short1_facts:
  "length short1_ops \<le> array_length 12 12" "(12 :: u32) = of_nat (length short1_ops)"
  "max_index 0 short1_ops = 6 - 1" "with_junk (\<lambda>_. 0) 0 short1_ops = short1_ops"
  by (simp_all add: short1_ops_def array_length_def max_index_def op_def)

lemma short1_text: "trace_text 20000 6 12 1 short1_ops = short1_bal"
  by (simp add: trace_text_def header_text_def ops_text_def op_text_def short1_ops_def short1_bal_def
      op_letter_def space_def newline_def decimal.simps digit_chars digit_chars(2) [unfolded One_nat_def])

lemma short1_read:
  "read_trace path (\<lambda>_. True) raw (\<lambda>_. 0) 0 (Some short1_bal) = Some (Inr
     \<lparr>sugg_heapsize = 20000, num_ids = 6, num_ops = 12, weight = 1, ops = short1_ops,
      blocks = replicate 6 None, block_sizes = replicate 6 None\<rparr>)"
proof -
  have "array_length 6 4 = 6"
    by (simp add: array_length_def)
  then show ?thesis
    using read_trace_text [OF short1_facts(1-3), of 20000 1 path raw "\<lambda>_. 0" 0]
    by (simp add: parsed_trace_def short1_text short1_facts(4))
qed

text \<open>
  Property C30. Reading back the text of a trace, with its requests one per line, gives
  these requests (the unused size of a free request is what was in memory), when the header
  announces their number and the ids up to the largest one used, and its four numbers are
  not negative as \<open>int\<close>s.
\<close>

theorem read_trace_roundtrip:
  assumes "length xs \<le> array_length n 12" "n = of_nat (length xs)" "max_index 0 xs = ids - 1"
    and "list_all (\<lambda>n. unat n < 2 ^ 31) [sugg, ids, n, w]"
  shows "read_trace path (\<lambda>_. True) raw junk sz0 (Some (trace_text sugg ids n w xs))
    = Some (Inr \<lparr>sugg_heapsize = sugg, num_ids = ids, num_ops = n, weight = w,
        ops = with_junk junk 0 xs,
        blocks = replicate (array_length ids 4) None,
        block_sizes = replicate (array_length ids 4) None\<rparr>)"
  using read_trace_text [OF assms] by (simp add: parsed_trace_def)

theorem read_trace_roundtrip_witness:
  "read_trace ''./short1-bal.rep'' (\<lambda>_. True) demo_trace (\<lambda>_. 0) 0 (Some short1_bal) = Some (Inr
     \<lparr>sugg_heapsize = 20000, num_ids = 6, num_ops = 12, weight = 1, ops = short1_ops,
      blocks = replicate 6 None, block_sizes = replicate 6 None\<rparr>)"
proof -
  have "array_length 6 4 = 6"
    by (simp add: array_length_def)
  then show ?thesis
    using read_trace_roundtrip [OF short1_facts(1-3), of 20000 1 "''./short1-bal.rep''" demo_trace "\<lambda>_. 0" 0]
    by (simp add: short1_text short1_facts(4))
qed

text \<open>
  Property C31. What \<open>eval_mm_valid\<close> and the other routines rely on: a trace that
  \<open>read_trace\<close> returns, whatever is in the file, has as many requests as \<open>num_ops\<close> says, two
  arrays of equal length, and no request for memory with an id beyond \<open>num_ids - 1\<close>.
\<close>

theorem read_trace_sound:
  assumes "read_trace path memory raw junk sz0 file = Some (Inr t)"
  shows "sint (num_ops t) = int (length (ops t)) \<and> length (block_sizes t) = length (blocks t)
    \<and> (\<forall>x \<in> set (ops t). op_type x \<noteq> FREE \<longrightarrow> op_index x \<le> num_ids t - 1)"
  using read_trace_result [OF assms] by blast

lemma demo_read: "read_trace path (\<lambda>_. True) raw (\<lambda>_. 0) 0 (Some (trace_text 0 2 5 1 demo_ops)) = Some (Inr demo_trace)"
  using read_trace_text [OF demo_facts(1-3), of 0 1 path raw "\<lambda>_. 0" 0]
  by (simp add: parsed_trace_def demo_facts(4,5) demo_trace_def)

theorem read_trace_sound_witness:
  "sint (num_ops demo_trace) = int (length (ops demo_trace))
   \<and> length (block_sizes demo_trace) = length (blocks demo_trace) \<and> op_index (demo_ops ! 1) \<le> num_ids demo_trace - 1"
  using read_trace_sound [OF demo_read [of "''./demo.rep''" demo_trace]]
  by (simp add: demo_trace_def demo_ops_def)

text \<open>
  Property C40. A file with more request lines than its header announces makes \<open>read_trace\<close>
  write past the end of the array \<open>ops\<close>; the assertion that would report the difference
  only comes after the loop.
\<close>

theorem read_trace_overruns:
  assumes "array_length n 12 < length xs" "list_all (\<lambda>n. unat n < 2 ^ 31) [sugg, ids, n, w]"
  shows "read_trace path (\<lambda>_. True) raw junk sz0 (Some (trace_text sugg ids n w xs)) = None"
  by (rule read_trace_text_full [OF assms])

theorem read_trace_overruns_witness:
  "read_trace ''./demo.rep'' (\<lambda>_. True) demo_trace (\<lambda>_. 0) 0 (Some (trace_text 20000 6 11 1 short1_ops)) = None"
  by (rule read_trace_overruns) (simp_all add: short1_ops_def array_length_def)

end
