(* ===== verification/Clock.thy ===== *)
theory Clock
  imports Memlib
begin

text \<open>
  \<open>clock.c\<close>: the cycle counter in the versions for the three kinds of machine, and the
  machine-independent functions on top of the x86 version. The instruction \<open>rdtsc\<close>, the
  system calls and whatever they depend on are a parameter: a record of functions on the state of the machine. A \<open>double\<close> is a real
  number; \<open>rnd\<close> is the rounding of one floating point operation. Clock ticks are integers.
\<close>

section \<open>State and machine\<close>

record 'e machine =
  rdtsc :: "'e \<Rightarrow> (u32 \<times> u32) \<times> 'e"  \<comment> \<open>edx and eax\<close>
  tms_utime :: "'e \<Rightarrow> int \<times> 'e"  \<comment> \<open>user time that \<open>times\<close> reports\<close>
  sleep_for :: "int \<Rightarrow> 'e \<Rightarrow> 'e"
  rnd :: "real \<Rightarrow> real"

record 'e clock =
  cyc_hi :: u32
  cyc_lo :: u32
  cyc_per_tick :: real
  start_tick :: int
  env :: 'e

definition NEVENT :: int where "NEVENT = 100"
definition THRESHOLD :: real where "THRESHOLD = 1000"
definition RECORDTHRESH :: real where "RECORDTHRESH = 3000"

section \<open>The counter\<close>

definition access_counter :: "'e machine \<Rightarrow> 'e clock \<Rightarrow> (u32 \<times> u32) \<times> 'e clock" where
  "access_counter hw c = (case rdtsc hw (env c) of (r, e) \<Rightarrow> (r, c\<lparr>env := e\<rparr>))"

definition start_counter :: "'e machine \<Rightarrow> 'e clock \<Rightarrow> 'e clock" where
  "start_counter hw c =
     (case access_counter hw c of ((h, l), c) \<Rightarrow> c\<lparr>cyc_hi := h, cyc_lo := l\<rparr>)"

text \<open>
  The product with \<open>2 ^ 32\<close> is exact; the sum is rounded. The message for a negative result
  has no effect on the state.
\<close>

definition get_counter :: "'e machine \<Rightarrow> 'e clock \<Rightarrow> real \<times> 'e clock" where
  "get_counter hw c =
     (case access_counter hw c of ((ncyc_hi, ncyc_lo), c) \<Rightarrow>
        let l = ncyc_lo - cyc_lo c;
            borrow = (if l > ncyc_lo then 1 else 0);
            h = ncyc_hi - cyc_hi c - borrow
        in (rnd hw (real (unat h) * 2 ^ 30 * 4 + real (unat l)), c))"

text \<open>The Alpha version: \<open>counter\<close> is the instruction sequence for its 32-bit cycle counter.\<close>

definition start_counter_alpha :: "('e \<Rightarrow> u32 \<times> 'e) \<Rightarrow> 'e clock \<Rightarrow> 'e clock" where
  "start_counter_alpha counter c =
     (case counter (env c) of (t, e) \<Rightarrow> c\<lparr>cyc_hi := 0, cyc_lo := t, env := e\<rparr>)"

definition get_counter_alpha :: "(real \<Rightarrow> real) \<Rightarrow> ('e \<Rightarrow> u32 \<times> 'e) \<Rightarrow> 'e clock \<Rightarrow> real \<times> 'e clock" where
  "get_counter_alpha rn counter c =
     (case counter (env c) of (ncyc_lo, e) \<Rightarrow>
        let ncyc_hi = 0;
            l = ncyc_lo - cyc_lo c;
            borrow = (if l > ncyc_lo then 1 else 0);
            h = ncyc_hi - cyc_hi c - borrow
        in (rn (real (unat h) * 2 ^ 30 * 4 + real (unat l)), c\<lparr>env := e\<rparr>))"

lemma start_get_counter_alpha:
  assumes "counter (env c) = (t0, e0)" "counter e0 = (t1, e1)"
  shows "fst (get_counter_alpha rn counter (start_counter_alpha counter c)) =
    rn (real (unat (0 - 0 - (if t1 - t0 > t1 then 1 else 0) :: u32)) * 2 ^ 30 * 4 + real (unat (t1 - t0)))"
proof -
  have "cyc_hi (start_counter_alpha counter c) = 0" "cyc_lo (start_counter_alpha counter c) = t0"
    "env (start_counter_alpha counter c) = e0"
    using assms(1) by (simp_all add: start_counter_alpha_def)
  then show ?thesis
    using assms(2) by (simp only: get_counter_alpha_def Let_def prod.case fst_conv)
qed

text \<open>On other machines both functions print what to do instead and end the process.\<close>

definition start_counter_other :: exit where
  "start_counter_other = Exit 1
     (line ''ERROR: You are trying to use a start_counter routine in clock.c''
      @ line ''that has not been implemented yet on this platform.''
      @ line ''Please choose another timing package in config.h.'')"

definition get_counter_other :: exit where
  "get_counter_other = Exit 1
     (line ''ERROR: You are trying to use a get_counter routine in clock.c''
      @ line ''that has not been implemented yet on this platform.''
      @ line ''Please choose another timing package in config.h.'')"


section \<open>Machine-independent functions\<close>

definition ovhd :: "'e machine \<Rightarrow> 'e clock \<Rightarrow> real \<times> 'e clock" where
  "ovhd hw c =
     (let (_, c) = get_counter hw (start_counter hw c) in get_counter hw (start_counter hw c))"

text \<open>The rounded quotient of two \<open>double\<close>s; without a finite one the result is \<open>None\<close>.\<close>

definition div_double :: "(real \<Rightarrow> real) \<Rightarrow> real \<Rightarrow> real \<Rightarrow> real option" where
  "div_double rn a b = (if b = 0 then None else Some (rn (a / b)))"

definition mhz_full :: "'e machine \<Rightarrow> int \<Rightarrow> 'e clock \<Rightarrow> (real \<times> 'e clock) option" where
  "mhz_full hw sleeptime c =
     (let c = start_counter hw c;
          c = c\<lparr>env := sleep_for hw sleeptime (env c)\<rparr>;
          (cycles, c) = get_counter hw c
      in do {
        rate \<leftarrow> div_double (rnd hw) cycles (rnd hw (1000000 * of_int sleeptime));
        Some (rate, c) })"

definition mhz :: "'e machine \<Rightarrow> 'e clock \<Rightarrow> (real \<times> 'e clock) option" where
  "mhz hw c = mhz_full hw 2 c"

section \<open>Compensation for timer interrupts\<close>

definition read_times :: "'e machine \<Rightarrow> 'e clock \<Rightarrow> int \<times> 'e clock" where
  "read_times hw c = (case tms_utime hw (env c) of (t, e) \<Rightarrow> (t, c\<lparr>env := e\<rparr>))"

text \<open>The update of \<open>cyc_per_tick\<close> in the loop of \<open>callibrate\<close>.\<close>

definition record_tick :: "real \<Rightarrow> 'e clock \<Rightarrow> 'e clock" where
  "record_tick cpt c =
     (if (cyc_per_tick c = 0 \<or> cyc_per_tick c > cpt) \<and> cpt > RECORDTHRESH
      then c\<lparr>cyc_per_tick := cpt\<rparr> else c)"

partial_function (option) callibrate_loop ::
  "'e machine \<Rightarrow> int \<Rightarrow> real \<Rightarrow> int \<Rightarrow> 'e clock \<Rightarrow> 'e clock option" where
  "callibrate_loop hw e oldt oldc c =
     (if e < NEVENT then
        (case get_counter hw c of (newt, c) \<Rightarrow>
           if rnd hw (newt - oldt) \<ge> THRESHOLD then
             (case read_times hw c of (newc, c) \<Rightarrow>
                if newc > oldc then
                  callibrate_loop hw (e + 1) newt newc
                    (record_tick (rnd hw (rnd hw (newt - oldt) / of_int (newc - oldc))) c)
                else callibrate_loop hw e newt oldc c)
           else callibrate_loop hw e oldt oldc c)
      else Some c)"

definition callibrate :: "'e machine \<Rightarrow> 'e clock \<Rightarrow> 'e clock option" where
  "callibrate hw c =
     (let (oldc, c) = read_times hw c;
          (oldt, c) = get_counter hw (start_counter hw c)
      in callibrate_loop hw 0 oldt oldc c)"

definition start_comp_counter :: "'e machine \<Rightarrow> 'e clock \<Rightarrow> 'e clock option" where
  "start_comp_counter hw c = do {
     c \<leftarrow> (if cyc_per_tick c = 0 then callibrate hw c else Some c);
     let (t, c) = read_times hw c;
     Some (start_counter hw (c\<lparr>start_tick := t\<rparr>)) }"

definition get_comp_counter :: "'e machine \<Rightarrow> 'e clock \<Rightarrow> real \<times> 'e clock" where
  "get_comp_counter hw c =
     (let (time, c) = get_counter hw c;
          (t, c) = read_times hw c;
          ticks = t - start_tick c
      in (rnd hw (time - rnd hw (of_int ticks * cyc_per_tick c)), c))"

section \<open>Facts\<close>

lemma record_tick_fields [simp]:
  "env (record_tick x c) = env c" "cyc_hi (record_tick x c) = cyc_hi c" "cyc_lo (record_tick x c) = cyc_lo c"
  by (simp_all add: record_tick_def)

text \<open>A counter value as one number.\<close>

definition count64 :: "u32 \<times> u32 \<Rightarrow> int" where
  "count64 r = uint (fst r) * 2 ^ 32 + uint (snd r)"

lemma borrow_word:
  fixes a b :: u32
  shows "a - b > a \<longleftrightarrow> a < b"
proof -
  have "unat a < 2 ^ 32" "unat b < 2 ^ 32"
    using unsigned_less [of a] unsigned_less [of b] by simp_all
  then show ?thesis
    by (auto simp: word_less_nat_alt unat_sub_if_size word_size)
qed

lemma uint_sub_borrow:
  fixes a b :: u32
  shows "uint (a - b) = uint a - uint b + (if a < b then 2 ^ 32 else 0)"
  using uint_sub_if_size [of a b] by (auto simp: word_less_def word_size)

lemma subtract64:
  fixes h0 l0 h1 l1 :: u32
  defines "l \<equiv> l1 - l0" and "h \<equiv> h1 - h0 - (if l1 - l0 > l1 then 1 else 0)"
  shows "uint h * 2 ^ 32 + uint l = (count64 (h1, l1) - count64 (h0, l0)) mod 2 ^ 64"
proof -
  let ?b = "if l1 < l0 then 1 else 0 :: int"
  have l: "uint l = uint l1 - uint l0 + ?b * 2 ^ 32"
    unfolding l_def using uint_sub_borrow [of l1 l0] by auto
  have h: "uint h = (uint h1 - uint h0 - ?b) mod 2 ^ 32"
    unfolding h_def borrow_word
    by (auto simp: uint_word_arith_bintrs take_bit_eq_mod mod_simps)
  define q where "q = - ((uint h1 - uint h0 - ?b) div 2 ^ 32)"
  have q: "uint h = uint h1 - uint h0 - ?b + 2 ^ 32 * q"
    unfolding h q_def by (simp add: minus_mult_div_eq_mod [symmetric])
  have "uint h * 2 ^ 32 + uint l = count64 (h1, l1) - count64 (h0, l0) + 2 ^ 64 * q"
    unfolding q l count64_def by simp
  then have "(uint h * 2 ^ 32 + uint l) mod 2 ^ 64 = (count64 (h1, l1) - count64 (h0, l0)) mod 2 ^ 64"
    by (simp only: mod_mult_self2)
  moreover have "0 \<le> uint h * 2 ^ 32 + uint l" "uint h * 2 ^ 32 + uint l < 2 ^ 64"
    using uint_lt2p [of h] uint_lt2p [of l] by simp_all
  ultimately show ?thesis
    by (simp only: mod_pos_pos_trivial)
qed

lemma real_unat: "real (unat w) = of_int (uint w)"
  by (subst uint_nat) (rule of_int_of_nat_eq [symmetric])

lemma get_counter_value:
  assumes "rdtsc hw (env c) = (r, e)"
  shows "get_counter hw c =
    (rnd hw (of_int ((count64 r - count64 (cyc_hi c, cyc_lo c)) mod 2 ^ 64)), c\<lparr>env := e\<rparr>)"
proof -
  obtain h1 l1 where r: "r = (h1, l1)"
    by fastforce
  let ?l = "l1 - cyc_lo c" and ?h = "h1 - cyc_hi c - (if l1 - cyc_lo c > l1 then 1 else 0)"
  have "real (unat ?h) * 2 ^ 30 * 4 + real (unat ?l) = of_int (uint ?h * 2 ^ 32 + uint ?l)"
    by (simp only: real_unat of_int_add of_int_mult) simp
  then have "real (unat ?h) * 2 ^ 30 * 4 + real (unat ?l)
      = of_int ((count64 (h1, l1) - count64 (cyc_hi c, cyc_lo c)) mod 2 ^ 64)"
    by (simp only: subtract64)
  moreover have "cyc_hi (c\<lparr>env := e\<rparr>) = cyc_hi c" "cyc_lo (c\<lparr>env := e\<rparr>) = cyc_lo c"
    by simp_all
  ultimately show ?thesis
    by (simp only: get_counter_def access_counter_def assms r prod.case Let_def)
qed

text \<open>Without progress of the user time \<open>callibrate\<close> never returns.\<close>

lemma callibrate_loop_stuck:
  assumes k: "\<And>x. fst (tms_utime hw x) = k"
    and run: "callibrate_loop hw e oldt oldc c = Some c'"
  shows "\<not> (e < NEVENT \<and> oldc = k)"
  using run k
proof (induction hw e oldt oldc c c' rule: callibrate_loop.raw_induct [rotated, consumes 1])
  case prems: (1 rec hw e oldt oldc c c')
  obtain newt c1 where g: "get_counter hw c = (newt, c1)"
    by fastforce
  obtain newc c2 where t: "read_times hw c1 = (newc, c2)"
    by fastforce
  have "newc = k"
    using t prems by (simp add: read_times_def case_prod_beta)
  show ?case
  proof
    assume e: "e < NEVENT \<and> oldc = k"
    with prems g t \<open>newc = k\<close> have "\<exists>b u. rec hw e b oldc u = Some c'"
      by (auto split: if_splits)
    then show False
      using prems e by blast
  qed
qed

lemma callibrate_stuck:
  assumes "\<And>x. fst (tms_utime hw x) = k"
  shows "callibrate hw c = None"
proof -
  have "callibrate_loop hw 0 oldt k c = None" for oldt c
    using callibrate_loop_stuck [of hw k 0 oldt k c, OF assms] by (cases "callibrate_loop hw 0 oldt k c") (auto simp: NEVENT_def)
  moreover have "fst (read_times hw c) = k"
    using assms [of "env c"] by (simp add: read_times_def case_prod_beta)
  ultimately show ?thesis
    by (simp add: callibrate_def case_prod_beta)
qed

end
