(* ===== verification/Fcyc.thy ===== *)
theory Fcyc
  imports Clock Memlib
begin

text \<open>
  \<open>fcyc.c\<close>: the K-best scheme, which measures a function until the \<open>k\<close> smallest
  measurements agree or the number of samples reaches its limit. \<open>None\<close> in \<open>values\<close> and
  \<open>cache_buf\<close> is a null pointer.
\<close>

section \<open>State and parameters\<close>

record sampler =
  kbest :: int
  maxsamples :: int
  epsilon :: real
  compensate :: int
  clear_cache :: int
  cache_bytes :: u32
  cache_block :: u32
  cache_buf :: "u32 list option"
  vals :: "real list option"
  samplecount :: int
  sink :: int

definition fcyc_defaults :: "(real \<Rightarrow> real) \<Rightarrow> sampler" where
  "fcyc_defaults rn = \<lparr>kbest = 3, maxsamples = 20, epsilon = rn (1 / 100), compensate = 0, clear_cache = 0,
     cache_bytes = push_bit 19 1, cache_block = 32, cache_buf = None, vals = None,
     samplecount = 0, sink = 0\<rparr>"

definition set_fcyc_clear_cache :: "int \<Rightarrow> sampler \<Rightarrow> sampler" where
  "set_fcyc_clear_cache clear st = st\<lparr>clear_cache := clear\<rparr>"

definition set_fcyc_cache_size :: "u32 \<Rightarrow> sampler \<Rightarrow> sampler" where
  "set_fcyc_cache_size bytes st =
     (if bytes \<noteq> cache_bytes st then st\<lparr>cache_bytes := bytes, cache_buf := None\<rparr> else st)"

definition set_fcyc_cache_block :: "u32 \<Rightarrow> sampler \<Rightarrow> sampler" where
  "set_fcyc_cache_block bytes st = st\<lparr>cache_block := bytes\<rparr>"

definition set_fcyc_compensate :: "int \<Rightarrow> sampler \<Rightarrow> sampler" where
  "set_fcyc_compensate a st = st\<lparr>compensate := a\<rparr>"

definition set_fcyc_k :: "int \<Rightarrow> sampler \<Rightarrow> sampler" where
  "set_fcyc_k k st = st\<lparr>kbest := k\<rparr>"

definition set_fcyc_maxsamples :: "int \<Rightarrow> sampler \<Rightarrow> sampler" where
  "set_fcyc_maxsamples a st = st\<lparr>maxsamples := a\<rparr>"

definition set_fcyc_epsilon :: "real \<Rightarrow> sampler \<Rightarrow> sampler" where
  "set_fcyc_epsilon a st = st\<lparr>epsilon := a\<rparr>"

section \<open>Samples\<close>

text \<open>\<open>found\<close>: \<open>calloc\<close> finds memory.\<close>

definition init_sampler :: "bool \<Rightarrow> sampler \<Rightarrow> sampler" where
  "init_sampler found st =
     st\<lparr>vals := (if found \<and> 0 \<le> kbest st then Some (replicate (nat (kbest st)) 0) else None),
        samplecount := 0\<rparr>"

definition get_val :: "real list \<Rightarrow> int \<Rightarrow> real option" where
  "get_val vs i = (if 0 \<le> i \<and> i < int (length vs) then Some (vs ! nat i) else None)"

definition set_val :: "int \<Rightarrow> real \<Rightarrow> real list \<Rightarrow> real list option" where
  "set_val i v vs = (if 0 \<le> i \<and> i < int (length vs) then Some (vs[nat i := v]) else None)"

text \<open>The insertion loop at \<open>pos\<close>.\<close>

fun sift :: "nat \<Rightarrow> real list \<Rightarrow> real list option" where
  "sift 0 vs = Some vs"
| "sift (Suc p) vs =
     (if length vs \<le> Suc p then None
      else if vs ! p > vs ! Suc p then sift p (vs[p := vs ! Suc p, Suc p := vs ! p])
      else Some vs)"

definition add_sample :: "real \<Rightarrow> sampler \<Rightarrow> sampler option" where
  "add_sample v st = do {
     vs \<leftarrow> vals st;
     (pos, vs) \<leftarrow>
       (if samplecount st < kbest st then do {
          vs \<leftarrow> set_val (samplecount st) v vs;
          Some (samplecount st, vs) }
        else do {
          last \<leftarrow> get_val vs (kbest st - 1);
          if v < last then do {
            vs \<leftarrow> set_val (kbest st - 1) v vs;
            Some (kbest st - 1, vs) }
          else Some (0, vs) });
     vs \<leftarrow> sift (nat pos) vs;
     Some (st\<lparr>vals := Some vs, samplecount := samplecount st + 1\<rparr>) }"

definition has_converged :: "(real \<Rightarrow> real) \<Rightarrow> sampler \<Rightarrow> bool option" where
  "has_converged rn st =
     (if samplecount st \<ge> kbest st then do {
        vs \<leftarrow> vals st;
        first \<leftarrow> get_val vs 0;
        last \<leftarrow> get_val vs (kbest st - 1);
        Some (rn (rn (1 + epsilon st) * first) \<ge> last) }
      else Some False)"

section \<open>Clearing the cache\<close>

text \<open>
  The loop over the buffer; pointers are indices into it. The sum is one of signed
  integers, which has no defined result when it overflows.
\<close>

partial_function (option) clear_loop :: "nat \<Rightarrow> nat \<Rightarrow> u32 list \<Rightarrow> nat \<Rightarrow> int \<Rightarrow> int option" where
  "clear_loop incr n buf i x =
     (if i < n then
        if i < length buf then
          (case int32 (x + sint (buf ! i)) of
             None \<Rightarrow> None
           | Some x \<Rightarrow> clear_loop incr n buf (i + incr) x)
        else None
      else Some x)"

text \<open>\<open>memory\<close> is what \<open>malloc\<close> of \<open>cache_bytes\<close> bytes delivers, as an array of \<open>int\<close>.\<close>

definition clear :: "(u32 \<Rightarrow> u32 list option) \<Rightarrow> sampler \<Rightarrow> (exit + sampler) option" where
  "clear memory st =
     (let buf = (case cache_buf st of None \<Rightarrow> memory (cache_bytes st) | b \<Rightarrow> b) in
      case buf of
        None \<Rightarrow> Some (Inl (Exit 1 (line ''Fatal error.  Malloc returned null when trying to clear cache'')))
      | Some b \<Rightarrow> do {
          x \<leftarrow> clear_loop (unat (cache_block st) div 4) (unat (cache_bytes st) div 4) b 0 (sink st);
          Some (Inr (st\<lparr>cache_buf := Some b, sink := x\<rparr>)) })"

section \<open>\<open>fcyc\<close>\<close>

text \<open>
  The function to be measured, applied to its argument: it may end the process (\<open>Inl\<close>) or
  have no defined result (\<open>None\<close>).
\<close>

type_synonym 'e test_funct = "'e \<Rightarrow> (exit + 'e) option"

text \<open>A function that always returns.\<close>

definition returning :: "('e \<Rightarrow> 'e) \<Rightarrow> 'e test_funct" where
  "returning g = (\<lambda>e. Some (Inr (g e)))"

text \<open>One measurement of \<open>f\<close>, with and without compensation.\<close>

definition measure_once :: "'e machine \<Rightarrow> 'e test_funct \<Rightarrow> bool \<Rightarrow> 'e clock
    \<Rightarrow> (exit + real \<times> 'e clock) option" where
  "measure_once hw f corrected c =
     (if corrected then do {
        c \<leftarrow> start_comp_counter hw c;
        r \<leftarrow> f (env c);
        Some (case r of Inl x \<Rightarrow> Inl x | Inr e \<Rightarrow> Inr (get_comp_counter hw (c\<lparr>env := e\<rparr>))) }
      else do {
        let c = start_counter hw c;
        r \<leftarrow> f (env c);
        Some (case r of Inl x \<Rightarrow> Inl x | Inr e \<Rightarrow> Inr (get_counter hw (c\<lparr>env := e\<rparr>))) })"

text \<open>The body of the \<open>do\<close> loops.\<close>

definition fcyc_body :: "'e machine \<Rightarrow> (u32 \<Rightarrow> u32 list option) \<Rightarrow> 'e test_funct \<Rightarrow> sampler \<times> 'e clock
    \<Rightarrow> (exit + sampler \<times> 'e clock) option" where
  "fcyc_body hw memory f = (\<lambda>(st, c). do {
     r \<leftarrow> (if clear_cache st \<noteq> 0 then clear memory st else Some (Inr st));
     case r of
       Inl x \<Rightarrow> Some (Inl x)
     | Inr st \<Rightarrow> do {
         m \<leftarrow> measure_once hw f (compensate st \<noteq> 0) c;
         case m of
           Inl x \<Rightarrow> Some (Inl x)
         | Inr (cyc, c) \<Rightarrow> do {
             st \<leftarrow> add_sample cyc st;
             Some (Inr (st, c)) } } })"

lemma add_sample_count:
  assumes "add_sample v st = Some st'"
  shows "\<exists>vs. st' = st\<lparr>vals := Some vs, samplecount := samplecount st + 1\<rparr>"
  using assms by (auto simp: add_sample_def bind_eq_Some_conv)

lemma clear_count:
  assumes "clear memory st = Some (Inr st')"
  shows "\<exists>b x. st' = st\<lparr>cache_buf := Some b, sink := x\<rparr>"
  using assms by (auto simp: clear_def Let_def bind_eq_Some_conv split: option.split_asm)

lemma fcyc_bodyE:
  assumes "fcyc_body hw memory f (st, c) = Some (Inr (st', c'))"
  obtains st1 cyc where
    "(if clear_cache st \<noteq> 0 then clear memory st else Some (Inr st)) = Some (Inr st1)"
    "measure_once hw f (compensate st1 \<noteq> 0) c = Some (Inr (cyc, c'))"
    "add_sample cyc st1 = Some st'"
proof -
  obtain r where r: "(if clear_cache st \<noteq> 0 then clear memory st else Some (Inr st)) = Some r"
    using assms by (auto simp: fcyc_body_def bind_eq_Some_conv)
  with assms obtain st1 where st1: "r = Inr st1"
    by (cases r) (auto simp: fcyc_body_def bind_eq_Some_conv)
  with assms r obtain m where m: "measure_once hw f (compensate st1 \<noteq> 0) c = Some m"
    by (auto simp: fcyc_body_def bind_eq_Some_conv)
  with assms r st1 show thesis
    by (cases m) (auto simp: fcyc_body_def bind_eq_Some_conv intro: that)
qed

lemma fcyc_body_count:
  assumes "fcyc_body hw memory f (st, c) = Some (Inr (st', c'))"
  shows "samplecount st' = samplecount st + 1 \<and> maxsamples st' = maxsamples st"
  using assms
proof (rule fcyc_bodyE)
  fix st1 cyc
  assume "(if clear_cache st \<noteq> 0 then clear memory st else Some (Inr st)) = Some (Inr st1)"
    and "add_sample cyc st1 = Some st'"
  with clear_count [of memory st st1] add_sample_count [of cyc st1 st'] show ?thesis
    by (auto split: if_split_asm)
qed

function fcyc_loop :: "'e machine \<Rightarrow> (u32 \<Rightarrow> u32 list option) \<Rightarrow> 'e test_funct \<Rightarrow> sampler \<times> 'e clock
    \<Rightarrow> (exit + sampler \<times> 'e clock) option" where
  "fcyc_loop hw memory f s =
     (case fcyc_body hw memory f s of
        Some (Inr (st, c)) \<Rightarrow>
         (case has_converged (rnd hw) st of
            None \<Rightarrow> None
          | Some b \<Rightarrow>
              if \<not> b \<and> samplecount st < maxsamples st then fcyc_loop hw memory f (st, c)
              else Some (Inr (st, c)))
      | r \<Rightarrow> r)"
  by pat_completeness auto
termination
  by (relation "measure (\<lambda>(hw, memory, f, st, c). nat (maxsamples st - samplecount st))")
    (auto dest: fcyc_body_count split: prod.splits)

declare fcyc_loop.simps [simp del]

definition fcyc :: "'e machine \<Rightarrow> bool \<Rightarrow> (u32 \<Rightarrow> u32 list option) \<Rightarrow> 'e test_funct \<Rightarrow> sampler \<times> 'e clock
    \<Rightarrow> (exit + real \<times> sampler \<times> 'e clock) option" where
  "fcyc hw found memory f = (\<lambda>(st, c). do {
     r \<leftarrow> fcyc_loop hw memory f (init_sampler found st, c);
     case r of
       Inl e \<Rightarrow> Some (Inl e)
     | Inr (st, c) \<Rightarrow> do {
         vs \<leftarrow> vals st;
         result \<leftarrow> get_val vs 0;
         Some (Inr (result, st\<lparr>vals := None\<rparr>, c)) } })"

end
