(* ===== verification/Fcyc_Best.thy ===== *)
theory Fcyc_Best
  imports Fcyc
begin

text \<open>
  The K-best scheme against its specification: after any number of samples the array holds
  the smallest of them in order, \<open>has_converged\<close> compares the first and the last of these,
  and \<open>fcyc\<close> returns the smallest sample it took.
\<close>

section \<open>Sorted lists\<close>

lemma sort_snoc_less: "sorted (xs @ [y]) \<Longrightarrow> v \<le> y \<Longrightarrow> insort v xs @ [y] = insort v (xs @ [y])"
  for v :: real
  by (induction xs) (auto simp: sorted_append)

lemma insort_ge: "sorted xs \<Longrightarrow> \<forall>x \<in> set xs. x \<le> v \<Longrightarrow> insort v xs = xs @ [v]"
  for v :: real
proof (induction xs)
  case (Cons a xs)
  then show ?case
    by (cases "a = v") (auto simp: insort_is_Cons)
qed simp

lemma insort_snoc_ge: "sorted (xs @ [y]) \<Longrightarrow> y \<le> v \<Longrightarrow> insort v (xs @ [y]) = xs @ [y, v]"
  for v :: real
  by (subst insort_ge) (auto simp: sorted_append)

text \<open>The \<open>j + 1\<close> smallest elements after an insertion.\<close>

lemma take_insort_less:
  fixes v :: real
  assumes "sorted s" "j < length s" "v \<le> s ! j"
  shows "take (Suc j) (insort v s) = insort v (take j s)"
  using assms
proof (induction s arbitrary: j)
  case (Cons a s)
  show ?case
  proof (cases j)
    case (Suc i)
    then show ?thesis
      using Cons by auto
  qed (use Cons.prems in simp)
qed simp

lemma take_insort_ge:
  fixes v :: real
  assumes "sorted s" "j < length s" "s ! j \<le> v"
  shows "take (Suc j) (insort v s) = take (Suc j) s"
  using assms
proof (induction s arbitrary: j)
  case (Cons a s)
  have av: "a \<le> v"
  proof (cases j)
    case (Suc i)
    then have "a \<le> s ! i"
      using Cons.prems by simp
    with Suc Cons.prems(3) show ?thesis
      by simp
  qed (use Cons.prems in simp)
  show ?case
  proof (cases "v \<le> a")
    case True
    with av have v: "v = a"
      by simp
    have "(a # s) ! i = a" if "i \<le> j" for i
      using v that Cons.prems sorted_nth_mono [of "a # s" i j] sorted_nth_mono [of "a # s" 0 i] by simp
    then have "y = a" if "y \<in> set (take (Suc j) (a # s))" for y
      using that Cons.prems(2)
      by (auto simp only: in_set_conv_nth length_take nth_take min_less_iff_conj less_Suc_eq_le)
    then have r: "take (Suc j) (a # s) = replicate (Suc j) a"
      using Cons.prems(2) by (intro replicate_eqI) auto
    have "take j (a # s) = take j (take (Suc j) (a # s))"
      by (simp only: take_take) (simp add: min_def)
    also have "\<dots> = replicate j a"
      unfolding r by (simp only: take_replicate) (simp add: min_def)
    finally have "take (Suc j) (insort v (a # s)) = replicate (Suc j) a"
      using v by simp
    with r show ?thesis
      by (simp only:)
  next
    case False
    with Cons.prems Cons.IH [of "j - 1"] show ?thesis
      by (cases j) auto
  qed
qed simp

lemma sort_rev: "sort (rev xs) = sort xs" for xs :: "real list"
  by (subst sort_conv_fold [of xs], unfold sort_key_def foldr_conv_fold) simp

section \<open>The insertion loop\<close>

lemma sift_sorts:
  assumes "p < length vs" "sorted (take p vs)"
  shows "\<exists>ws. sift p vs = Some ws \<and> length ws = length vs
    \<and> take (Suc p) ws = insort (vs ! p) (take p vs) \<and> drop (Suc p) ws = drop (Suc p) vs"
  using assms
proof (induction p arbitrary: vs)
  case 0
  then show ?case
    by (cases vs) simp_all
next
  case (Suc p)
  let ?v = "vs ! Suc p" and ?y = "vs ! p"
  have tk: "take (Suc p) vs = take p vs @ [?y]"
    using Suc.prems(1) by (simp add: take_Suc_conv_app_nth)
  have tk2: "take (Suc (Suc p)) vs = take p vs @ [?y, ?v]"
    using Suc.prems(1) tk by (simp add: take_Suc_conv_app_nth)
  have so: "sorted (take p vs @ [?y])"
    using Suc.prems(2) tk by simp
  show ?case
  proof (cases "?v < ?y")
    case True
    let ?vs = "vs[p := ?v, Suc p := ?y]"
    have "p < length ?vs" "sorted (take p ?vs)"
      using Suc.prems so by (simp_all add: sorted_append)
    from Suc.IH [OF this] obtain ws where ws: "sift p ?vs = Some ws" "length ws = length vs"
      "take (Suc p) ws = insort ?v (take p vs)" "drop (Suc p) ws = drop (Suc p) ?vs"
      using Suc.prems(1) by auto
    have "ws ! Suc p = ?y" "drop (Suc (Suc p)) ws = drop (Suc (Suc p)) vs"
    proof -
      have dr: "drop (Suc p) ?vs = ?y # drop (Suc (Suc p)) vs"
        using Suc.prems(1) by (simp add: Cons_nth_drop_Suc [symmetric])
      show "ws ! Suc p = ?y"
        using ws(2,4) dr Suc.prems(1) nth_drop [of "Suc p" ws 0] by simp
      show "drop (Suc (Suc p)) ws = drop (Suc (Suc p)) vs"
        using ws(4) dr drop_drop [of 1 "Suc p" ws] by simp
    qed
    moreover have "take (Suc (Suc p)) ws = insort ?v (take p vs) @ [ws ! Suc p]"
      using ws(2,3) Suc.prems(1) by (simp add: take_Suc_conv_app_nth [of "Suc p"])
    ultimately show ?thesis
      using True ws(1,2) Suc.prems(1) so sort_snoc_less [OF so, of ?v] by (auto simp: tk)
  next
    case False
    with Suc.prems(1) so insort_snoc_ge [OF so, of ?v] show ?thesis
      by (auto simp: tk tk2)
  qed
qed

section \<open>The samples kept\<close>

text \<open>\<open>xs\<close> are the samples so far, newest first; \<open>vs\<close> is the array.\<close>

definition kept_best :: "nat \<Rightarrow> real list \<Rightarrow> real list \<Rightarrow> bool" where
  "kept_best k vs xs \<longleftrightarrow> length vs = k \<and> take (length xs) vs = take k (sort xs)"

lemma kept_best_fill:
  assumes kb: "kept_best k vs xs" and n: "length xs < k"
  shows "\<exists>ws. sift (length xs) (vs[length xs := v]) = Some ws \<and> kept_best k ws (v # xs)"
proof -
  let ?n = "length xs"
  have vs: "length vs = k" "take ?n vs = sort xs"
    using kb n by (simp_all add: kept_best_def)
  have "?n < length (vs[?n := v])" "sorted (take ?n (vs[?n := v]))"
    using vs n by simp_all
  from sift_sorts [OF this] show ?thesis
    using vs n by (auto simp: kept_best_def)
qed

lemma kept_best_replace:
  assumes kb: "kept_best k vs xs" and k: "0 < k" "k \<le> length xs" and v: "v < vs ! (k - 1)"
  shows "\<exists>ws. sift (k - 1) (vs[k - 1 := v]) = Some ws \<and> kept_best k ws (v # xs)"
proof -
  have vs: "length vs = k" "vs = take k (sort xs)"
    using kb k by (auto simp: kept_best_def)
  have "k - 1 < length (vs[k - 1 := v])" "sorted (take (k - 1) (vs[k - 1 := v]))"
    using vs k by (simp_all add: min_def)
  from sift_sorts [OF this] obtain ws where ws: "sift (k - 1) (vs[k - 1 := v]) = Some ws" "length ws = k"
    "take k ws = insort v (take (k - 1) vs)"
    using vs(1) k by auto
  have "v \<le> sort xs ! (k - 1)"
    using v k vs(2) by simp
  then have "take k (insort v (sort xs)) = insort v (take (k - 1) (sort xs))"
    using take_insort_less [of "sort xs" "k - 1" v] k by simp
  moreover have "take (k - 1) vs = take (k - 1) (sort xs)"
    by (subst vs(2)) (simp add: min_def)
  ultimately show ?thesis
    using ws k by (auto simp: kept_best_def)
qed

lemma kept_best_skip:
  assumes kb: "kept_best k vs xs" and k: "0 < k" "k \<le> length xs" and v: "vs ! (k - 1) \<le> v"
  shows "kept_best k vs (v # xs)"
proof -
  have vs: "length vs = k" "vs = take k (sort xs)"
    using kb k by (auto simp: kept_best_def)
  have "sort xs ! (k - 1) \<le> v"
    using v k vs(2) by simp
  then have "take k (insort v (sort xs)) = take k (sort xs)"
    using take_insort_ge [of "sort xs" "k - 1" v] k by simp
  with vs k show ?thesis
    by (simp add: kept_best_def)
qed

text \<open>The state of the sampler after the samples \<open>xs\<close>.\<close>

definition sampled :: "sampler \<Rightarrow> real list \<Rightarrow> bool" where
  "sampled st xs \<longleftrightarrow>
     0 < kbest st \<and> samplecount st = int (length xs)
     \<and> (\<exists>vs. vals st = Some vs \<and> kept_best (nat (kbest st)) vs xs)"

lemma init_sampled: "0 < kbest st \<Longrightarrow> sampled (init_sampler True st) []"
  by (simp add: sampled_def init_sampler_def kept_best_def)

lemma add_sample_sampled:
  assumes "sampled st xs"
  shows "\<exists>st'. add_sample v st = Some st' \<and> sampled st' (v # xs)"
proof -
  let ?k = "nat (kbest st)" and ?n = "length xs"
  obtain vs where vs: "vals st = Some vs" "kept_best ?k vs xs"
    and k: "0 < kbest st" "samplecount st = int ?n"
    using assms by (auto simp: sampled_def)
  have len: "length vs = ?k"
    using vs(2) by (simp add: kept_best_def)
  have i: "nat (kbest st - 1) = ?k - 1" "get_val vs (kbest st - 1) = Some (vs ! (?k - 1))"
    "set_val (kbest st - 1) v vs = Some (vs[?k - 1 := v])"
    using k len by (simp_all add: get_val_def set_val_def nat_diff_distrib)
  consider "?n < ?k" | "?k \<le> ?n" "v < vs ! (?k - 1)" | "?k \<le> ?n" "vs ! (?k - 1) \<le> v"
    by linarith
  then show ?thesis
  proof cases
    case 1
    then have "set_val (int ?n) v vs = Some (vs[?n := v])" "int ?n < kbest st"
      using len by (auto simp: set_val_def)
    with kept_best_fill [OF vs(2) 1, of v] vs(1) k show ?thesis
      by (auto simp: add_sample_def sampled_def)
  next
    case 2
    with kept_best_replace [OF vs(2) _ 2] vs(1) k i show ?thesis
      by (auto simp: add_sample_def sampled_def)
  next
    case 3
    with kept_best_skip [OF vs(2) _ 3] vs(1) k i show ?thesis
      by (auto simp: add_sample_def sampled_def)
  qed
qed

section \<open>The store of samples\<close>

definition add_all :: "(real \<Rightarrow> 's \<Rightarrow> 's option) \<Rightarrow> real list \<Rightarrow> 's \<Rightarrow> 's option" where
  "add_all add vs s = fold (\<lambda>v r. Option.bind r (add v)) vs (Some s)"

lemma add_all_Nil: "add_all add [] s = Some s"
  by (simp add: add_all_def)

lemma add_all_Cons: "add v s = Some s' \<Longrightarrow> add_all add (v # vs) s = add_all add vs s'"
  by (simp add: add_all_def)

locale sample_store =
  fixes add :: "real \<Rightarrow> 's \<Rightarrow> 's option"
    and agreed :: "'s \<Rightarrow> bool option"
    and lowest :: "'s \<Rightarrow> real option"
    and rep :: "'s \<Rightarrow> real list \<Rightarrow> bool"
    and agree :: "'s \<Rightarrow> real list \<Rightarrow> bool"
  assumes add_law: "rep s xs \<Longrightarrow>
      \<exists>s'. add v s = Some s' \<and> rep s' (v # xs) \<and> (\<forall>ys. agree s' ys = agree s ys)"
    and agreed_law: "rep s xs \<Longrightarrow> xs \<noteq> [] \<Longrightarrow> agreed s = Some (agree s xs)"
    and lowest_law: "rep s xs \<Longrightarrow> xs \<noteq> [] \<Longrightarrow> lowest s = Some (Min (set xs))"
begin

lemma add_all_rep:
  "rep s xs \<Longrightarrow> \<exists>s'. add_all add vs s = Some s' \<and> rep s' (rev vs @ xs) \<and> (\<forall>ys. agree s' ys = agree s ys)"
proof (induction vs arbitrary: s xs)
  case (Cons v vs)
  obtain s1 where s1: "add v s = Some s1" "rep s1 (v # xs)" "\<forall>ys. agree s1 ys = agree s ys"
    using add_law [OF Cons.prems] by blast
  with Cons.IH [OF s1(2)] show ?case
    by (simp add: add_all_Cons)
qed (simp add: add_all_Nil)

lemma add_all_lowest:
  assumes "rep s []" "vs \<noteq> []" "add_all add vs s = Some s'"
  shows "lowest s' = Some (Min (set vs)) \<and> agreed s' = Some (agree s (rev vs))"
proof -
  have s': "rep s' (rev vs)" "agree s' ys = agree s ys" for ys
    using add_all_rep [OF assms(1), of vs] assms(3) by auto
  have ne: "rev vs \<noteq> []"
    using assms(2) by simp
  show ?thesis
    using lowest_law [OF s'(1) ne] agreed_law [OF s'(1) ne] s'(2) by simp
qed

end

text \<open>What \<open>has_converged\<close> decides, of all the samples taken.\<close>

definition samples_agree :: "(real \<Rightarrow> real) \<Rightarrow> int \<Rightarrow> real \<Rightarrow> real list \<Rightarrow> bool" where
  "samples_agree rn k eps xs \<longleftrightarrow>
     k \<le> int (length xs) \<and> sort xs ! (nat k - 1) \<le> rn (rn (1 + eps) * sort xs ! 0)"

definition lowest_val :: "sampler \<Rightarrow> real option" where
  "lowest_val st = Option.bind (vals st) (\<lambda>vs. get_val vs 0)"

lemma kept_best_nth:
  "kept_best k vs xs \<Longrightarrow> i < k \<Longrightarrow> i < length xs \<Longrightarrow> i < length vs \<and> vs ! i = sort xs ! i"
  unfolding kept_best_def
  by (metis nth_take)

lemma sort_0_Min: "xs \<noteq> [] \<Longrightarrow> sort xs ! 0 = Min (set xs)" for xs :: "real list"
proof -
  assume ne: "xs \<noteq> []"
  have "sort xs ! 0 \<in> set (sort xs)"
    using ne by (intro nth_mem) simp
  moreover have "sort xs ! 0 \<le> y" if "y \<in> set xs" for y
  proof -
    have "y \<in> set (sort xs)"
      using that by simp
    then obtain i where "i < length (sort xs)" "sort xs ! i = y"
      unfolding in_set_conv_nth by blast
    then show ?thesis
      using sorted_nth_mono [of "sort xs" 0 i] by simp
  qed
  ultimately show ?thesis
    using Min_eqI [of "set xs" "sort xs ! 0"] by simp
qed

lemma sampled_lowest:
  assumes "sampled st xs" "xs \<noteq> []"
  shows "lowest_val st = Some (Min (set xs))"
proof -
  obtain vs where vs: "vals st = Some vs" "kept_best (nat (kbest st)) vs xs" "0 < kbest st"
    using assms by (auto simp: sampled_def)
  have "0 < length vs \<and> vs ! 0 = sort xs ! 0"
    using kept_best_nth [OF vs(2), of 0] vs(3) assms(2) by simp
  then show ?thesis
    using vs assms(2) by (simp add: lowest_val_def get_val_def sort_0_Min)
qed

lemma sampled_converged:
  assumes "sampled st xs" "xs \<noteq> []"
  shows "has_converged rn st = Some (samples_agree rn (kbest st) (epsilon st) xs)"
proof -
  obtain vs where vs: "vals st = Some vs" "kept_best (nat (kbest st)) vs xs" "0 < kbest st"
    and n: "samplecount st = int (length xs)"
    using assms by (auto simp: sampled_def)
  have i: "nat (kbest st - 1) = nat (kbest st) - 1"
    using vs(3) by (simp add: nat_diff_distrib)
  show ?thesis
  proof (cases "kbest st \<le> int (length xs)")
    case True
    have "vs ! 0 = sort xs ! 0" "vs ! (nat (kbest st) - 1) = sort xs ! (nat (kbest st) - 1)"
      "length vs = nat (kbest st)"
      using kept_best_nth [OF vs(2), of 0] kept_best_nth [OF vs(2), of "nat (kbest st) - 1"] vs(2,3) True
        assms(2) by (simp_all add: kept_best_def)
    moreover have "vs \<noteq> []"
      using calculation(3) vs(3) by auto
    ultimately show ?thesis
      using True vs n i by (simp add: has_converged_def get_val_def samples_agree_def)
  qed (simp add: has_converged_def n samples_agree_def)
qed

lemma add_sample_keeps:
  "add_sample v st = Some st' \<Longrightarrow> kbest st' = kbest st \<and> epsilon st' = epsilon st"
  by (drule add_sample_count) auto

interpretation best: sample_store add_sample "has_converged rn" lowest_val sampled
  "\<lambda>st. samples_agree rn (kbest st) (epsilon st)" for rn
proof unfold_locales
  show "\<exists>st'. add_sample v st = Some st' \<and> sampled st' (v # xs)
      \<and> (\<forall>ys. samples_agree rn (kbest st') (epsilon st') ys = samples_agree rn (kbest st) (epsilon st) ys)"
    if "sampled st xs" for st xs v
    using add_sample_sampled [OF that, of v] add_sample_keeps [of v st] by metis
qed (simp_all add: sampled_converged sampled_lowest)

lemma add_all_kbest:
  "add_all add_sample xs st = Some st' \<Longrightarrow> kbest st' = kbest st"
proof (induction xs arbitrary: st)
  case (Cons x xs)
  have "fold (\<lambda>v r. Option.bind r (add_sample v)) xs None = None" for xs
    by (induction xs) simp_all
  with Cons.prems obtain st1 where "add_sample x st = Some st1" "add_all add_sample xs st1 = Some st'"
    by (cases "add_sample x st") (auto simp: add_all_def)
  with Cons.IH add_sample_keeps [of x st st1] show ?case
    by simp
qed (simp add: add_all_Nil)

end
