(* ===== verification/Fcyc_Run.thy ===== *)
theory Fcyc_Run
  imports Fcyc_Best
begin

text \<open>
  \<open>fcyc\<close> as a whole: the measurements it takes, how many, and its result; and \<open>clear\<close>.
\<close>

section \<open>Measurements\<close>

text \<open>\<open>measurements hw f b n c\<close>: the results of \<open>n\<close> measurements in a row.\<close>

fun measurements :: "'e machine \<Rightarrow> 'e test_funct \<Rightarrow> bool \<Rightarrow> nat \<Rightarrow> 'e clock \<Rightarrow> (real list \<times> 'e clock) option" where
  "measurements hw f corrected 0 c = Some ([], c)"
| "measurements hw f corrected (Suc n) c =
     (case measurements hw f corrected n c of
        Some (xs, c) \<Rightarrow>
         (case measure_once hw f corrected c of
            Some (Inr (x, c)) \<Rightarrow> Some (xs @ [x], c)
          | _ \<Rightarrow> None)
      | None \<Rightarrow> None)"

lemma get_counter_keeps: "get_counter hw c = (x, c') \<Longrightarrow> cyc_per_tick c' = cyc_per_tick c"
  by (auto simp: get_counter_def access_counter_def Let_def split: prod.splits)

lemma ex_pair: "(\<exists>x c. p = (x, c) \<and> P c) \<longleftrightarrow> P (snd p)"
  by (cases p) auto

text \<open>
  Compensation needs \<open>cyc_per_tick\<close>, or a calibration that comes to its end; it is ready for the
  next measurement after each one.
\<close>

definition callibrates :: "'e machine \<Rightarrow> bool" where
  "callibrates hw \<longleftrightarrow> (\<forall>c. \<exists>c'. callibrate hw c = Some c')"

definition compensation_ready :: "'e machine \<Rightarrow> bool \<Rightarrow> 'e clock \<Rightarrow> bool" where
  "compensation_ready hw corrected c \<longleftrightarrow> (corrected \<longrightarrow> cyc_per_tick c \<noteq> 0 \<or> callibrates hw)"

lemma measure_once_total:
  assumes "compensation_ready hw corrected c"
  shows "\<exists>x c'. measure_once hw (returning g) corrected c = Some (Inr (x, c')) \<and> compensation_ready hw corrected c'"
proof -
  have s: "cyc_per_tick (start_counter hw d) = cyc_per_tick d" for d
    by (simp add: start_counter_def access_counter_def case_prod_beta)
  have r: "cyc_per_tick (snd (read_times hw d)) = cyc_per_tick d" for d
    by (simp add: read_times_def case_prod_beta)
  have g: "cyc_per_tick (snd (get_counter hw d)) = cyc_per_tick d" for d
    using get_counter_keeps [of hw d] by (cases "get_counter hw d") auto
  consider "\<not> corrected" | "cyc_per_tick c \<noteq> 0" | "callibrates hw"
    using assms by (auto simp: compensation_ready_def)
  then show ?thesis
  proof cases
    case 3
    then obtain d where "callibrate hw c = Some d"
      by (auto simp: callibrates_def)
    with 3 show ?thesis
      by (auto simp: compensation_ready_def measure_once_def returning_def start_comp_counter_def Let_def
          case_prod_beta ex_pair)
  qed (auto simp: compensation_ready_def measure_once_def returning_def start_comp_counter_def get_comp_counter_def Let_def
        case_prod_beta s r g ex_pair)
qed

lemma measurements_length:
  "measurements hw f b n c = Some (xs, c') \<Longrightarrow> length xs = n"
  by (induction n arbitrary: xs c') (auto split: option.split_asm sum.split_asm)

section \<open>\<open>clear\<close>\<close>

text \<open>The elements the loop reads from index \<open>i\<close> on.\<close>

definition strided :: "nat \<Rightarrow> nat \<Rightarrow> nat \<Rightarrow> 'a list \<Rightarrow> 'a list" where
  "strided incr n i buf = map (\<lambda>j. buf ! (i + j * incr)) [0..<(n - i + incr - 1) div incr]"

lemma strided_step:
  assumes "0 < incr" "i < n"
  shows "strided incr n i buf = buf ! i # strided incr n (i + incr) buf"
proof -
  have "(n - i + incr - 1) div incr = Suc ((n - (i + incr) + incr - 1) div incr)"
  proof (cases "n - i \<le> incr")
    case True
    then have "n - (i + incr) + incr - 1 < incr" "n - i + incr - 1 = incr + (n - i - 1)" "n - i - 1 < incr"
      using assms by auto
    then show ?thesis
      using assms(1) by (simp only: div_add_self1 div_less)
  next
    case False
    then have "n - i + incr - 1 = (n - (i + incr) + incr - 1) + incr"
      using assms by simp
    then show ?thesis
      using assms(1) by (simp only: div_add_self2)
  qed
  then show ?thesis
    unfolding strided_def by (simp add: upt_conv_Cons map_Suc_upt [symmetric] algebra_simps del: upt_Suc)
qed

lemma strided_end: "n \<le> i \<Longrightarrow> 0 < incr \<Longrightarrow> strided incr n i buf = []"
  by (simp add: strided_def)

lemma strided_subset:
  assumes "0 < incr" "n \<le> length buf"
  shows "set (strided incr n i buf) \<subseteq> set buf"
proof (induction "n - i" arbitrary: i rule: less_induct)
  case less
  show ?case
  proof (cases "i < n")
    case True
    with less [of "i + incr"] assms show ?thesis
      by (auto simp: strided_step)
  qed (use assms in \<open>simp add: strided_end\<close>)
qed

text \<open>The sum that the loop adds to \<open>sink\<close>, and the most that it can differ from it on the way.\<close>

definition sint_sum :: "u32 list \<Rightarrow> int" where
  "sint_sum ws = sum_list (map sint ws)"

definition abs_sum :: "u32 list \<Rightarrow> int" where
  "abs_sum ws = sum_list (map (\<lambda>w. \<bar>sint w\<bar>) ws)"

lemma sint_sum_simps [simp]:
  "sint_sum [] = 0" "sint_sum (w # ws) = sint w + sint_sum ws" "abs_sum [] = 0" "abs_sum (w # ws) = \<bar>sint w\<bar> + abs_sum ws"
  by (simp_all add: sint_sum_def abs_sum_def)

lemma abs_sum_props: "0 \<le> abs_sum ws" "\<bar>sint_sum ws\<bar> \<le> abs_sum ws"
  by (induction ws) simp_all

lemma zero_sums: "list_all (\<lambda>w. w = 0) ws \<Longrightarrow> sint_sum ws = 0 \<and> abs_sum ws = 0"
  by (induction ws) simp_all

lemma clear_loop_sum:
  assumes "0 < incr" "n \<le> length buf"
  shows "\<bar>x\<bar> + abs_sum (strided incr n i buf) < 2 ^ 31 \<Longrightarrow>
    clear_loop incr n buf i x = Some (x + sint_sum (strided incr n i buf))"
proof (induction "n - i" arbitrary: i x rule: less_induct)
  case less
  show ?case
  proof (cases "i < n")
    case True
    let ?y = "x + sint (buf ! i)" and ?ws = "strided incr n (i + incr) buf"
    have s: "strided incr n i buf = buf ! i # ?ws"
      by (rule strided_step [OF assms(1) True])
    have y: "\<bar>?y\<bar> + abs_sum ?ws < 2 ^ 31"
      using less.prems unfolding s by simp
    then have "\<bar>?y\<bar> < 2 ^ 31"
      using abs_sum_props(1) [of ?ws] by linarith
    then have "int32 ?y = Some ?y"
      by (simp add: int32_def abs_less_iff)
    with less.hyps [of "i + incr" ?y] y True assms show ?thesis
      by (subst clear_loop.simps) (simp add: s)
  next
    case False
    then show ?thesis
      using assms by (subst clear_loop.simps) (simp add: strided_end)
  qed
qed

lemma clear_loop_stuck:
  assumes "clear_loop incr n buf i x = Some y"
  shows "\<not> (incr = 0 \<and> i < n)"
  using clear_loop.raw_induct [of "\<lambda>incr n buf i x y. \<not> (incr = 0 \<and> i < n)" "((((incr, n), buf), i), x)" y] assms
  by (fastforce split: if_splits option.splits)

text \<open>The buffer \<open>clear\<close> uses.\<close>

definition the_buf :: "(u32 \<Rightarrow> u32 list option) \<Rightarrow> sampler \<Rightarrow> u32 list option" where
  "the_buf memory st = (case cache_buf st of None \<Rightarrow> memory (cache_bytes st) | Some b \<Rightarrow> Some b)"

lemma clear_alt:
  "clear memory st =
     (case the_buf memory st of
        None \<Rightarrow> Some (Inl (Exit 1 (line ''Fatal error.  Malloc returned null when trying to clear cache'')))
      | Some b \<Rightarrow> map_option (\<lambda>x. Inr (st\<lparr>cache_buf := Some b, sink := x\<rparr>))
          (clear_loop (unat (cache_block st) div 4) (unat (cache_bytes st) div 4) b 0 (sink st)))"
  by (cases "cache_buf st") (auto simp: clear_def the_buf_def Let_def map_option_case split: option.splits)

text \<open>The words that \<open>clear\<close> reads, and the state after \<open>n\<close> calls of it.\<close>

definition cache_words :: "sampler \<Rightarrow> u32 list \<Rightarrow> u32 list" where
  "cache_words st b = strided (unat (cache_block st) div 4) (unat (cache_bytes st) div 4) 0 b"

definition cleared :: "(u32 \<Rightarrow> u32 list option) \<Rightarrow> nat \<Rightarrow> sampler \<Rightarrow> sampler" where
  "cleared memory n st =
     (if clear_cache st = 0 then st
      else st\<lparr>cache_buf := the_buf memory st,
             sink := sink st + int n * sint_sum (cache_words st (the (the_buf memory st)))\<rparr>)"

text \<open>Room for \<open>n\<close> calls: the buffer is there, its blocks hold a word, and the sums do not overflow.\<close>

definition clear_room :: "(u32 \<Rightarrow> u32 list option) \<Rightarrow> nat \<Rightarrow> sampler \<Rightarrow> bool" where
  "clear_room memory n st \<longleftrightarrow>
     clear_cache st = 0
     \<or> 4 \<le> unat (cache_block st)
       \<and> (\<exists>b. the_buf memory st = Some b \<and> unat (cache_bytes st) div 4 \<le> length b
            \<and> \<bar>sink st\<bar> + int n * abs_sum (cache_words st b) < 2 ^ 31)"

lemma clear_returns:
  assumes "the_buf memory st = Some b" "unat (cache_bytes st) div 4 \<le> length b" "4 \<le> unat (cache_block st)"
    and "\<bar>sink st\<bar> + abs_sum (cache_words st b) < 2 ^ 31"
  shows "clear memory st = Some (Inr (st\<lparr>cache_buf := Some b, sink := sink st + sint_sum (cache_words st b)\<rparr>))"
  using assms clear_loop_sum [of "unat (cache_block st) div 4" "unat (cache_bytes st) div 4" b "sink st" 0]
  by (simp add: clear_alt div_greater_zero_iff cache_words_def)

lemma the_buf_cleared:
  assumes "clear_room memory k st"
  shows "the_buf memory (cleared memory n st) = the_buf memory st" "cache_words (cleared memory n st) = cache_words st"
  using assms by (auto simp: cleared_def the_buf_def cache_words_def clear_room_def)

lemma clear_room_step:
  assumes "clear_room memory (Suc n) st"
  shows "(if clear_cache st \<noteq> 0 then clear memory st else Some (Inr st)) = Some (Inr (cleared memory 1 st))"
    "clear_room memory n (cleared memory 1 st)"
proof -
  show "(if clear_cache st \<noteq> 0 then clear memory st else Some (Inr st)) = Some (Inr (cleared memory 1 st))"
  proof (cases "clear_cache st = 0")
    case False
    then obtain b where b: "the_buf memory st = Some b" "unat (cache_bytes st) div 4 \<le> length b" "4 \<le> unat (cache_block st)"
      and sum: "\<bar>sink st\<bar> + int (Suc n) * abs_sum (cache_words st b) < 2 ^ 31"
      using assms by (auto simp: clear_room_def)
    have "0 \<le> int n * abs_sum (cache_words st b)"
      using abs_sum_props(1) by simp
    with sum have "\<bar>sink st\<bar> + abs_sum (cache_words st b) < 2 ^ 31"
      by (simp add: algebra_simps)
    from clear_returns [OF b this] False b(1) show ?thesis
      by (simp add: cleared_def)
  qed (simp add: cleared_def)
  show "clear_room memory n (cleared memory 1 st)"
  proof (cases "clear_cache st = 0")
    case False
    then obtain b where b: "the_buf memory st = Some b" "unat (cache_bytes st) div 4 \<le> length b" "4 \<le> unat (cache_block st)"
      and sum: "\<bar>sink st\<bar> + int (Suc n) * abs_sum (cache_words st b) < 2 ^ 31"
      using assms by (auto simp: clear_room_def)
    have "\<bar>sink st + sint_sum (cache_words st b)\<bar> + int n * abs_sum (cache_words st b) < 2 ^ 31"
      using sum abs_sum_props(2) [of "cache_words st b"] by (simp add: algebra_simps)
    with False b the_buf_cleared [OF assms, of 1] show ?thesis
      by (simp add: clear_room_def) (simp add: cleared_def)
  qed (simp add: cleared_def clear_room_def)
qed

lemma cleared_cleared:
  assumes "clear_room memory k st"
  shows "cleared memory n ((cleared memory 1 st)\<lparr>vals := v, samplecount := m\<rparr>)\<lparr>vals := w, samplecount := l\<rparr>
    = (cleared memory (Suc n) st)\<lparr>vals := w, samplecount := l\<rparr>"
  using assms by (auto simp: cleared_def the_buf_def cache_words_def clear_room_def algebra_simps)

lemma cleared_samples:
  "(cleared memory n (st\<lparr>vals := v, samplecount := m\<rparr>))\<lparr>vals := w, samplecount := l\<rparr>
    = (cleared memory n st)\<lparr>vals := w, samplecount := l\<rparr>"
  by (cases "cache_buf st") (simp_all add: cleared_def the_buf_def cache_words_def)

lemma clear_room_cong [simp]:
  "clear_room memory n (st\<lparr>vals := v\<rparr>) = clear_room memory n st"
  "clear_room memory n (st\<lparr>samplecount := m\<rparr>) = clear_room memory n st"
  by (simp_all add: clear_room_def the_buf_def cache_words_def cong: option.case_cong)

lemma cleared_fields [simp]:
  "kbest (cleared memory n st) = kbest st" "maxsamples (cleared memory n st) = maxsamples st"
  "epsilon (cleared memory n st) = epsilon st" "compensate (cleared memory n st) = compensate st"
  "samplecount (cleared memory n st) = samplecount st" "vals (cleared memory n st) = vals st"
  by (simp_all add: cleared_def)

lemma sampled_cleared [simp]: "sampled (cleared memory n st) xs = sampled st xs"
  by (simp add: sampled_def)

lemma clear_diverges:
  assumes "the_buf memory st = Some b" "4 \<le> unat (cache_bytes st)" "unat (cache_block st) < 4"
  shows "clear memory st = None"
  using assms clear_loop_stuck [of "unat (cache_block st) div 4" "unat (cache_bytes st) div 4" b 0 "sink st"]
  by (cases "clear_loop (unat (cache_block st) div 4) (unat (cache_bytes st) div 4) b 0 (sink st)")
    (auto simp: clear_alt div_greater_zero_iff)

section \<open>The loop\<close>

lemma fcyc_body_step:
  assumes st: "sampled st xs" "clear_room memory (Suc k) st"
    and c: "compensation_ready hw (compensate st \<noteq> 0) c"
  shows "\<exists>x c' st'. measure_once hw (returning g) (compensate st \<noteq> 0) c = Some (Inr (x, c'))
    \<and> compensation_ready hw (compensate st \<noteq> 0) c' \<and> clear_room memory k st'
    \<and> fcyc_body hw memory (returning g) (st, c) = Some (Inr (st', c')) \<and> sampled st' (x # xs)
    \<and> (\<exists>vs. st' = (cleared memory 1 st)\<lparr>vals := Some vs, samplecount := samplecount st + 1\<rparr>)"
proof -
  let ?st = "cleared memory 1 st"
  obtain x c' where m: "measure_once hw (returning g) (compensate st \<noteq> 0) c = Some (Inr (x, c'))"
    and cc: "compensation_ready hw (compensate st \<noteq> 0) c'"
    using measure_once_total [OF c, of g] by blast
  obtain st' where a: "add_sample x ?st = Some st'" "sampled st' (x # xs)"
    using add_sample_sampled [of ?st xs x] st(1) by auto
  obtain vs where vs: "st' = ?st\<lparr>vals := Some vs, samplecount := samplecount st + 1\<rparr>"
    using add_sample_count [OF a(1)] by auto
  have "clear_room memory k st'"
    using clear_room_step(2) [OF st(2)] by (simp add: vs)
  moreover have "fcyc_body hw memory (returning g) (st, c) = Some (Inr (st', c'))"
    using clear_room_step(1) [OF st(2)] m a(1) by (simp add: fcyc_body_def)
  ultimately show ?thesis
    using m cc a(2) vs by blast
qed

text \<open>When the loop stops after the samples \<open>xs\<close>.\<close>

definition enough :: "(real \<Rightarrow> real) \<Rightarrow> sampler \<Rightarrow> real list \<Rightarrow> bool" where
  "enough rn st xs \<longleftrightarrow>
     samples_agree rn (kbest st) (epsilon st) xs \<or> maxsamples st \<le> int (length xs)"

lemma samples_agree_rev: "samples_agree rn k eps (rev xs) = samples_agree rn k eps xs"
  by (simp add: samples_agree_def sort_rev)

text \<open>One round of the loop, after the measurements \<open>xs\<close>.\<close>

lemma fcyc_loop_step:
  assumes st: "sampled st (rev xs)" "clear_room memory (Suc k) st" "compensation_ready hw (compensate st \<noteq> 0) c"
    and ms: "measurements hw (returning g) (compensate st \<noteq> 0) (length xs) c0 = Some (xs, c)"
  obtains x c1 st1 vs where "st1 = (cleared memory 1 st)\<lparr>vals := Some vs, samplecount := int (length (xs @ [x]))\<rparr>"
    "compensation_ready hw (compensate st \<noteq> 0) c1" "clear_room memory k st1" "sampled st1 (rev (xs @ [x]))"
    "measurements hw (returning g) (compensate st \<noteq> 0) (length (xs @ [x])) c0 = Some (xs @ [x], c1)"
    "fcyc_loop hw memory (returning g) (st, c) =
      (if enough (rnd hw) st (xs @ [x]) then Some (Inr (st1, c1))
       else fcyc_loop hw memory (returning g) (st1, c1))"
proof -
  obtain x c1 st1 vs where m: "measure_once hw (returning g) (compensate st \<noteq> 0) c = Some (Inr (x, c1))"
    and c1: "compensation_ready hw (compensate st \<noteq> 0) c1" "clear_room memory k st1"
    and b: "fcyc_body hw memory (returning g) (st, c) = Some (Inr (st1, c1))" and s1: "sampled st1 (x # rev xs)"
    and st1: "st1 = (cleared memory 1 st)\<lparr>vals := Some vs, samplecount := samplecount st + 1\<rparr>"
    using fcyc_body_step [OF st, of g] by blast
  have n: "samplecount st1 = int (length (xs @ [x]))"
    using s1 by (simp add: sampled_def)
  have hc: "has_converged (rnd hw) st1 = Some (samples_agree (rnd hw) (kbest st) (epsilon st) (xs @ [x]))"
    using sampled_converged [OF s1, of "rnd hw"] samples_agree_rev [of "rnd hw" "kbest st" "epsilon st" "xs @ [x]"]
    by (simp add: st1)
  have "fcyc_loop hw memory (returning g) (st, c) =
      (if enough (rnd hw) st (xs @ [x]) then Some (Inr (st1, c1)) else fcyc_loop hw memory (returning g) (st1, c1))"
    using b hc n by (subst fcyc_loop.simps) (auto simp: enough_def st1)
  moreover have "st1 = (cleared memory 1 st)\<lparr>vals := Some vs, samplecount := int (length (xs @ [x]))\<rparr>"
    using n by (simp add: st1)
  ultimately show thesis
    using that m c1 s1 ms by simp
qed

lemma later_enough:
  assumes "take (length (xs @ [x])) ys = xs @ [x]" "\<not> enough rn st (xs @ [x])"
    and "\<forall>m. length (xs @ [x]) < m \<and> m < n \<longrightarrow> \<not> enough rn st (take m ys)"
  shows "take (length xs) ys = xs \<and> (\<forall>m. length xs < m \<and> m < n \<longrightarrow> \<not> enough rn st (take m ys))"
proof -
  have "\<not> enough rn st (take m ys)" if "length xs < m" "m < n" for m
    by (cases "m = length (xs @ [x])") (use assms that in simp_all)
  moreover have "take (length xs) ys = xs"
    using arg_cong [OF assms(1), of "take (length xs)"] by (simp add: min_def)
  ultimately show ?thesis
    by blast
qed

text \<open>
  From a state with the measurements \<open>xs\<close> the loop goes on to the first number of
  measurements that is enough.
\<close>

lemma fcyc_loop_run:
  assumes "sampled st (rev xs)" "clear_room memory (Suc k) st" "maxsamples st \<le> int (length xs) + int (Suc k)"
    and "compensation_ready hw (compensate st \<noteq> 0) c"
    and "measurements hw (returning g) (compensate st \<noteq> 0) (length xs) c0 = Some (xs, c)"
  shows "\<exists>n ys c' st'. fcyc_loop hw memory (returning g) (st, c) = Some (Inr (st', c'))
    \<and> length xs < n \<and> measurements hw (returning g) (compensate st \<noteq> 0) n c0 = Some (ys, c')
    \<and> sampled st' (rev ys) \<and> take (length xs) ys = xs
    \<and> (\<exists>vs. st' = (cleared memory (n - length xs) st)\<lparr>vals := Some vs, samplecount := int n\<rparr>)
    \<and> enough (rnd hw) st ys \<and> (\<forall>m. length xs < m \<and> m < n \<longrightarrow> \<not> enough (rnd hw) st (take m ys))"
  using assms
proof (induction k arbitrary: st xs c)
  case (0 st xs c)
  obtain x c1 st1 vs where st1: "st1 = (cleared memory 1 st)\<lparr>vals := Some vs, samplecount := int (length (xs @ [x]))\<rparr>"
    and s1: "sampled st1 (rev (xs @ [x]))"
    and ms: "measurements hw (returning g) (compensate st \<noteq> 0) (length (xs @ [x])) c0 = Some (xs @ [x], c1)"
    and l: "fcyc_loop hw memory (returning g) (st, c) =
      (if enough (rnd hw) st (xs @ [x]) then Some (Inr (st1, c1)) else fcyc_loop hw memory (returning g) (st1, c1))"
    by (rule fcyc_loop_step [OF 0(1,2,4,5)])
  have "enough (rnd hw) st (xs @ [x])"
    using 0(3) by (simp add: enough_def)
  with l ms s1 st1 show ?case
    by (intro exI [of _ "length (xs @ [x])"] exI [of _ "xs @ [x]"] exI [of _ c1] exI [of _ st1]) auto
next
  case (Suc k st xs c)
  obtain x c1 st1 vs where st1: "st1 = (cleared memory 1 st)\<lparr>vals := Some vs, samplecount := int (length (xs @ [x]))\<rparr>"
    and c1: "compensation_ready hw (compensate st \<noteq> 0) c1" "clear_room memory (Suc k) st1"
    and s1: "sampled st1 (rev (xs @ [x]))"
    and ms: "measurements hw (returning g) (compensate st \<noteq> 0) (length (xs @ [x])) c0 = Some (xs @ [x], c1)"
    and l: "fcyc_loop hw memory (returning g) (st, c) =
      (if enough (rnd hw) st (xs @ [x]) then Some (Inr (st1, c1)) else fcyc_loop hw memory (returning g) (st1, c1))"
    by (rule fcyc_loop_step [OF Suc.prems(1,2,4,5)])
  let ?xs = "xs @ [x]"
  show ?case
  proof (cases "enough (rnd hw) st ?xs")
    case True
    with l ms s1 st1 show ?thesis
      by (intro exI [of _ "length ?xs"] exI [of _ ?xs] exI [of _ c1] exI [of _ st1]) auto
  next
    case False
    have "maxsamples st1 \<le> int (length ?xs) + int (Suc k)" "compensation_ready hw (compensate st1 \<noteq> 0) c1"
      "measurements hw (returning g) (compensate st1 \<noteq> 0) (length ?xs) c0 = Some (?xs, c1)"
      using Suc.prems(3) c1 ms by (simp_all add: st1)
    from Suc.IH [OF s1 c1(2) this] obtain n ys c' st' where r:
      "fcyc_loop hw memory (returning g) (st1, c1) = Some (Inr (st', c'))"
      "length ?xs < n" "measurements hw (returning g) (compensate st1 \<noteq> 0) n c0 = Some (ys, c')"
      "sampled st' (rev ys)" "take (length ?xs) ys = ?xs"
      "\<exists>vs. st' = (cleared memory (n - length ?xs) st1)\<lparr>vals := Some vs, samplecount := int n\<rparr>" "enough (rnd hw) st1 ys"
      "\<forall>m. length ?xs < m \<and> m < n \<longrightarrow> \<not> enough (rnd hw) st1 (take m ys)"
      by blast
    have e: "enough (rnd hw) st1 zs = enough (rnd hw) st zs" for zs
      by (simp add: enough_def st1)
    note later = later_enough [OF r(5) False r(8) [unfolded e]]
    have "Suc (n - length ?xs) = n - length xs"
      using r(2) by simp
    then have "\<exists>vs. st' = (cleared memory (n - length xs) st)\<lparr>vals := Some vs, samplecount := int n\<rparr>"
      using r(6) cleared_cleared [OF Suc.prems(2), where n = "n - length ?xs"] by (auto simp: st1)
    then show ?thesis
      using l False r(1-4,7) e later by (intro exI [of _ n] exI [of _ ys] exI [of _ c'] exI [of _ st']) (auto simp: st1)
  qed
qed

lemma fcyc_run:
  assumes "0 < kbest st" "clear_room memory (nat (max 1 (maxsamples st))) st"
    and "compensation_ready hw (compensate st \<noteq> 0) c"
  shows "\<exists>n xs c'. 1 \<le> n \<and> int n \<le> max 1 (maxsamples st)
    \<and> measurements hw (returning g) (compensate st \<noteq> 0) n c = Some (xs, c')
    \<and> fcyc hw True memory (returning g) (st, c)
        = Some (Inr (Min (set xs), (cleared memory n st)\<lparr>vals := None, samplecount := int n\<rparr>, c'))
    \<and> enough (rnd hw) st xs \<and> (\<forall>m. 1 \<le> m \<and> m < n \<longrightarrow> \<not> enough (rnd hw) st (take m xs))"
proof -
  let ?s = "init_sampler True st"
  define k where "k = nat (max 1 (maxsamples st)) - 1"
  have k: "nat (max 1 (maxsamples st)) = Suc k"
    by (simp add: k_def)
  have s: "sampled ?s (rev [])" "clear_room memory (Suc k) ?s" "maxsamples ?s \<le> int (length []) + int (Suc k)"
    "compensation_ready hw (compensate ?s \<noteq> 0) c"
    "measurements hw (returning g) (compensate ?s \<noteq> 0) (length []) c = Some ([], c)"
    using assms init_sampled [of st] k by (simp_all add: init_sampler_def)
  have e: "enough (rnd hw) ?s zs = enough (rnd hw) st zs" "compensate ?s = compensate st" for zs
    by (simp_all add: enough_def init_sampler_def)
  obtain n xs c' st' where r: "fcyc_loop hw memory (returning g) (?s, c) = Some (Inr (st', c'))" "0 < n"
    "measurements hw (returning g) (compensate st \<noteq> 0) n c = Some (xs, c')" "sampled st' (rev xs)"
    "\<exists>vs. st' = (cleared memory n ?s)\<lparr>vals := Some vs, samplecount := int n\<rparr>" "enough (rnd hw) st xs"
    "\<forall>m. 0 < m \<and> m < n \<longrightarrow> \<not> enough (rnd hw) st (take m xs)"
    using fcyc_loop_run [OF s] by (simp add: e) blast
  have n: "length xs = n"
    by (rule measurements_length [OF r(3)])
  have "lowest_val st' = Some (Min (set xs))"
    using sampled_lowest [OF r(4)] n r(2) by auto
  moreover have "st'\<lparr>vals := None\<rparr> = (cleared memory n st)\<lparr>vals := None, samplecount := int n\<rparr>"
    using r(5) cleared_samples [where memory = memory and n = n and st = st and m = 0] by (auto simp: init_sampler_def)
  ultimately have f: "fcyc hw True memory (returning g) (st, c)
      = Some (Inr (Min (set xs), (cleared memory n st)\<lparr>vals := None, samplecount := int n\<rparr>, c'))"
    using r(1) by (auto simp: fcyc_def lowest_val_def bind_eq_Some_conv)
  have "int n \<le> max 1 (maxsamples st)"
  proof (rule ccontr)
    assume "\<not> int n \<le> max 1 (maxsamples st)"
    then have "0 < n - 1 \<and> n - 1 < n" "maxsamples st \<le> int (length (take (n - 1) xs))"
      using n by auto
    then show False
      using r(7) by (auto simp: enough_def)
  qed
  with f r n show ?thesis
    by (intro exI [of _ n] exI [of _ xs] exI [of _ c']) auto
qed

end
