(* ===== verification/Ftimer.thy ===== *)
theory Ftimer
  imports Fcyc
begin

text \<open>
  \<open>ftimer.c\<close>: the running time of a function with \<open>gettimeofday\<close> and with the interval
  timers. The system calls are a parameter. The fields of a time are numbers; their
  differences are assumed to fit into a \<open>long\<close>.
\<close>

section \<open>Times and system calls\<close>

record timeval =
  tv_sec :: int
  tv_usec :: int

record itimerval =
  it_interval :: timeval
  it_value :: timeval

datatype which = ITIMER_REAL | ITIMER_VIRTUAL | ITIMER_PROF

record 'e unix =
  gettimeofday :: "'e \<Rightarrow> timeval \<times> 'e"
  setitimer :: "which \<Rightarrow> itimerval \<Rightarrow> 'e \<Rightarrow> 'e"
  getitimer :: "which \<Rightarrow> 'e \<Rightarrow> itimerval \<times> 'e"
  frnd :: "real \<Rightarrow> real"  \<comment> \<open>rounding of a floating point operation\<close>

section \<open>Running the function\<close>

text \<open>\<open>for (i = 0; i < n; i++) f(argp);\<close>\<close>

fun run_times :: "nat \<Rightarrow> 'e test_funct \<Rightarrow> 'e test_funct" where
  "run_times 0 f e = Some (Inr e)"
| "run_times (Suc n) f e =
     (case f e of
        Some (Inr e) \<Rightarrow> run_times n f e
      | r \<Rightarrow> r)"

definition ftimer_gettod :: "'e unix \<Rightarrow> 'e test_funct \<Rightarrow> int \<Rightarrow> 'e \<Rightarrow> (exit + real \<times> 'e) option" where
  "ftimer_gettod sys f n e = do {
     let rn = frnd sys;
     let (stv, e) = gettimeofday sys e;
     r \<leftarrow> run_times (nat n) f e;
     case r of
       Inl x \<Rightarrow> Some (Inl x)
     | Inr e \<Rightarrow> do {
         let (etv, e) = gettimeofday sys e;
         let diff = rn (rn (1000 * of_int (tv_sec etv - tv_sec stv))
                        + rn (rn (1 / 1000) * of_int (tv_usec etv - tv_usec stv)));
         diff \<leftarrow> div_double rn diff (of_int n);
         Some (Inr (rn (rn (1 / 1000) * diff), e)) } }"

section \<open>The interval timers\<close>

definition MAX_ETIME :: int where "MAX_ETIME = 86400"

text \<open>The static variables of the file.\<close>

record itimers =
  first_u :: itimerval
  first_r :: itimerval
  first_p :: itimerval

definition max_timer :: itimerval where
  "max_timer = \<lparr>it_interval = \<lparr>tv_sec = 0, tv_usec = 0\<rparr>, it_value = \<lparr>tv_sec = MAX_ETIME, tv_usec = 0\<rparr>\<rparr>"

definition init_etime :: "'e unix \<Rightarrow> itimers \<times> 'e \<Rightarrow> itimers \<times> 'e" where
  "init_etime sys = (\<lambda>(it, e).
     let it = it\<lparr>first_u := max_timer\<rparr>; e = setitimer sys ITIMER_VIRTUAL (first_u it) e;
         it = it\<lparr>first_r := max_timer\<rparr>; e = setitimer sys ITIMER_REAL (first_r it) e;
         it = it\<lparr>first_p := max_timer\<rparr>; e = setitimer sys ITIMER_PROF (first_p it) e
     in (it, e))"

definition get_etime :: "'e unix \<Rightarrow> itimers \<times> 'e \<Rightarrow> real \<times> 'e" where
  "get_etime sys = (\<lambda>(it, e).
     let rn = frnd sys;
         (v_curr, e) = getitimer sys ITIMER_VIRTUAL e;
         (r_curr, e) = getitimer sys ITIMER_REAL e;
         (p_curr, e) = getitimer sys ITIMER_PROF e
     in (rn (of_int (tv_sec (it_value (first_p it)) - tv_sec (it_value r_curr))
             + rn (of_int (tv_usec (it_value (first_p it)) - tv_usec (it_value r_curr)) * rn (1 / 1000000))), e))"

definition ftimer_itimer :: "'e unix \<Rightarrow> 'e test_funct \<Rightarrow> int \<Rightarrow> itimers \<times> 'e
    \<Rightarrow> (exit + real \<times> itimers \<times> 'e) option" where
  "ftimer_itimer sys f n s = do {
     let (it, e) = init_etime sys s;
     let (start, e) = get_etime sys (it, e);
     r \<leftarrow> run_times (nat n) f e;
     case r of
       Inl x \<Rightarrow> Some (Inl x)
     | Inr e \<Rightarrow> do {
         let (now, e) = get_etime sys (it, e);
         let tmeas = frnd sys (now - start);
         t \<leftarrow> div_double (frnd sys) tmeas (of_int n);
         Some (Inr (t, it, e)) } }"

section \<open>Facts\<close>

lemma run_times_returning: "run_times n (returning g) e = Some (Inr ((g ^^ n) e))"
  by (induction n arbitrary: e) (simp_all add: returning_def funpow_swap1)

text \<open>A time in seconds.\<close>

definition seconds :: "timeval \<Rightarrow> real" where
  "seconds t = of_int (tv_sec t) + of_int (tv_usec t) / 1000000"

text \<open>With exact arithmetic both timers return the mean time of a run.\<close>

lemma ftimer_gettod_mean:
  assumes "frnd sys = (\<lambda>x. x)" "0 < n" "run_times (nat n) f e1 = Some (Inr e2)"
    and "gettimeofday sys e = (t1, e1)" "gettimeofday sys e2 = (t2, e3)"
  shows "ftimer_gettod sys f n e = Some (Inr ((seconds t2 - seconds t1) / of_int n, e3))"
  using assms by (simp add: ftimer_gettod_def div_double_def seconds_def field_simps)

lemma ftimer_gettod_stops:
  assumes "run_times (nat n) f (snd (gettimeofday sys e)) = Some (Inl x)"
  shows "ftimer_gettod sys f n e = Some (Inl x)"
  using assms by (simp add: ftimer_gettod_def case_prod_beta)

text \<open>What is left of the real-time timer, read between the other two.\<close>

definition left_real :: "'e unix \<Rightarrow> 'e \<Rightarrow> timeval" where
  "left_real sys e = it_value (fst (getitimer sys ITIMER_REAL (snd (getitimer sys ITIMER_VIRTUAL e))))"

definition after_etime :: "'e unix \<Rightarrow> 'e \<Rightarrow> 'e" where
  "after_etime sys e = snd (getitimer sys ITIMER_PROF
     (snd (getitimer sys ITIMER_REAL (snd (getitimer sys ITIMER_VIRTUAL e)))))"

lemma get_etime_exact:
  assumes "frnd sys = (\<lambda>x. x)"
  shows "get_etime sys (it, e) = (seconds (it_value (first_p it)) - seconds (left_real sys e), after_etime sys e)"
  using assms
  by (simp add: get_etime_def Let_def case_prod_beta seconds_def left_real_def after_etime_def diff_divide_distrib)

lemma ftimer_itimer_mean:
  assumes "frnd sys = (\<lambda>x. x)" "0 < n" "init_etime sys (it, e) = (it1, e1)"
    and "run_times (nat n) f (after_etime sys e1) = Some (Inr e2)"
  shows "ftimer_itimer sys f n (it, e) =
    Some (Inr ((seconds (left_real sys e1) - seconds (left_real sys e2)) / of_int n, it1, after_etime sys e2))"
  using assms by (simp add: ftimer_itimer_def get_etime_exact div_double_def)

end
