(* ===== verification/Fsecs.thy ===== *)
theory Fsecs
  imports Ftimer
begin

text \<open>
  \<open>fsecs.c\<close>: the timing function of the driver, one of three according to \<open>config.h\<close>.
\<close>

text \<open>The three constants of \<open>config.h\<close>.\<close>

record config =
  USE_FCYC :: int
  USE_ITIMER :: int
  USE_GETTOD :: int

definition config_h :: config where
  "config_h = \<lparr>USE_FCYC = 0, USE_ITIMER = 0, USE_GETTOD = 1\<rparr>"

text \<open>The static variables of the timing files, and the rest of the machine.\<close>

record 'e timing =
  Mhz :: real
  smp :: sampler
  itms :: itimers
  clk :: "'e clock"

text \<open>The machine as the three files see it, with what the C library's allocator delivers.\<close>

record 'e platform =
  cycle_hw :: "'e machine"
  unix_sys :: "'e unix"
  found :: bool
  cache_memory :: "u32 \<Rightarrow> u32 list option"

definition init_fsecs :: "config \<Rightarrow> 'e platform \<Rightarrow> 'e timing \<Rightarrow> 'e timing option" where
  "init_fsecs cf pf t =
     (let t = t\<lparr>Mhz := 0\<rparr> in
      if USE_FCYC cf \<noteq> 0 then do {
        let st = smp t;
        let st = set_fcyc_maxsamples 20 st;
        let st = set_fcyc_clear_cache 1 st;
        let st = set_fcyc_compensate 1 st;
        let st = set_fcyc_epsilon (rnd (cycle_hw pf) (1 / 100)) st;
        let st = set_fcyc_k 3 st;
        (m, c) \<leftarrow> mhz (cycle_hw pf) (clk t);
        Some (t\<lparr>smp := st, clk := c, Mhz := m\<rparr>) }
      else Some t)"

text \<open>With none of the constants set the function ends without a \<open>return\<close>.\<close>

definition fsecs :: "config \<Rightarrow> 'e platform \<Rightarrow> 'e test_funct \<Rightarrow> 'e timing \<Rightarrow> (exit + real \<times> 'e timing) option" where
  "fsecs cf pf f t =
     (if USE_FCYC cf \<noteq> 0 then do {
        r \<leftarrow> fcyc (cycle_hw pf) (found pf) (cache_memory pf) f (smp t, clk t);
        case r of
          Inl x \<Rightarrow> Some (Inl x)
        | Inr (cycles, st, c) \<Rightarrow> do {
            s \<leftarrow> div_double (rnd (cycle_hw pf)) cycles (rnd (cycle_hw pf) (Mhz t * 1000000));
            Some (Inr (s, t\<lparr>smp := st, clk := c\<rparr>)) } }
      else if USE_ITIMER cf \<noteq> 0 then do {
        r \<leftarrow> ftimer_itimer (unix_sys pf) f 10 (itms t, env (clk t));
        case r of
          Inl x \<Rightarrow> Some (Inl x)
        | Inr (s, it, e) \<Rightarrow> Some (Inr (s, t\<lparr>itms := it, clk := clk t\<lparr>env := e\<rparr>\<rparr>)) }
      else if USE_GETTOD cf \<noteq> 0 then do {
        r \<leftarrow> ftimer_gettod (unix_sys pf) f 10 (env (clk t));
        case r of
          Inl x \<Rightarrow> Some (Inl x)
        | Inr (s, e) \<Rightarrow> Some (Inr (s, t\<lparr>clk := clk t\<lparr>env := e\<rparr>\<rparr>)) }
      else None)"

lemma config_h_simps [simp]: "USE_FCYC config_h = 0" "USE_ITIMER config_h = 0" "USE_GETTOD config_h = 1"
  by (simp_all add: config_h_def)

lemma init_fsecs_config_h: "init_fsecs config_h pf t = Some (t\<lparr>Mhz := 0\<rparr>)"
  by (simp add: init_fsecs_def)

text \<open>The repository's configuration: \<open>fsecs\<close> is the mean of ten runs.\<close>

lemma fsecs_config_h:
  "fsecs config_h pf f t =
     (case ftimer_gettod (unix_sys pf) f 10 (env (clk t)) of
        None \<Rightarrow> None
      | Some (Inl x) \<Rightarrow> Some (Inl x)
      | Some (Inr (s, e)) \<Rightarrow> Some (Inr (s, t\<lparr>clk := clk t\<lparr>env := e\<rparr>\<rparr>)))"
  by (auto simp: fsecs_def bind_eq_None_conv split: option.split sum.split)

text \<open>Runs of a function that always returns, and the property \<open>I\<close> of the machine that it keeps.\<close>

lemma run_times_total:
  assumes "\<And>e. I e \<Longrightarrow> \<exists>e'. f e = Some (Inr e') \<and> I e'" "I e"
  shows "\<exists>e'. run_times n f e = Some (Inr e') \<and> I e'"
  using assms(2)
proof (induction n arbitrary: e)
  case (Suc n)
  with assms(1) [OF Suc.prems] show ?case
    by auto
qed simp

text \<open>\<open>I\<close> is a property of the machine that the timed function and the clock keep.\<close>

lemma run_times_keeps:
  assumes "\<And>e e'. f e = Some (Inr e') \<Longrightarrow> I e \<Longrightarrow> I e'" "run_times n f e = Some (Inr e')" "I e"
  shows "I e'"
  using assms(2,3)
proof (induction n arbitrary: e)
  case (Suc n)
  then obtain e1 where "f e = Some (Inr e1)" "run_times n f e1 = Some (Inr e')"
    by (auto split: option.split_asm sum.split_asm)
  with Suc assms(1) show ?case
    by blast
qed simp

lemma ftimer_gettod_keeps:
  assumes f: "\<And>e e'. f e = Some (Inr e') \<Longrightarrow> I e \<Longrightarrow> I e'"
    and clock: "\<And>e. I e \<Longrightarrow> I (snd (gettimeofday u e))"
    and run: "ftimer_gettod u f n e = Some (Inr (s, e'))" and I: "I e"
  shows "I e'"
proof -
  obtain r where r: "run_times (nat n) f (snd (gettimeofday u e)) = Some r"
    using run by (auto simp: ftimer_gettod_def bind_eq_Some_conv Let_def case_prod_beta)
  with run obtain e2 where "r = Inr e2" "e' = snd (gettimeofday u e2)"
    by (cases r) (auto simp: ftimer_gettod_def bind_eq_Some_conv Let_def case_prod_beta)
  moreover have "I e2" if "r = Inr e2"
  proof (rule run_times_keeps [where f = f and I = I])
    show "run_times (nat n) f (snd (gettimeofday u e)) = Some (Inr e2)"
      using r that by simp
  qed (use f clock I in blast)+
  ultimately show ?thesis
    using clock by blast
qed

text \<open>With exact arithmetic, a clock that does not go backwards gives times that are not negative.\<close>

lemma fsecs_nonneg:
  assumes exact: "frnd (unix_sys pf) = (\<lambda>x. x)"
    and clock: "\<And>e. seconds (fst (gettimeofday (unix_sys pf) e)) = now e \<and> now e \<le> now (snd (gettimeofday (unix_sys pf) e))"
    and f: "\<And>e e'. f e = Some (Inr e') \<Longrightarrow> now e \<le> now e'"
    and run: "fsecs config_h pf f t = Some (Inr (s, t'))"
  shows "0 \<le> s"
proof -
  let ?u = "unix_sys pf" and ?e = "env (clk t)"
  obtain t1 e1 where e1: "gettimeofday ?u ?e = (t1, e1)"
    by fastforce
  from run obtain e3 where g: "ftimer_gettod ?u f 10 ?e = Some (Inr (s, e3))"
    by (auto simp: fsecs_config_h split: option.split_asm sum.split_asm)
  then obtain r where "run_times (nat 10) f e1 = Some r"
    by (auto simp: ftimer_gettod_def bind_eq_Some_conv Let_def e1)
  with g obtain e2 where e2: "run_times (nat 10) f e1 = Some (Inr e2)"
    by (cases r) (auto simp: ftimer_gettod_def bind_eq_Some_conv Let_def e1)
  obtain t2 e4 where e4: "gettimeofday ?u e2 = (t2, e4)"
    by fastforce
  have "now e1 \<le> now e2"
    by (rule run_times_keeps [where I = "\<lambda>e. now e1 \<le> now e", OF _ e2]) (use f order_trans in blast)+
  then have "seconds t1 \<le> seconds t2"
    using clock [of ?e] clock [of e2] e1 e4 by simp
  moreover have "s = (seconds t2 - seconds t1) / of_int 10"
    using ftimer_gettod_mean [OF exact _ e2 e1 e4] g by simp
  ultimately show ?thesis
    by simp
qed

end
