(* ===== verification/Clock_Steady.thy ===== *)
theory Clock_Steady
  imports Clock
begin

text \<open>
  \<open>callibrate\<close> on a machine that makes progress: the cycle counter advances with every
  reading, and the user time, which never goes back, advances from time to time.
\<close>

text \<open>A number of cycles as the two halves of the counter.\<close>

definition count_words :: "nat \<Rightarrow> u32 \<times> u32" where
  "count_words n = (of_nat (n div 2 ^ 32), of_nat n)"

text \<open>
  \<open>cyc\<close> is the number of cycles so far, and \<open>u n\<close> the user time after \<open>n\<close> of them: it
  never goes back, and advances at least once in \<open>T\<close> cycles, by how much ever. \<open>D\<close> bounds the
  cycles from one reading to the next, whatever interrupts the program; a \<open>double\<close> holds
  integers up to \<open>2 ^ 53\<close>.
\<close>

definition steady :: "'e machine \<Rightarrow> ('e \<Rightarrow> nat) \<Rightarrow> (nat \<Rightarrow> int) \<Rightarrow> nat \<Rightarrow> nat \<Rightarrow> bool" where
  "steady hw cyc u T D \<longleftrightarrow>
     mono u \<and> (\<forall>n. u n < u (n + T))
     \<and> (\<forall>e. fst (rdtsc hw e) = count_words (cyc e)
          \<and> cyc e < cyc (snd (rdtsc hw e)) \<and> cyc (snd (rdtsc hw e)) \<le> cyc e + D)
     \<and> (\<forall>e. fst (tms_utime hw e) = u (cyc e)
          \<and> cyc e \<le> cyc (snd (tms_utime hw e)) \<and> cyc (snd (tms_utime hw e)) \<le> cyc e + D)
     \<and> (\<forall>n. n \<le> 2 ^ 53 \<longrightarrow> rnd hw (real n) = real n) \<and> mono (rnd hw)"

lemma steadyD:
  assumes "steady hw cyc u T D"
  shows "m \<le> n \<Longrightarrow> u m \<le> u n" "u n < u (n + T)" "fst (rdtsc hw e) = count_words (cyc e)" "cyc e < cyc (snd (rdtsc hw e))"
    "cyc (snd (rdtsc hw e)) \<le> cyc e + D" "fst (tms_utime hw e) = u (cyc e)"
    "cyc e \<le> cyc (snd (tms_utime hw e))" "cyc (snd (tms_utime hw e)) \<le> cyc e + D"
    "n \<le> 2 ^ 53 \<Longrightarrow> rnd hw (real n) = real n" "mono (rnd hw)"
  using assms by (simp_all add: steady_def monoD)

text \<open>As long as the user time has not advanced, less than \<open>T\<close> cycles have gone by.\<close>

lemma steady_no_tick:
  assumes "steady hw cyc u T D" "u n \<le> u m"
  shows "n < m + T"
proof (rule ccontr)
  assume "\<not> n < m + T"
  then have "u (m + T) \<le> u n"
    by (intro steadyD(1) [OF assms(1)]) simp
  with steadyD(2) [OF assms(1), of m] assms(2) show False
    by simp
qed

lemma count64_words: "count64 (count_words n) = int n mod 2 ^ 64"
proof -
  have "uint (of_nat k :: u32) = int k mod 2 ^ 32" for k
    by (simp only: unsigned_of_nat take_bit_eq_mod zmod_int len_of_numeral_defs) simp
  moreover have "int n mod (2 ^ 32 * 2 ^ 32) = 2 ^ 32 * (int n div 2 ^ 32 mod 2 ^ 32) + int n mod 2 ^ 32"
    by (rule zmod_zmult2_eq) simp
  moreover have "(2 :: int) ^ 64 = 2 ^ 32 * 2 ^ 32" "int (n div 2 ^ 32) = int n div 2 ^ 32"
    by (simp_all add: zdiv_int)
  ultimately show ?thesis
    by (simp only: count64_def count_words_def fst_conv snd_conv mult.commute)
qed

lemma steady_get_counter:
  assumes "steady hw cyc u T D" "(cyc_hi c, cyc_lo c) = count_words b" "b \<le> cyc (env c)" "cyc (env c) \<le> b + 2 ^ 53"
  shows "get_counter hw c = (real (cyc (env c) - b), c\<lparr>env := snd (rdtsc hw (env c))\<rparr>)"
proof -
  have "(count64 (count_words (cyc (env c))) - count64 (count_words b)) mod 2 ^ 64 = (int (cyc (env c)) - int b) mod 2 ^ 64"
    by (simp only: count64_words mod_diff_eq)
  also have "\<dots> = int (cyc (env c) - b)"
    using assms(3,4) by (simp add: of_nat_diff)
  finally show ?thesis
    using get_counter_value [of hw c "count_words (cyc (env c))" "snd (rdtsc hw (env c))"] steadyD(3,9) [OF assms(1)]
      assms(2-4) by (simp add: prod_eq_iff)
qed

text \<open>
  Between two clock ticks that the loop counts there are at most \<open>per_event T D\<close> cycles: one
  tick, the threshold, and what the calls in between take.
\<close>

definition per_event :: "nat \<Rightarrow> nat \<Rightarrow> nat" where
  "per_event T D = T + 1000 + 6 * D"

text \<open>
  The loop after \<open>e\<close> ticks, with the counter started at \<open>b\<close> cycles, when the user time was
  \<open>u0\<close>: the last reading that counted is \<open>oldt\<close>, and the last tick \<open>oldc\<close> was read at \<open>r\<close> cycles.
\<close>

definition waiting :: "('e \<Rightarrow> nat) \<Rightarrow> (nat \<Rightarrow> int) \<Rightarrow> nat \<Rightarrow> nat \<Rightarrow> nat \<Rightarrow> int \<Rightarrow> nat \<Rightarrow> nat \<Rightarrow> int \<Rightarrow> nat \<Rightarrow> 'e clock \<Rightarrow> bool" where
  "waiting cyc u T D b u0 e oldt oldc r c \<longleftrightarrow>
     (cyc_hi c, cyc_lo c) = count_words b \<and> b + oldt \<le> cyc (env c)
     \<and> cyc (env c) \<le> b + oldt + 1000 + 2 * D \<and> b + oldt < r + T + 3 * D
     \<and> r \<le> b + e * per_event T D \<and> r \<le> cyc (env c) \<and> oldc = u r \<and> u0 + int e \<le> oldc"

lemma waiting_bound:
  assumes "waiting cyc u T D b u0 e oldt oldc r c"
  shows "cyc (env c) \<le> b + Suc e * per_event T D"
  using assms by (simp add: waiting_def per_event_def)

lemma waitingD:
  assumes "waiting cyc u T D b u0 e oldt oldc r c" "e < 100"
  shows "(cyc_hi c, cyc_lo c) = count_words b" "b \<le> cyc (env c)" "oldt \<le> cyc (env c) - b"
    "cyc (env c) \<le> b + 100 * per_event T D" "cyc (env c) - b - oldt \<le> 1000 + 2 * D"
proof -
  have "Suc e * per_event T D \<le> 100 * per_event T D"
    by (rule mult_le_mono1) (use assms(2) in simp)
  with waiting_bound [OF assms(1)] show "cyc (env c) \<le> b + 100 * per_event T D"
    by linarith
  note w = assms(1) [unfolded waiting_def]
  show "(cyc_hi c, cyc_lo c) = count_words b" "b \<le> cyc (env c)" "oldt \<le> cyc (env c) - b"
    "cyc (env c) - b - oldt \<le> 1000 + 2 * D"
    using w by linarith+
qed

text \<open>The three ways through the body: too early, no tick since, a tick.\<close>

lemma waiting_early:
  assumes "waiting cyc u T D b u0 e oldt oldc r c" "cyc (env c) - b - oldt < 1000"
    and "cyc (env c) \<le> cyc w" "cyc w \<le> cyc (env c) + D"
  shows "waiting cyc u T D b u0 e oldt oldc r (c\<lparr>env := w\<rparr>)"
  using assms by (simp add: waiting_def)

lemma waiting_no_tick:
  assumes "waiting cyc u T D b u0 e oldt oldc r c" "cyc w1 < r + T"
    and "cyc (env c) \<le> cyc w1" "cyc w1 \<le> cyc w" "cyc w \<le> cyc (env c) + 2 * D"
  shows "waiting cyc u T D b u0 e (cyc (env c) - b) oldc r (c\<lparr>env := w\<rparr>)"
  using assms by (simp add: waiting_def)

lemma waiting_tick:
  assumes "waiting cyc u T D b u0 e oldt oldc r c" "oldc < u (cyc w1)"
    and "cyc (env c) \<le> cyc w1" "cyc w1 \<le> cyc w" "cyc w1 \<le> cyc (env c) + D" "cyc w \<le> cyc (env c) + 2 * D" "0 < T"
    and "env d = w" "cyc_hi d = cyc_hi c" "cyc_lo d = cyc_lo c"
  shows "waiting cyc u T D b u0 (Suc e) (cyc (env c) - b) (u (cyc w1)) (cyc w1) d"
  using assms by (simp add: waiting_def per_event_def)

text \<open>A gap of at most 3000 cycles is not recorded.\<close>

lemma no_tick_recorded:
  assumes "steady hw cyc u T D" "n \<le> 3000" "0 < m"
  shows "record_tick (rnd hw (real n / of_int m)) c = c"
proof -
  have "1 \<le> real_of_int m"
    using assms(3) by simp
  then have "real n / of_int m \<le> real n"
    using mult_left_mono [of 1 "real_of_int m" "real n"] by (simp add: divide_le_eq)
  then have "rnd hw (real n / of_int m) \<le> rnd hw (real 3000)"
    by (intro monoD [OF steadyD(10) [OF assms(1)]]) (use assms(2) in simp)
  also have "\<dots> = 3000"
    using steadyD(9) [OF assms(1), of 3000] by simp
  finally show ?thesis
    by (simp add: record_tick_def RECORDTHRESH_def)
qed

text \<open>One round of the loop, and the loop.\<close>

lemma steady_tick_pos: "steady hw cyc u T D \<Longrightarrow> 0 < T"
  using steadyD(2) [of hw cyc u T D 0] by (cases T) auto

lemma callibrate_round:
  assumes hw: "steady hw cyc u T D" and room: "100 * per_event T D \<le> 2 ^ 53"
    and wait: "waiting cyc u T D b u0 e oldt oldc r c" "e < 100"
  obtains e' oldt' oldc' r' c' where
    "callibrate_loop hw (int e) (real oldt) oldc c = callibrate_loop hw (int e') (real oldt') oldc' c'"
    "waiting cyc u T D b u0 e' oldt' oldc' r' c'" "e' \<le> 100" "cyc (env c) < cyc (env c')"
    "D \<le> 1000 \<longrightarrow> cyc_per_tick c' = cyc_per_tick c"
proof -
  note w = waitingD [OF wait]
  let ?n = "cyc (env c) - b" and ?w1 = "snd (rdtsc hw (env c))"
  let ?c1 = "c\<lparr>env := ?w1\<rparr>" and ?w2 = "snd (tms_utime hw ?w1)" and ?newc = "u (cyc ?w1)"
  let ?c2 = "c\<lparr>env := ?w2\<rparr>"
  have g: "get_counter hw c = (real ?n, ?c1)"
    using steady_get_counter [OF hw w(1,2)] w(4) room by simp
  have t: "read_times hw ?c1 = (?newc, ?c2)"
    using steadyD(6) [OF hw] by (simp add: read_times_def case_prod_beta)
  have "?n - oldt \<le> 2 ^ 53"
    using w(4) room by linarith
  from steadyD(9) [OF hw this] have gap: "rnd hw (real ?n - real oldt) = real (?n - oldt)"
    by (simp only: of_nat_diff [OF w(3)])
  note steps = steady_tick_pos [OF hw] steadyD(4,5) [OF hw, of "env c"] steadyD(7,8) [OF hw, of ?w1]
  note loop = callibrate_loop.simps [of hw "int e" "real oldt" oldc c]
  consider "?n - oldt < 1000" | "1000 \<le> ?n - oldt" "?newc \<le> oldc" | "1000 \<le> ?n - oldt" "oldc < ?newc"
    by linarith
  then show thesis
  proof cases
    case 1
    have "waiting cyc u T D b u0 e oldt oldc r ?c1"
      using waiting_early [OF wait(1) 1] steps by simp
    then show ?thesis
      using loop 1 wait(2) g gap steps by (intro that [of e oldt oldc ?c1 r]) (simp_all add: NEVENT_def THRESHOLD_def)
  next
    case 2
    have "oldc = u r"
      using wait(1) by (simp add: waiting_def)
    with 2 have "cyc ?w1 < r + T"
      by (intro steady_no_tick [OF hw]) simp
    then have "waiting cyc u T D b u0 e ?n oldc r ?c2"
      using waiting_no_tick [OF wait(1), of ?w1 ?w2] steps by simp
    then show ?thesis
      using loop 2 wait(2) g gap t steps by (intro that [of e ?n oldc ?c2 r]) (simp_all add: NEVENT_def THRESHOLD_def)
  next
    case 3
    let ?c3 = "record_tick (rnd hw (real (?n - oldt) / of_int (?newc - oldc))) ?c2"
    have "waiting cyc u T D b u0 (Suc e) ?n ?newc (cyc ?w1) ?c3"
      using waiting_tick [OF wait(1) 3(2), of ?w2 ?c3] steps by simp
    moreover have "D \<le> 1000 \<longrightarrow> ?c3 = ?c2"
      using no_tick_recorded [OF hw, of "?n - oldt" "?newc - oldc" ?c2] w(5) 3(2) by simp
    moreover have "callibrate_loop hw (int e) (real oldt) oldc c
        = callibrate_loop hw (int (Suc e)) (real ?n) ?newc ?c3"
      using loop 3 wait(2) g gap t by (simp add: NEVENT_def THRESHOLD_def ac_simps)
    ultimately show ?thesis
      using wait(2) steps by (intro that [of "Suc e" ?n ?newc ?c3 "cyc ?w1"]) simp_all
  qed
qed

text \<open>At the end 100 ticks have been counted, in a bounded number of cycles.\<close>

lemma callibrate_loop_returns:
  assumes hw: "steady hw cyc u T D" and room: "100 * per_event T D \<le> 2 ^ 53"
  shows "waiting cyc u T D b u0 e oldt oldc r c \<Longrightarrow> e \<le> 100 \<Longrightarrow>
    \<exists>c'. callibrate_loop hw (int e) (real oldt) oldc c = Some c'
      \<and> u0 + 100 \<le> u (cyc (env c')) \<and> cyc (env c') \<le> b + 101 * per_event T D
      \<and> (D \<le> 1000 \<longrightarrow> cyc_per_tick c' = cyc_per_tick c)"
proof (induction "Suc (b + 100 * per_event T D) - cyc (env c)" arbitrary: e oldt oldc r c rule: less_induct)
  case less
  show ?case
  proof (cases "e < 100")
    case True
    obtain e' oldt' oldc' r' c' where r:
      "callibrate_loop hw (int e) (real oldt) oldc c = callibrate_loop hw (int e') (real oldt') oldc' c'"
      "waiting cyc u T D b u0 e' oldt' oldc' r' c'" "e' \<le> 100" "cyc (env c) < cyc (env c')"
      "D \<le> 1000 \<longrightarrow> cyc_per_tick c' = cyc_per_tick c"
      by (rule callibrate_round [OF hw room less.prems(1) True])
    have "Suc (b + 100 * per_event T D) - cyc (env c') < Suc (b + 100 * per_event T D) - cyc (env c)"
      using r(4) waitingD(4) [OF less.prems(1) True] by simp
    from less.hyps [OF this r(2,3)] r(1,5) show ?thesis
      by auto
  next
    case False
    with less.prems(2) have e: "e = 100"
      by simp
    have "oldc \<le> u (cyc (env c))" "u0 + 100 \<le> oldc"
      using less.prems(1) steadyD(1) [OF hw] by (auto simp: waiting_def e)
    with waiting_bound [OF less.prems(1)] e show ?thesis
      by (simp add: callibrate_loop.simps NEVENT_def)
  qed
qed

lemma callibrate_returns:
  assumes hw: "steady hw cyc u T D" and room: "100 * per_event T D \<le> 2 ^ 53"
  shows "\<exists>c'. callibrate hw c = Some c' \<and> u (cyc (env c)) + 100 \<le> u (cyc (env c'))
    \<and> cyc (env c') \<le> cyc (env c) + 102 * per_event T D
    \<and> (D \<le> 1000 \<longrightarrow> cyc_per_tick c' = cyc_per_tick c)"
proof -
  let ?w1 = "snd (tms_utime hw (env c))" and ?r = "cyc (env c)"
  let ?b = "cyc ?w1" and ?w2 = "snd (rdtsc hw ?w1)"
  let ?c2 = "c\<lparr>env := ?w2, cyc_hi := fst (count_words ?b), cyc_lo := snd (count_words ?b)\<rparr>"
  let ?w3 = "snd (rdtsc hw ?w2)"
  note steps = steadyD(7,8) [OF hw, of "env c"] steadyD(4,5) [OF hw, of ?w1] steadyD(4,5) [OF hw, of ?w2]
  have t: "read_times hw c = (u ?r, c\<lparr>env := ?w1\<rparr>)"
    using steadyD(6) [OF hw] by (simp add: read_times_def case_prod_beta)
  have s: "start_counter hw (c\<lparr>env := ?w1\<rparr>) = ?c2"
    using steadyD(3) [OF hw, of ?w1] by (simp add: start_counter_def access_counter_def case_prod_beta)
  have "D \<le> 2 ^ 53"
    using room by (simp add: per_event_def)
  then have g: "get_counter hw ?c2 = (real (cyc ?w2 - ?b), ?c2\<lparr>env := ?w3\<rparr>)"
    using steady_get_counter [OF hw, of ?c2 ?b] steps by simp
  have "waiting cyc u T D ?b (u ?r) 0 (cyc ?w2 - ?b) (u ?r) ?r (?c2\<lparr>env := ?w3\<rparr>)"
    using steps steady_tick_pos [OF hw] by (simp add: waiting_def)
  from callibrate_loop_returns [OF hw room this] obtain c' where
    "callibrate_loop hw 0 (real (cyc ?w2 - ?b)) (u ?r) (?c2\<lparr>env := ?w3\<rparr>) = Some c'" "u ?r + 100 \<le> u (cyc (env c'))"
    "cyc (env c') \<le> ?b + 101 * per_event T D" "D \<le> 1000 \<longrightarrow> cyc_per_tick c' = cyc_per_tick c"
    by auto
  moreover have "?b \<le> ?r + per_event T D"
    using steps(2) by (simp add: per_event_def)
  ultimately show ?thesis
    by (simp add: callibrate_def t s g)
qed

text \<open>
  The clock rate: where the machine runs through at least a million cycles per second while
  the program sleeps, \<open>mhz\<close> reports at least 1 MHz.
\<close>

definition awake :: "'e machine \<Rightarrow> ('e \<Rightarrow> nat) \<Rightarrow> bool" where
  "awake hw cyc \<longleftrightarrow>
     (\<forall>e. cyc e + 2000000 \<le> cyc (sleep_for hw 2 e) \<and> cyc (sleep_for hw 2 e) \<le> cyc e + 2 ^ 52)"

lemma mhz_steady:
  assumes hw: "steady hw cyc u T D" "awake hw cyc" "D \<le> 2 ^ 52" and run: "mhz hw c = Some (r, c')"
  shows "1 \<le> r"
proof -
  let ?b = "cyc (env c)" and ?w1 = "snd (rdtsc hw (env c))"
  let ?c1 = "c\<lparr>cyc_hi := fst (count_words ?b), cyc_lo := snd (count_words ?b), env := sleep_for hw 2 ?w1\<rparr>"
  have s: "start_counter hw c = c\<lparr>env := ?w1, cyc_hi := fst (count_words ?b), cyc_lo := snd (count_words ?b)\<rparr>"
    using steadyD(3) [OF hw(1), of "env c"] by (simp add: start_counter_def access_counter_def case_prod_beta)
  have awake: "cyc ?w1 + 2000000 \<le> cyc (sleep_for hw 2 ?w1)" "cyc (sleep_for hw 2 ?w1) \<le> cyc ?w1 + 2 ^ 52"
    using hw(2) by (simp_all add: awake_def)
  have n: "2000000 \<le> cyc (env ?c1) - ?b" "cyc (env ?c1) \<le> ?b + 2 ^ 53" "?b \<le> cyc (env ?c1)"
    using steadyD(4,5) [OF hw(1), of "env c"] hw(3) awake by simp_all
  have "r = rnd hw (real (cyc (env ?c1) - ?b) / 2000000)"
    using run steady_get_counter [OF hw(1), of ?c1 ?b] n(2,3) steadyD(9) [OF hw(1), of 2000000]
    by (simp add: mhz_def mhz_full_def Let_def s div_double_def)
  moreover have "rnd hw (real 1) \<le> rnd hw (real (cyc (env ?c1) - ?b) / 2000000)"
    by (rule monoD [OF steadyD(10) [OF hw(1)]]) (use n(1) in simp)
  ultimately show ?thesis
    using steadyD(9) [OF hw(1), of 1] by simp
qed

end
