(* ===== verification/Timing_Correct.thy ===== *)
theory Timing_Correct
  imports Fcyc_Run Fsecs Clock_Steady
begin

text \<open>
  The properties of the timing files \<open>clock.c\<close>, \<open>fcyc.c\<close>, \<open>ftimer.c\<close> and \<open>fsecs.c\<close>. The
  concrete runs are on a machine whose state is the number of cycles so far: reading the
  counter costs one cycle.
\<close>

section \<open>A concrete machine\<close>

definition ticking :: "nat machine" where
  "ticking = \<lparr>rdtsc = (\<lambda>n. ((of_nat (n div 2 ^ 32), of_nat n), n + 1)), tms_utime = (\<lambda>n. (7, n)),
     sleep_for = (\<lambda>k n. n), rnd = (\<lambda>x. x)\<rparr>"

definition clock_at :: "nat \<Rightarrow> nat clock" where
  "clock_at n = \<lparr>cyc_hi = 0, cyc_lo = 0, cyc_per_tick = 0, start_tick = 0, env = n\<rparr>"

section \<open>The cycle counter\<close>

text \<open>
  Property C25. \<open>get_counter\<close> returns the 64-bit difference of the two counter values, as the
  nearest \<open>double\<close>: the subtraction in two halves with a borrow is right also when the low
  half, or the whole counter, has wrapped around since \<open>start_counter\<close>.
\<close>

theorem get_counter_difference:
  "fst (get_counter hw (start_counter hw c)) =
     (let (r0, e0) = rdtsc hw (env c); (r1, e1) = rdtsc hw e0
      in rnd hw (of_int ((count64 r1 - count64 r0) mod 2 ^ 64)))"
proof -
  obtain r0 e0 r1 e1 where r: "rdtsc hw (env c) = (r0, e0)" "rdtsc hw e0 = (r1, e1)"
    by fastforce
  then have s: "start_counter hw c = c\<lparr>env := e0, cyc_hi := fst r0, cyc_lo := snd r0\<rparr>"
    by (simp add: start_counter_def access_counter_def case_prod_beta)
  have "rdtsc hw (env (start_counter hw c)) = (r1, e1)"
    using r(2) by (simp add: s)
  from get_counter_value [OF this] r show ?thesis
    by (simp add: s)
qed

text \<open>
  Property C26. On an Alpha the counter has 32 bits, and its high half is taken to be 0 at both
  readings. Without a wrap-around \<open>get_counter\<close> returns the difference of the readings; when
  the counter has wrapped around in between, the borrow makes the high half \<open>2 ^ 32 - 1\<close>, and
  the result is close to \<open>2 ^ 64\<close> instead of the number of cycles that have passed.
\<close>

theorem get_counter_alpha_wraps:
  assumes "counter (env c) = (t0, e0)" "counter e0 = (t1, e1)"
  shows "fst (get_counter_alpha rn counter (start_counter_alpha counter c)) =
    rn (if unat t0 \<le> unat t1 then real (unat t1 - unat t0) else 2 ^ 64 - real (unat t0 - unat t1))"
proof -
  note result = start_get_counter_alpha [OF assms, of rn]
  show ?thesis
  proof (cases "unat t0 \<le> unat t1")
    case True
    then have d: "unat (t1 - t0) = unat t1 - unat t0"
      by (simp add: unat_sub word_le_nat_alt)
    then have "\<not> t1 - t0 > t1"
      by (simp add: word_less_nat_alt)
    moreover have "real (unat (0 - 0 - 0 :: u32)) * 2 ^ 30 * 4 + real (unat (t1 - t0)) = real (unat t1 - unat t0)"
      unfolding d by simp
    ultimately show ?thesis
      unfolding result by (simp only: if_False True if_True)
  next
    case False
    have l: "unat t0 < 2 ^ 32"
      by (rule order_less_le_trans [OF unsigned_less]) simp
    have d: "unat (t1 - t0) = 2 ^ 32 - (unat t0 - unat t1)"
      using False l by (simp add: unat_sub_if_size word_size)
    then have "t1 - t0 > t1"
      using False l by (simp add: word_less_nat_alt)
    moreover have "real (unat (0 - 0 - 1 :: u32)) * 2 ^ 30 * 4 + real (unat (t1 - t0)) = 2 ^ 64 - real (unat t0 - unat t1)"
    proof -
      have "unat (0 - 0 - 1 :: u32) = 2 ^ 32 - 1"
        by (simp add: unsigned_minus_1_eq_mask mask_eq_exp_minus_1)
      moreover have "unat t0 - unat t1 \<le> 2 ^ 32"
        using l by simp
      ultimately show ?thesis
        unfolding d by (simp add: of_nat_diff)
    qed
    ultimately show ?thesis
      unfolding result by (simp only: if_True False if_False)
  qed
qed

theorem get_counter_alpha_wraps_witness:
  "fst (get_counter_alpha (\<lambda>x. x) (\<lambda>n. (of_nat n, n + 10)) (start_counter_alpha (\<lambda>n. (of_nat n, n + 10)) (clock_at 4294967290)))
     = 2 ^ 64 - 4294967286"
  using get_counter_alpha_wraps [of "\<lambda>n. (of_nat n, n + 10)" "clock_at 4294967290" 4294967290 4294967300 4 4294967310 "\<lambda>x. x"]
  by (simp add: clock_at_def)

text \<open>
  Property C35. The calibration loop waits for 100 advances of the user time: on a machine
  whose user time does not advance \<open>callibrate\<close> never returns.
\<close>

theorem callibrate_never_returns:
  assumes "\<And>x. fst (tms_utime hw x) = k"
  shows "callibrate hw c = None"
  by (rule callibrate_stuck [OF assms])

theorem callibrate_never_returns_witness: "callibrate ticking (clock_at 5) = None"
  by (rule callibrate_never_returns [of _ 7]) (simp add: ticking_def)

text \<open>A machine that takes 50 cycles to read its counter, with clock ticks of 1000 cycles.\<close>

definition metronome :: "int machine" where
  "metronome = \<lparr>rdtsc = (\<lambda>w. (count_words (nat w), int (nat w) + 50)), tms_utime = (\<lambda>w. (int (nat w div 1000), w)),
     sleep_for = (\<lambda>k w. int (nat w) + 1000000 * k), rnd = (\<lambda>x. x)\<rparr>"

lemma metronome_steady:
  "steady metronome nat (\<lambda>n. int (n div 1000)) 1000 50" "awake metronome nat" "100 * per_event 1000 50 \<le> 2 ^ 53"
  by (auto simp: steady_def awake_def per_event_def metronome_def mono_def nat_add_distrib div_le_mono)

lemma metronome_callibrates: "callibrates metronome"
  using callibrate_returns [OF metronome_steady(1,3)] by (auto simp: callibrates_def)

text \<open>
  Property C36. On a machine that makes progress \<open>callibrate\<close> comes to its end, and between its
  start and its end the user time has advanced by at least 100 ticks; this takes at most as
  many cycles as there are in 102 times \<open>T\<close>, the threshold of 1000 and 6 calls. Progress means:
  the counter advances with every reading, by at most \<open>D\<close> cycles including all interruptions,
  and the user time is a function of the number of cycles that never goes back and advances at
  least once in \<open>T\<close> cycles, where \<open>T\<close> and \<open>D\<close> can be as large as 100 times this sum allows to
  stay below \<open>2 ^ 53\<close>, the exact range of a \<open>double\<close>. When \<open>D\<close> is at most 1000, \<open>callibrate\<close>
  records no overhead.
\<close>

theorem callibrate_counts_ticks:
  assumes "steady hw cyc u T D" "100 * per_event T D \<le> 2 ^ 53"
  shows "\<exists>c'. callibrate hw c = Some c' \<and> fst (tms_utime hw (env c)) + 100 \<le> fst (tms_utime hw (env c'))
    \<and> cyc (env c') \<le> cyc (env c) + 102 * (T + 1000 + 6 * D)
    \<and> (D \<le> 1000 \<longrightarrow> cyc_per_tick c' = cyc_per_tick c)"
  using callibrate_returns [OF assms, of c] unfolding steadyD(6) [OF assms(1)] per_event_def by blast

theorem callibrate_counts_ticks_witness:
  "\<exists>c'. callibrate metronome \<lparr>cyc_hi = 0, cyc_lo = 0, cyc_per_tick = 0, start_tick = 0, env = 7\<rparr> = Some c'
    \<and> 100 \<le> nat (env c') div 1000 \<and> cyc_per_tick c' = 0"
proof -
  have "fst (tms_utime metronome w) = int (nat w div 1000)" for w
    by (simp add: metronome_def)
  with callibrate_counts_ticks [OF metronome_steady(1,3),
      of "\<lparr>cyc_hi = 0, cyc_lo = 0, cyc_per_tick = 0, start_tick = 0, env = 7\<rparr>"]
  show ?thesis
    by auto
qed

section \<open>The K-best scheme\<close>

text \<open>
  Property C22. The insertion of samples one by one keeps what sorting all of them would
  put first: after the samples \<open>xs\<close> the array holds the \<open>kbest\<close> smallest in order.
\<close>

theorem add_sample_keeps_smallest:
  assumes "0 < kbest st"
  shows "\<exists>st' vs. add_all add_sample xs (init_sampler True st) = Some st'
    \<and> samplecount st' = int (length xs) \<and> vals st' = Some vs \<and> length vs = nat (kbest st)
    \<and> take (length xs) vs = take (nat (kbest st)) (sort xs)"
proof -
  obtain st' where st': "add_all add_sample xs (init_sampler True st) = Some st'" "sampled st' (rev xs)"
    using best.add_all_rep [OF init_sampled [OF assms], of xs] by auto
  moreover have k: "kbest st' = kbest st"
    using add_all_kbest [OF st'(1)] by (simp add: init_sampler_def)
  moreover obtain vs where "vals st' = Some vs" "kept_best (nat (kbest st)) vs (rev xs)" "samplecount st' = int (length xs)"
    using st'(2) unfolding sampled_def k by auto
  ultimately show ?thesis
    unfolding kept_best_def sort_rev length_rev by blast
qed

theorem add_sample_keeps_smallest_witness:
  "\<exists>st' vs. add_all add_sample [9, 4, 7, 5] (init_sampler True (fcyc_defaults (\<lambda>x. x))) = Some st'
    \<and> samplecount st' = 4 \<and> vals st' = Some vs \<and> vs = [4, 5, 7]"
proof -
  have "0 < kbest (fcyc_defaults (\<lambda>x. x))" "sort [9, 4, 7, 5 :: real] = [4, 5, 7, 9]"
    by (simp_all add: fcyc_defaults_def)
  with add_sample_keeps_smallest [OF this(1), of "[9, 4, 7, 5]"] show ?thesis
    by (auto simp: fcyc_defaults_def)
qed

text \<open>
  Property C21. \<open>fcyc\<close> terminates and returns the smallest of its measurements: it stops at
  the first number of them that is enough (the \<open>kbest\<close> smallest agree, or \<open>maxsamples\<close> is
  reached), and takes at least one. This is for a function that returns and for memory for the
  samples; with compensation, when the clock has been calibrated or \<open>callibrate\<close> comes to its
  end; with the clearing of the cache, when the buffer is there, a cache block holds a word and
  no sum of the words read by up to \<open>maxsamples\<close> clearings overflows: \<open>sink\<close> has it at the
  end.
\<close>

theorem fcyc_returns_minimum:
  assumes "0 < kbest st" "clear_room memory (nat (max 1 (maxsamples st))) st"
    and "compensation_ready hw (compensate st \<noteq> 0) c"
  shows "\<exists>n xs c'. 1 \<le> n \<and> int n \<le> max 1 (maxsamples st)
    \<and> measurements hw (returning g) (compensate st \<noteq> 0) n c = Some (xs, c')
    \<and> fcyc hw True memory (returning g) (st, c)
        = Some (Inr (Min (set xs), (cleared memory n st)\<lparr>vals := None, samplecount := int n\<rparr>, c'))
    \<and> enough (rnd hw) st xs \<and> (\<forall>m. 1 \<le> m \<and> m < n \<longrightarrow> \<not> enough (rnd hw) st (take m xs))"
  by (rule fcyc_run [OF assms])

text \<open>The parameters that \<open>init_fsecs\<close> sets, and a buffer of fresh pages.\<close>

definition init_fsecs_sampler :: sampler where
  "init_fsecs_sampler = set_fcyc_compensate 1 (set_fcyc_clear_cache 1 (fcyc_defaults (\<lambda>x. x)))"

definition fresh_pages :: "u32 \<Rightarrow> u32 list option" where
  "fresh_pages n = Some (replicate (unat n div 4) 0)"

lemma fresh_words:
  assumes "4 \<le> unat (cache_block st)" "cache_bytes st = n"
  shows "list_all (\<lambda>w. w = 0) (cache_words st (replicate (unat n div 4) 0))"
  using strided_subset [of "unat (cache_block st) div 4" "unat n div 4" "replicate (unat n div 4) 0" 0] assms
  by (auto simp: cache_words_def list_all_iff div_greater_zero_iff)

lemma init_fsecs_sampler_room: "clear_room fresh_pages k init_fsecs_sampler"
proof -
  let ?b = "replicate (unat (cache_bytes init_fsecs_sampler) div 4) (0 :: u32)"
  have b: "4 \<le> unat (cache_block init_fsecs_sampler)" "the_buf fresh_pages init_fsecs_sampler = Some ?b"
    "sink init_fsecs_sampler = 0"
    by (simp_all add: init_fsecs_sampler_def set_fcyc_compensate_def set_fcyc_clear_cache_def fcyc_defaults_def
        the_buf_def fresh_pages_def)
  from zero_sums [OF fresh_words [OF b(1) refl]] have "abs_sum (cache_words init_fsecs_sampler ?b) = 0"
    by blast
  with b show ?thesis
    by (simp add: clear_room_def)
qed

theorem fcyc_returns_minimum_witness:
  "\<exists>r st' c'. fcyc metronome True fresh_pages (returning (\<lambda>n. n + 10))
      (init_fsecs_sampler, \<lparr>cyc_hi = 0, cyc_lo = 0, cyc_per_tick = 0, start_tick = 0, env = 7\<rparr>)
    = Some (Inr (r, st', c')) \<and> 1 \<le> samplecount st' \<and> samplecount st' \<le> 20"
proof -
  let ?c = "\<lparr>cyc_hi = 0, cyc_lo = 0, cyc_per_tick = 0, start_tick = 0, env = 7 :: int\<rparr>"
  have p: "0 < kbest init_fsecs_sampler" "maxsamples init_fsecs_sampler = 20"
    by (simp_all add: init_fsecs_sampler_def set_fcyc_compensate_def set_fcyc_clear_cache_def fcyc_defaults_def)
  have "compensation_ready metronome (compensate init_fsecs_sampler \<noteq> 0) ?c"
    by (simp add: compensation_ready_def metronome_callibrates)
  from fcyc_returns_minimum [OF p(1) init_fsecs_sampler_room this, of "\<lambda>n. n + 10"] p(2) show ?thesis
    by auto
qed

text \<open>
  With blocks of at least 4 bytes \<open>clear\<close> returns, having added to \<open>sink\<close> one
  word of the buffer per cache block, as long as the sum does not overflow; it does not touch
  the buffer.
\<close>

lemma clear_reads_blocks:
  assumes "the_buf memory st = Some b" "unat (cache_bytes st) div 4 \<le> length b" "4 \<le> unat (cache_block st)"
    and "\<bar>sink st\<bar> + abs_sum (cache_words st b) < 2 ^ 31"
  shows "clear memory st = Some (Inr (st\<lparr>cache_buf := Some b, sink := sink st + sint_sum (cache_words st b)\<rparr>))"
  by (rule clear_returns [OF assms])

lemma clear_reads_blocks_witness:
  "\<exists>st'. clear (\<lambda>_. Some [1, 2, 3, 4]) ((fcyc_defaults (\<lambda>x. x))\<lparr>cache_bytes := 16, cache_block := 8\<rparr>) = Some (Inr st')
    \<and> sink st' = 4"
  using clear_reads_blocks [of "\<lambda>_. Some [1, 2, 3, 4]" "(fcyc_defaults (\<lambda>x. x))\<lparr>cache_bytes := 16, cache_block := 8\<rparr>" "[1, 2, 3, 4]"]
  by (simp add: fcyc_defaults_def the_buf_def cache_words_def strided_def upt_rec)

text \<open>The words are what \<open>malloc\<close> has left in the buffer: their sum can overflow.\<close>

lemma clear_can_overflow:
  "clear (\<lambda>_. Some [0x7FFFFFFF, 0, 1, 0]) ((fcyc_defaults (\<lambda>x. x))\<lparr>cache_bytes := 16, cache_block := 8\<rparr>) = None"
  by (simp add: clear_def fcyc_defaults_def clear_loop.simps int32_def)

text \<open>
  With a cache block of less than 4 bytes the pointer of \<open>clear\<close> does not move:
  the function, and with it \<open>fcyc\<close>, never returns.
\<close>

lemma clear_never_returns:
  assumes "the_buf memory st = Some b" "unat (cache_bytes st) div 4 \<le> length b"
    and "4 \<le> unat (cache_bytes st)" "unat (cache_block st) < 4"
  shows "clear memory st = None \<and> (clear_cache st \<noteq> 0 \<longrightarrow> fcyc hw True memory f (st, c) = None)"
proof
  show "clear memory st = None"
    by (rule clear_diverges [OF assms(1,3,4)])
  have "the_buf memory (init_sampler True st) = Some b" "cache_bytes (init_sampler True st) = cache_bytes st"
    "cache_block (init_sampler True st) = cache_block st" "clear_cache (init_sampler True st) = clear_cache st"
    using assms(1) by (auto simp: the_buf_def init_sampler_def split: option.splits)
  then have "clear memory (init_sampler True st) = None"
    using clear_diverges [of memory "init_sampler True st" b] assms by simp
  then show "clear_cache st \<noteq> 0 \<longrightarrow> fcyc hw True memory f (st, c) = None"
    by (simp add: fcyc_def fcyc_loop.simps fcyc_body_def init_sampler_def)
qed

lemma clear_never_returns_witness:
  "clear (\<lambda>_. Some [1, 2, 3, 4]) ((fcyc_defaults (\<lambda>x. x))\<lparr>cache_bytes := 16, cache_block := 2\<rparr>) = None"
  using clear_never_returns [of "\<lambda>_. Some [1, 2, 3, 4]" "(fcyc_defaults (\<lambda>x. x))\<lparr>cache_bytes := 16, cache_block := 2\<rparr>"
      "[1, 2, 3, 4]" ticking "returning (\<lambda>n. n)" "clock_at 0"]
  by (simp add: fcyc_defaults_def the_buf_def)

section \<open>Timers\<close>

definition microseconds :: "int unix" where
  "microseconds = \<lparr>gettimeofday = (\<lambda>t. (\<lparr>tv_sec = t div 1000000, tv_usec = t mod 1000000\<rparr>, t + 1)),
     setitimer = (\<lambda>k v t. t),
     getitimer = (\<lambda>k t. (\<lparr>it_interval = \<lparr>tv_sec = 0, tv_usec = 0\<rparr>,
        it_value = \<lparr>tv_sec = 86400 - t div 1000000 - 1, tv_usec = 1000000 - t mod 1000000\<rparr>\<rparr>, t + 1)),
     frnd = (\<lambda>x. x)\<rparr>"

text \<open>
  Property C33. With exact arithmetic \<open>ftimer_gettod\<close> returns, in seconds, the time between
  its two readings of the clock divided by the number of runs; the conversion through
  milliseconds loses nothing, also when the microseconds of the second reading are fewer.
\<close>

theorem ftimer_gettod_correct:
  assumes "frnd u = (\<lambda>x. x)" "0 < n" "run_times (nat n) f e1 = Some (Inr e2)"
    and "gettimeofday u e = (t1, e1)" "gettimeofday u e2 = (t2, e3)"
  shows "ftimer_gettod u f n e = Some (Inr ((seconds t2 - seconds t1) / of_int n, e3))"
  by (rule ftimer_gettod_mean [OF assms])

theorem ftimer_gettod_correct_witness:
  "\<exists>e. ftimer_gettod microseconds (returning (\<lambda>t. t + 600000)) 10 999999 = Some (Inr (6000001 / 10000000, e))"
proof -
  have "run_times (nat 10) (returning (\<lambda>t :: int. t + 600000)) 1000000 = Some (Inr 7000000)"
    by (simp add: run_times_returning) (simp add: eval_nat_numeral)
  moreover have "gettimeofday microseconds 999999 = (\<lparr>tv_sec = 0, tv_usec = 999999\<rparr>, 1000000)"
    "gettimeofday microseconds 7000000 = (\<lparr>tv_sec = 7, tv_usec = 0\<rparr>, 7000001)" "frnd microseconds = (\<lambda>x. x)"
    by (simp_all add: microseconds_def)
  ultimately show ?thesis
    using ftimer_gettod_correct [of microseconds 10 "returning (\<lambda>t. t + 600000)" 1000000 7000000 999999]
    by (simp add: seconds_def)
qed

text \<open>
  Property C34. With exact arithmetic \<open>ftimer_itimer\<close> returns the mean real time of a run: what
  the real-time timer has lost between the two readings. That \<open>get_etime\<close> subtracts it from
  the start value of the profiling timer makes no difference.
\<close>

theorem ftimer_itimer_correct:
  assumes "frnd u = (\<lambda>x. x)" "0 < n" "init_etime u (it, e) = (it1, e1)"
    and "run_times (nat n) f (after_etime u e1) = Some (Inr e2)"
  shows "ftimer_itimer u f n (it, e) =
    Some (Inr ((seconds (left_real u e1) - seconds (left_real u e2)) / of_int n, it1, after_etime u e2))"
  by (rule ftimer_itimer_mean [OF assms])

theorem ftimer_itimer_correct_witness:
  "\<exists>s. ftimer_itimer microseconds (returning (\<lambda>t. t + 100)) 2
      (\<lparr>first_u = max_timer, first_r = max_timer, first_p = max_timer\<rparr>, 0) = Some (Inr (203 / 2000000, s))"
proof -
  let ?it = "\<lparr>first_u = max_timer, first_r = max_timer, first_p = max_timer\<rparr>"
  have "init_etime microseconds (?it, 0) = (?it, 0)" "frnd microseconds = (\<lambda>x. x)"
    by (simp_all add: init_etime_def microseconds_def)
  moreover have "run_times (nat 2) (returning (\<lambda>t. t + 100)) (after_etime microseconds 0) = Some (Inr 203)"
    by (simp add: run_times_returning after_etime_def microseconds_def) (simp add: eval_nat_numeral)
  moreover have "seconds (left_real microseconds 0) - seconds (left_real microseconds 203) = 203 / 1000000"
    by (simp add: left_real_def microseconds_def seconds_def)
  ultimately show ?thesis
    using ftimer_itimer_correct [of microseconds 2 ?it 0 ?it 0 "returning (\<lambda>t. t + 100)" 203] by auto
qed

end
