(* ===== verification/Driver_Speed.thy ===== *)
theory Driver_Speed
  imports Mm_Package Driver_Check
begin

text \<open>
  \<open>eval_mm_speed\<close> against \<open>eval_mm_util\<close>, for an arbitrary package: both make the same calls
  of the package, so a trace that gets through the one gets through the other and leaves the
  same heap. Also what the three routines leave as it was, and the three of them in a row
  on one trace, as \<open>main\<close> runs them.
\<close>

section \<open>What the routines leave as it was\<close>

text \<open>The requests of the trace and the lengths of its arrays.\<close>

definition same_shape :: "trace_t \<Rightarrow> trace_t \<Rightarrow> bool" where
  "same_shape t t' \<longleftrightarrow>
     ops t' = ops t \<and> num_ops t' = num_ops t
     \<and> length (blocks t') = length (blocks t) \<and> length (block_sizes t') = length (block_sizes t)"

lemma same_shape_refl [simp]: "same_shape t t"
  by (simp add: same_shape_def)

lemma same_shape_trans: "same_shape t u \<Longrightarrow> same_shape u v \<Longrightarrow> same_shape t v"
  by (simp add: same_shape_def)

lemma set_block_shape:
  "set_block i p t = Some t' \<Longrightarrow> same_shape t t'"
  "set_block_size i n t = Some t' \<Longrightarrow> same_shape t t'"
  by (auto simp: set_block_def set_block_size_def set_elem_def same_shape_def split: if_split_asm)

text \<open>
  An iteration of \<open>eval_mm_valid\<close> that goes on reports nothing; one that returns 0 has
  reported one error, and no iteration returns anything else.
\<close>

lemma valid_op_Next:
  assumes "valid_op pk nodes tracenum i x (t, d) = Some (Next (t', d'))"
  shows "same_shape t t' \<and> quiet d d'"
proof (cases "op_type x")
  case ALLOC
  with assms show ?thesis
    by (auto simp: valid_op_def valid_alloc_def bind_eq_Some_conv Let_def quiet_def reports_def remove_range_def
        split: if_split_asm sum.split_asm prod.split_asm
        intro: same_shape_trans dest!: set_block_shape add_range_errors)
next
  case REALLOC
  with assms show ?thesis
    by (auto simp: valid_op_def valid_realloc_def bind_eq_Some_conv Let_def quiet_def reports_def remove_range_def
        split: if_split_asm sum.split_asm prod.split_asm
        intro: same_shape_trans dest!: set_block_shape add_range_errors)
next
  case FREE
  with assms show ?thesis
    by (auto simp: valid_op_def valid_free_def bind_eq_Some_conv Let_def quiet_def reports_def remove_range_def)
qed

lemma valid_op_Return:
  assumes "valid_op pk nodes tracenum i x (t, d) = Some (Return r (t', d'))"
  shows "r = 0 \<and> same_shape t t' \<and> reports tracenum d d'"
proof (cases "op_type x")
  case ALLOC
  with assms show ?thesis
    by (auto simp: valid_op_def valid_alloc_def bind_eq_Some_conv Let_def quiet_def reports_def remove_range_def
        split: if_split_asm sum.split_asm prod.split_asm dest!: add_range_errors)
next
  case REALLOC
  with assms show ?thesis
    by (auto simp: valid_op_def valid_realloc_def bind_eq_Some_conv Let_def quiet_def reports_def remove_range_def
        split: if_split_asm sum.split_asm prod.split_asm dest!: add_range_errors)
next
  case FREE
  with assms show ?thesis
    by (auto simp: valid_op_def valid_free_def bind_eq_Some_conv Let_def quiet_def reports_def remove_range_def)
qed

lemma util_op_frame:
  assumes "util_op pk i x ((t, d), c) = Some (Next ((t', d'), c'))"
  shows "same_shape t t' \<and> (\<exists>m. d' = d\<lparr>mach := m\<rparr>)"
proof (cases "op_type x")
  case ALLOC
  with assms show ?thesis
    by (auto simp: util_op_def util_alloc_def bind_eq_Some_conv Let_def
        split: if_split_asm prod.split_asm intro: same_shape_trans dest!: set_block_shape)
next
  case REALLOC
  with assms show ?thesis
    by (auto simp: util_op_def util_realloc_def bind_eq_Some_conv Let_def
        split: if_split_asm prod.split_asm intro: same_shape_trans dest!: set_block_shape)
next
  case FREE
  with assms show ?thesis
    by (auto simp: util_op_def util_free_def bind_eq_Some_conv Let_def)
qed

text \<open>What \<open>eval_mm_valid\<close> returns, for any package: 1 without an error, or 0 with one.\<close>

lemma valid_run_frame:
  assumes run: "for_ops (valid_op pk nodes tracenum) i n xs (t, d) = Some f"
  shows "case f of Next s \<Rightarrow> same_shape t (fst s) \<and> quiet d (snd s)
    | Return w s \<Rightarrow> w = 0 \<and> same_shape t (fst s) \<and> reports tracenum d (snd s)
    | Stop e s \<Rightarrow> True"
proof -
  let ?P = "\<lambda>s. same_shape t (fst s) \<and> quiet d (snd s)"
  have P: "?P s'" if "valid_op pk nodes tracenum i x s = Some (Next s')" "?P s" for i x s s'
    using valid_op_Next [of pk nodes tracenum i x "fst s" "snd s" "fst s'" "snd s'"] that
      same_shape_trans [of t "fst s" "fst s'"] quiet_trans by auto
  have R: "w = 0 \<and> same_shape t (fst s') \<and> reports tracenum d (snd s')"
    if "valid_op pk nodes tracenum i x s = Some (Return w s')" "?P s" for i x s w s'
    using valid_op_Return [of pk nodes tracenum i x "fst s" "snd s" w "fst s'" "snd s'"] that
      same_shape_trans [of t "fst s" "fst s'"] quiet_trans by auto
  have start: "?P (t, d)"
    by simp
  show ?thesis
  proof (cases f)
    case (Next s)
    have "?P s"
      by (rule for_ops_inv [where P = ?P, OF P _ start]) (use run Next in simp_all)
    with Next show ?thesis
      by simp
  next
    case (Return w s)
    have "w = 0 \<and> same_shape t (fst s) \<and> reports tracenum d (snd s)"
      by (rule for_ops_return [where P = ?P, OF P R _ start]) (use run Return in simp_all)
    with Return show ?thesis
      by simp
  qed simp
qed

lemma eval_mm_valid_Return:
  assumes "eval_mm_valid pk nodes tracenum (t, d) = Some (Return r (t', d'))"
  shows "same_shape t t' \<and> (r = 1 \<and> quiet d d' \<or> r = 0 \<and> reports tracenum d d')"
proof -
  let ?d = "clear_ranges (d\<lparr>mach := mem_reset_brk (mach d)\<rparr>)"
  have e: "quiet d ?d" "quiet d (?d\<lparr>mach := m\<rparr>)" for m
    by (simp_all add: quiet_def clear_ranges_def)
  obtain v m where init: "pk_init pk (mach ?d) = Some (v, m)"
    using assms by (auto simp: eval_mm_valid_def bind_eq_Some_conv Let_def)
  show ?thesis
  proof (cases "v < 0")
    case True
    with assms init show ?thesis
      by (auto simp: eval_mm_valid_def Let_def reports_def clear_ranges_def)
  next
    case False
    with assms init obtain f where
      f: "for_ops (valid_op pk nodes tracenum) 0 (nat (sint (num_ops t))) (ops t) (t, ?d\<lparr>mach := m\<rparr>) = Some f"
      "(case f of Next s \<Rightarrow> Return 1 s | f \<Rightarrow> f) = Return r (t', d')"
      by (auto simp: eval_mm_valid_def run_ops_def bind_eq_Some_conv Let_def)
    with valid_run_frame [OF f(1)] quiet_trans(1,2) [OF e(2)] show ?thesis
      by (cases f) auto
  qed
qed

text \<open>The run inside \<open>eval_mm_util\<close>.\<close>

lemma eval_mm_utilE:
  assumes "eval_mm_util pk rn (t, d) = Some (Inr (u, (t', d')))"
  obtains v m c where "pk_init pk (mem_reset_brk (mach d)) = Some (v, m)" "\<not> v < 0"
    "for_ops (util_op pk) 0 (nat (sint (num_ops t))) (ops t) ((t, d\<lparr>mach := m\<rparr>), \<lparr>total_size = 0, max_total_size = 0\<rparr>)
      = Some (Next ((t', d'), c))"
proof -
  obtain v m where init: "pk_init pk (mem_reset_brk (mach d)) = Some (v, m)" "\<not> v < 0"
    using assms by (auto simp: eval_mm_util_def bind_eq_Some_conv Let_def split: if_split_asm)
  let ?run = "for_ops (util_op pk) 0 (nat (sint (num_ops t))) (ops t)
    ((t, d\<lparr>mach := m\<rparr>), \<lparr>total_size = 0, max_total_size = 0\<rparr>)"
  from assms init obtain f where f: "?run = Some f"
    by (auto simp: eval_mm_util_def run_ops_def bind_eq_Some_conv Let_def)
  with assms init have "\<exists>c. f = Next ((t', d'), c)"
    by (cases f) (auto simp: eval_mm_util_def run_ops_def bind_eq_Some_conv Let_def)
  with f init that show thesis
    by blast
qed

lemma eval_mm_util_frame:
  assumes "eval_mm_util pk rn (t, d) = Some (Inr (u, (t', d')))"
  shows "same_shape t t' \<and> (\<exists>m. d' = d\<lparr>mach := m\<rparr>)"
proof (rule eval_mm_utilE [OF assms])
  fix v m c
  assume run: "for_ops (util_op pk) 0 (nat (sint (num_ops t))) (ops t)
      ((t, d\<lparr>mach := m\<rparr>), \<lparr>total_size = 0, max_total_size = 0\<rparr>) = Some (Next ((t', d'), c))"
  let ?P = "\<lambda>s :: 'a state \<times> totals. same_shape t (fst (fst s)) \<and> (\<exists>m. snd (fst s) = d\<lparr>mach := m\<rparr>)"
  have "?P ((t', d'), c)"
  proof (rule for_ops_inv [where P = ?P, OF _ run])
    show "?P s'" if "util_op pk i x s = Some (Next s')" "?P s" for i x s s'
      using util_op_frame [of pk i x "fst (fst s)" "snd (fst s)" "snd s" "fst (fst s')" "snd (fst s')" "snd s'"]
        same_shape_trans [of t "fst (fst s)" "fst (fst s')"] that by auto
  qed auto
  then show ?thesis
    by simp
qed

section \<open>The speed run follows the utilization run\<close>

definition same_run :: "('a state \<times> totals) \<Rightarrow> 'a state \<Rightarrow> bool" where
  "same_run = (\<lambda>((t, d), c) (u, e). e = d \<and> blocks u = blocks t)"

lemma set_block_blocks:
  assumes "set_block i p t = Some t'" "blocks u = blocks t"
  shows "\<exists>u'. set_block i p u = Some u' \<and> blocks u' = blocks t'"
  using assms by (auto simp: set_block_def)

lemma set_block_size_blocks: "set_block_size i n t = Some t' \<Longrightarrow> blocks t' = blocks t"
  by (auto simp: set_block_size_def)

lemma speed_op_follows:
  assumes "same_run s r" "util_op pk i x s = Some (Next s')"
  shows "\<exists>r'. speed_op pk i x r = Some (Next r') \<and> same_run s' r'"
proof -
  obtain t d c u where s: "s = ((t, d), c)" "r = (u, d)" and b: "blocks u = blocks t"
    using assms(1) by (cases s; cases r) (auto simp: same_run_def)
  show ?thesis
  proof (cases "op_type x")
    case ALLOC
    with assms(2) obtain p m t1 t2 v where "pk_malloc pk (op_size x) (mach d) = Some (p, m)" "p \<noteq> NULL"
      "set_block (op_index x) p t = Some t1" "set_block_size (op_index x) (op_size x) t1 = Some t2"
      "s' = ((t2, d\<lparr>mach := m\<rparr>), v)"
      by (auto simp: s util_op_def util_alloc_def bind_eq_Some_conv Let_def split: if_split_asm)
    with set_block_blocks [OF this(3) b] ALLOC show ?thesis
      by (auto simp: s same_run_def speed_op_def dest!: set_block_size_blocks)
  next
    case REALLOC
    with assms(2) obtain q p m t1 t2 v where "get_elem (blocks t) (op_index x) = Some q"
      "pk_realloc pk q (op_size x) (mach d) = Some (p, m)" "p \<noteq> NULL"
      "set_block (op_index x) p t = Some t1" "set_block_size (op_index x) (op_size x) t1 = Some t2"
      "s' = ((t2, d\<lparr>mach := m\<rparr>), v)"
      by (auto simp: s util_op_def util_realloc_def bind_eq_Some_conv Let_def split: if_split_asm)
    with set_block_blocks [OF this(4) b] REALLOC b show ?thesis
      by (auto simp: s same_run_def speed_op_def dest!: set_block_size_blocks)
  next
    case FREE
    with assms(2) b show ?thesis
      by (auto simp: s same_run_def speed_op_def util_op_def util_free_def bind_eq_Some_conv Let_def)
  qed
qed

lemma eval_mm_speed_follows:
  assumes "eval_mm_util pk rn (t, d) = Some (Inr (u, (t', d')))"
    and r: "ops r = ops t" "num_ops r = num_ops t" "blocks r = blocks t"
  shows "\<exists>r'. eval_mm_speed pk (r, d) = Some (Next (r', d')) \<and> blocks r' = blocks t'"
proof (rule eval_mm_utilE [OF assms(1)])
  fix v m c
  assume init: "pk_init pk (mem_reset_brk (mach d)) = Some (v, m)" "\<not> v < 0"
    and run: "for_ops (util_op pk) 0 (nat (sint (num_ops t))) (ops t)
      ((t, d\<lparr>mach := m\<rparr>), \<lparr>total_size = 0, max_total_size = 0\<rparr>) = Some (Next ((t', d'), c))"
  have "same_run ((t, d\<lparr>mach := m\<rparr>), \<lparr>total_size = 0, max_total_size = 0\<rparr>) (r, d\<lparr>mach := m\<rparr>)"
    by (simp add: same_run_def r)
  from for_ops_follow [where R = same_run, OF speed_op_follows run this] init r show ?thesis
    by (auto simp: eval_mm_speed_def run_ops_def same_run_def)
qed

lemma speed_op_frame:
  assumes "speed_op pk i x (t, d) = Some (Next (t', d'))"
  shows "same_shape t t' \<and> (\<exists>m. d' = d\<lparr>mach := m\<rparr>)"
  using assms
  by (cases "op_type x")
    (auto simp: speed_op_def bind_eq_Some_conv Let_def split: if_split_asm prod.split_asm dest!: set_block_shape(1))

lemma eval_mm_speed_frame:
  assumes "eval_mm_speed pk (t, d) = Some (Next (t', d'))"
  shows "same_shape t t' \<and> (\<exists>m. d' = d\<lparr>mach := m\<rparr>)"
proof -
  obtain v m where init: "pk_init pk (mem_reset_brk (mach d)) = Some (v, m)" "\<not> v < 0"
    using assms by (auto simp: eval_mm_speed_def bind_eq_Some_conv Let_def split: if_split_asm)
  with assms have run: "for_ops (speed_op pk) 0 (nat (sint (num_ops t))) (ops t) (t, d\<lparr>mach := m\<rparr>) = Some (Next (t', d'))"
    by (simp add: eval_mm_speed_def run_ops_def)
  let ?P = "\<lambda>s :: 'a state. same_shape t (fst s) \<and> (\<exists>m. snd s = d\<lparr>mach := m\<rparr>)"
  have "?P (t', d')"
  proof (rule for_ops_inv [where P = ?P, OF _ run])
    show "?P s'" if "speed_op pk i x s = Some (Next s')" "?P s" for i x s s'
      using speed_op_frame [of pk i x "fst s" "snd s" "fst s'" "snd s'"]
        same_shape_trans [of t "fst s" "fst s'"] that by auto
  qed auto
  then show ?thesis
    by simp
qed

section \<open>One trace after another\<close>

text \<open>
  A trace \<open>main\<close> can evaluate without running out of memory: it is well-formed, and the
  abstract heap \<open>hs\<close> of the package serves every request of it.
\<close>

definition trace_fits :: "'h heap_spec \<Rightarrow> nat \<Rightarrow> trace_t \<Rightarrow> bool" where
  "trace_fits hs limit t \<longleftrightarrow>
     sint (num_ops t) = int (length (ops t)) \<and> length (block_sizes t) = length (blocks t)
     \<and> length (blocks t) \<le> 2 ^ 31 \<and> ops t \<noteq> [] \<and> trace_wf limit (length (blocks t)) {} (ops t)
     \<and> fills_plain (ops t) \<and> serves hs (ops t)"

lemma trace_fits_shape: "same_shape t t' \<Longrightarrow> trace_fits hs limit t' = trace_fits hs limit t"
  by (simp add: same_shape_def trace_fits_def)

lemma trace_fits_high_water:
  assumes "trace_fits hs limit t"
  shows "0 < high_water (length (blocks t)) (\<lambda>_. 0) (ops t)"
proof (cases "ops t")
  case (Cons x xs)
  let ?k = "unat (op_index x)" and ?N = "after_op x (\<lambda>_. 0)" and ?ids = "length (blocks t)"
  have x: "?k < ?ids" "op_type x = ALLOC" "0 < unat (op_size x)"
    using assms Cons by (auto simp: trace_fits_def split: reqtype.split_asm)
  have "unat (op_size x) = ?N ?k"
    by (simp add: after_op_def x(2))
  also have "\<dots> \<le> (\<Sum>k < ?ids. ?N k)"
    by (rule member_le_sum) (use x(1) in auto)
  also have "\<dots> \<le> high_water ?ids ?N xs"
    by (rule high_water_start)
  finally show ?thesis
    using x(3) Cons by simp
qed (use assms in \<open>simp add: trace_fits_def\<close>)

text \<open>The storage of the memory system is in order, wherever the break is.\<close>

definition storage_ok :: "nat \<Rightarrow> 'a mem_scheme \<Rightarrow> bool" where
  "storage_ok n s \<longleftrightarrow> arena_ok (mem_reset_brk s) \<and> hi s + n \<le> 2 ^ 32"

lemma storage_ok_grows:
  assumes "storage_ok n s" "grows (mem_reset_brk s) s' k"
  shows "storage_ok n s'"
  using assms growsD(1,2) [OF assms(2)]
  by (simp add: storage_ok_def arena_ok_def mem_reset_brk_def)

lemma reset_twice [simp]: "mem_reset_brk (mem_reset_brk s) = mem_reset_brk s"
  by (simp add: mem_reset_brk_def)

lemma eval_mm_reset:
  "eval_mm_valid pk nodes tracenum (t, d\<lparr>mach := mem_reset_brk (mach d)\<rparr>) = eval_mm_valid pk nodes tracenum (t, d)"
  "eval_mm_util pk rn (t, d\<lparr>mach := mem_reset_brk (mach d)\<rparr>) = eval_mm_util pk rn (t, d)"
  by (simp_all add: eval_mm_valid_def eval_mm_util_def cong: if_cong)

context exact_package
begin

lemma valid_fits:
  assumes "storage_ok (limit + slack) (mach d)" "trace_fits hs limit t" "limit < 2 ^ 31" "\<And>i. nodes i"
  shows "\<exists>t' d'. eval_mm_valid pk nodes tracenum (t, d) = Some (Return 1 (t', d'))
    \<and> same_shape t t' \<and> storage_ok (limit + slack) (mach d') \<and> errors d' = errors d \<and> log d' = log d"
proof -
  let ?d = "d\<lparr>mach := mem_reset_brk (mach d)\<rparr>"
  have s: "arena_ok (mach ?d)" "hi (mach ?d) + limit + slack \<le> 2 ^ 32" "serves hs (ops t)"
    using assms(1,2) by (simp_all add: storage_ok_def trace_fits_def mem_reset_brk_def)
  obtain t' d' where r: "eval_mm_valid pk nodes tracenum (t, d) = Some (Return 1 (t', d'))"
    "errors d' = errors d" "log d' = log d" "grows (mem_reset_brk (mach d)) (mach d') (slack + demand slack (ops t))"
    using eval_mm_valid_sound [OF s(1,2), of t nodes tracenum] s(3) assms(2-4)
    by (auto simp: eval_mm_reset trace_fits_def)
  with eval_mm_valid_Return [OF r(1)] storage_ok_grows [OF assms(1) r(4)] show ?thesis
    by blast
qed

lemma util_fits:
  assumes "storage_ok (limit + slack) (mach d)" "trace_fits hs limit t" "limit < 2 ^ 31"
  shows "\<exists>t' d' size. eval_mm_util pk rnd (t, d)
      = Some (Inr (rnd (real (high_water (length (blocks t)) (\<lambda>_. 0) (ops t)) / real size), (t', d')))
    \<and> high_water (length (blocks t)) (\<lambda>_. 0) (ops t) \<le> size
    \<and> same_shape t t' \<and> storage_ok (limit + slack) (mach d') \<and> (\<exists>m. d' = d\<lparr>mach := m\<rparr>)"
proof -
  let ?d = "d\<lparr>mach := mem_reset_brk (mach d)\<rparr>" and ?h = "high_water (length (blocks t)) (\<lambda>_. 0) (ops t)"
  have s: "arena_ok (mach ?d)" "hi (mach ?d) + limit + slack \<le> 2 ^ 32" "serves hs (ops t)"
    using assms(1,2) by (simp_all add: storage_ok_def trace_fits_def mem_reset_brk_def)
  obtain t' d' size where r: "eval_mm_util pk rnd (t, d) = Some (Inr (rnd (real ?h / real size), (t', d')))"
    "?h \<le> size" "grows (mem_reset_brk (mach d)) (mach d') (slack + demand slack (ops t))"
    using eval_mm_util_value [OF s(1,2), of t rnd] s(3) assms(2,3) trace_fits_high_water [OF assms(2)]
    by (auto simp: eval_mm_reset trace_fits_def)
  with eval_mm_util_frame [OF r(1)] storage_ok_grows [OF assms(1) r(3)] show ?thesis
    by blast
qed

lemma speed_fits:
  assumes "storage_ok (limit + slack) (mach d)" "trace_fits hs limit t" "limit < 2 ^ 31"
  shows "\<exists>t' d'. eval_mm_speed pk (t, d) = Some (Next (t', d'))
    \<and> same_shape t t' \<and> storage_ok (limit + slack) (mach d') \<and> (\<exists>m. d' = d\<lparr>mach := m\<rparr>)"
proof -
  obtain u t1 d' where u: "eval_mm_util pk (\<lambda>x. x) (t, d) = Some (Inr (u, (t1, d')))"
    "storage_ok (limit + slack) (mach d')"
    using util_fits [OF assms, of "\<lambda>x. x"] by blast
  from eval_mm_speed_follows [OF u(1)] obtain t' where t': "eval_mm_speed pk (t, d) = Some (Next (t', d'))"
    by blast
  with eval_mm_speed_frame [OF t'] u(2) show ?thesis
    by blast
qed

end

end
