(* ===== verification/Report.thy ===== *)
theory Report
  imports Prelude
begin

text \<open>
  The statistics of \<open>mdriver.c\<close>: the table of \<open>printresults\<close>, the totals over all traces and
  the performance index. Numbers of type \<open>double\<close> are reals rounded by \<open>rn\<close> after every
  operation; a quotient may also be infinite or not a number, and the sign of a zero does
  not matter here.
\<close>

section \<open>Statistics of a trace\<close>

record stats_t =
  st_ops :: real
  st_valid :: int
  st_secs :: real
  st_util :: real

text \<open>What \<open>calloc\<close> delivers.\<close>

definition no_stats :: stats_t where
  "no_stats = \<lparr>st_ops = 0, st_valid = 0, st_secs = 0, st_util = 0\<rparr>"

datatype double = Fin real | PosInf | NegInf | NaN

definition double_quotient :: "(real \<Rightarrow> real) \<Rightarrow> real \<Rightarrow> real \<Rightarrow> double" where
  "double_quotient rn a b =
     (if b \<noteq> 0 then Fin (rn (a / b))
      else if a > 0 then PosInf else if a < 0 then NegInf else NaN)"

section \<open>\<open>printresults\<close>\<close>

text \<open>A line of the table: the numbers handed to \<open>printf\<close>, or dashes.\<close>

datatype row = Yes int real real real double | No int

fun table_rows :: "(real \<Rightarrow> real) \<Rightarrow> int \<Rightarrow> stats_t list \<Rightarrow> row list" where
  "table_rows rn i [] = []"
| "table_rows rn i (s # ss) =
     (if st_valid s \<noteq> 0
      then Yes i (rn (st_util s * 100)) (st_ops s) (st_secs s) (double_quotient rn (rn (st_ops s / 1000)) (st_secs s))
      else No i) # table_rows rn (i + 1) ss"

record agg =
  agg_secs :: real
  agg_ops :: real
  agg_util :: real

fun table_agg :: "(real \<Rightarrow> real) \<Rightarrow> stats_t list \<Rightarrow> agg \<Rightarrow> agg" where
  "table_agg rn [] a = a"
| "table_agg rn (s # ss) a =
     table_agg rn ss
       (if st_valid s \<noteq> 0
        then \<lparr>agg_secs = rn (agg_secs a + st_secs s), agg_ops = rn (agg_ops a + st_ops s),
              agg_util = rn (agg_util a + st_util s)\<rparr>
        else a)"

text \<open>The mean utilization is multiplied by 100 even when it is not a number.\<close>

definition double_times :: "(real \<Rightarrow> real) \<Rightarrow> real \<Rightarrow> double \<Rightarrow> double" where
  "double_times rn a x =
     (case x of Fin r \<Rightarrow> Fin (rn (a * r))
      | PosInf \<Rightarrow> if a > 0 then PosInf else if a < 0 then NegInf else NaN
      | NegInf \<Rightarrow> if a > 0 then NegInf else if a < 0 then PosInf else NaN
      | NaN \<Rightarrow> NaN)"

record table =
  tb_rows :: "row list"
  tb_total :: "(double \<times> real \<times> real \<times> double) option"  \<comment> \<open>\<open>None\<close>: dashes\<close>

definition printresults :: "(real \<Rightarrow> real) \<Rightarrow> int \<Rightarrow> int \<Rightarrow> stats_t list \<Rightarrow> table" where
  "printresults rn errs n stats =
     (let a = table_agg rn stats \<lparr>agg_secs = 0, agg_ops = 0, agg_util = 0\<rparr>
      in \<lparr>tb_rows = table_rows rn 0 stats,
          tb_total =
            (if errs = 0
             then Some (double_times rn 100 (double_quotient rn (agg_util a) (of_int n)), agg_ops a, agg_secs a,
                        double_quotient rn (rn (agg_ops a / 1000)) (agg_secs a))
             else None)\<rparr>)"

section \<open>The totals and the performance index\<close>

text \<open>The loop over all traces, valid or not.\<close>

fun accumulate :: "(real \<Rightarrow> real) \<Rightarrow> stats_t list \<Rightarrow> agg \<times> int \<Rightarrow> agg \<times> int" where
  "accumulate rn [] (a, numcorrect) = (a, numcorrect)"
| "accumulate rn (s # ss) (a, numcorrect) =
     accumulate rn ss
       (\<lparr>agg_secs = rn (agg_secs a + st_secs s), agg_ops = rn (agg_ops a + st_ops s),
         agg_util = rn (agg_util a + st_util s)\<rparr>,
        if st_valid s \<noteq> 0 then numcorrect + 1 else numcorrect)"

definition AVG_LIBC_THRUPUT :: real where "AVG_LIBC_THRUPUT = 600000"

definition UTIL_WEIGHT :: "(real \<Rightarrow> real) \<Rightarrow> real" where
  "UTIL_WEIGHT rn = rn (60 / 100)"

definition double_above :: "double \<Rightarrow> real \<Rightarrow> bool" where
  "double_above x b = (case x of Fin r \<Rightarrow> r > b | PosInf \<Rightarrow> True | NegInf \<Rightarrow> False | NaN \<Rightarrow> False)"

definition double_plus :: "(real \<Rightarrow> real) \<Rightarrow> double \<Rightarrow> double \<Rightarrow> double" where
  "double_plus rn x y =
     (case (x, y) of
        (Fin a, Fin b) \<Rightarrow> Fin (rn (a + b))
      | (NaN, _) \<Rightarrow> NaN | (_, NaN) \<Rightarrow> NaN
      | (PosInf, NegInf) \<Rightarrow> NaN | (NegInf, PosInf) \<Rightarrow> NaN
      | (PosInf, _) \<Rightarrow> PosInf | (_, PosInf) \<Rightarrow> PosInf
      | (NegInf, _) \<Rightarrow> NegInf | (_, NegInf) \<Rightarrow> NegInf)"

record performance =
  pf_util :: double
  pf_thru :: double
  pf_index :: double

text \<open>\<open>x / c\<close> for a positive constant \<open>c\<close>.\<close>

definition double_over :: "(real \<Rightarrow> real) \<Rightarrow> double \<Rightarrow> real \<Rightarrow> double" where
  "double_over rn x c = (case x of Fin r \<Rightarrow> Fin (rn (r / c)) | x \<Rightarrow> x)"

definition perf :: "(real \<Rightarrow> real) \<Rightarrow> int \<Rightarrow> agg \<Rightarrow> performance" where
  "perf rn num_tracefiles a =
     (let avg_mm_util = double_quotient rn (agg_util a) (of_int num_tracefiles);
          avg_mm_throughput = double_quotient rn (agg_ops a) (agg_secs a);
          p1 = double_times rn (UTIL_WEIGHT rn) avg_mm_util;
          rest = rn (1 - UTIL_WEIGHT rn);
          p2 = (if double_above avg_mm_throughput AVG_LIBC_THRUPUT then Fin rest
                else double_times rn rest (double_over rn avg_mm_throughput AVG_LIBC_THRUPUT));
          perfindex = double_times rn 100 (double_plus rn p1 p2)
      in \<lparr>pf_util = p1, pf_thru = p2, pf_index = perfindex\<rparr>)"

section \<open>Facts\<close>

text \<open>
  What is assumed of the rounding: it is monotone, and exact on its own results, on integers up to \<open>n\<close> and on the
  difference of 1 and the weight (which is at least half as large as 1).
\<close>

definition rounding :: "nat \<Rightarrow> (real \<Rightarrow> real) \<Rightarrow> bool" where
  "rounding n rn \<longleftrightarrow>
     (\<forall>x y. x \<le> y \<longrightarrow> rn x \<le> rn y) \<and> (\<forall>x. rn (rn x) = rn x) \<and> (\<forall>k \<le> n. rn (real k) = real k)
     \<and> rn (1 - rn (60 / 100)) = 1 - rn (60 / 100)"

lemma rounding_mono: "rounding n rn \<Longrightarrow> x \<le> y \<Longrightarrow> rn x \<le> rn y"
  by (simp add: rounding_def)

lemma rounding_nat: "rounding n rn \<Longrightarrow> k \<le> n \<Longrightarrow> rn (real k) = real k"
  by (simp add: rounding_def)

lemma rounding_between:
  assumes "rounding n rn" "real j \<le> x" "x \<le> real k" "j \<le> n" "k \<le> n"
  shows "real j \<le> rn x" "rn x \<le> real k"
  using rounding_mono [OF assms(1,2)] rounding_mono [OF assms(1,3)] rounding_nat [OF assms(1)] assms(4,5)
  by simp_all

lemma rounding_unit:
  assumes "rounding n rn" "0 \<le> x" "x \<le> 1" "1 \<le> n"
  shows "0 \<le> rn x" "rn x \<le> 1"
  using rounding_between [OF assms(1), of 0 x 1] assms(2-4) by simp_all

lemma rounding_nonneg: "rounding n rn \<Longrightarrow> 0 \<le> x \<Longrightarrow> 0 \<le> rn x"
  using rounding_mono [of n rn 0 x] rounding_nat [of n rn 0] by simp

definition good_stats :: "stats_t \<Rightarrow> bool" where
  "good_stats s \<longleftrightarrow> 0 \<le> st_ops s \<and> 0 \<le> st_secs s \<and> 0 \<le> st_util s \<and> st_util s \<le> 1"

lemma accumulate_bounds:
  assumes "rounding n rn" "list_all good_stats ss" "m + length ss \<le> n"
    and "0 \<le> agg_secs a" "0 \<le> agg_ops a" "0 \<le> agg_util a" "agg_util a \<le> real m"
  shows "0 \<le> agg_secs (fst (accumulate rn ss (a, c))) \<and> 0 \<le> agg_ops (fst (accumulate rn ss (a, c)))
    \<and> 0 \<le> agg_util (fst (accumulate rn ss (a, c)))
    \<and> agg_util (fst (accumulate rn ss (a, c))) \<le> real (m + length ss)"
  using assms(2-)
proof (induction ss arbitrary: a c m)
  case (Cons s ss)
  let ?a = "\<lparr>agg_secs = rn (agg_secs a + st_secs s), agg_ops = rn (agg_ops a + st_ops s),
         agg_util = rn (agg_util a + st_util s)\<rparr>"
  have g: "good_stats s" "list_all good_stats ss"
    using Cons.prems(1) by simp_all
  then have s: "0 \<le> st_ops s" "0 \<le> st_secs s" "0 \<le> st_util s" "st_util s \<le> 1"
    by (simp_all add: good_stats_def)
  have "0 \<le> agg_secs ?a" "0 \<le> agg_ops ?a" "0 \<le> agg_util ?a" "agg_util ?a \<le> real (Suc m)"
    using rounding_nonneg [OF assms(1)] rounding_between(2) [OF assms(1), of 0 "agg_util a + st_util s" "Suc m"]
      Cons.prems s by simp_all
  with Cons.IH [OF g(2), of "Suc m" ?a] Cons.prems(2) show ?case
    by simp
qed simp

lemma accumulate_count:
  "snd (accumulate rn ss (a, c)) = c + int (length (filter (\<lambda>s. st_valid s \<noteq> 0) ss))"
  by (induction ss arbitrary: a c) simp_all

text \<open>A weight times a number between 0 and 1 stays between 0 and the weight.\<close>

lemma rounding_scale:
  assumes "rounding n rn" "0 \<le> c" "rn c = c" "0 \<le> x" "x \<le> 1"
  shows "0 \<le> rn (c * x)" "rn (c * x) \<le> c"
  using rounding_mono [OF assms(1), of "c * x" c] rounding_nonneg [OF assms(1), of "c * x"] assms(2-)
  by (simp_all add: mult_left_le)

text \<open>The contribution of the throughput, for the weight \<open>w\<close>.\<close>

lemma throughput_bounds:
  assumes rn: "rounding n rn" "1 \<le> n" and w: "0 \<le> w" "rn w = w"
    and a: "0 \<le> agg_secs a" "0 \<le> agg_ops a" "0 < agg_secs a \<or> 0 < agg_ops a"
  defines "thr \<equiv> double_quotient rn (agg_ops a) (agg_secs a)"
  shows "\<exists>p2. (if double_above thr AVG_LIBC_THRUPUT then Fin w
      else double_times rn w (double_over rn thr AVG_LIBC_THRUPUT)) = Fin p2 \<and> 0 \<le> p2 \<and> p2 \<le> w"
proof (cases "double_above thr AVG_LIBC_THRUPUT")
  case False
  then have "agg_secs a \<noteq> 0"
    using a by (auto simp: double_above_def double_quotient_def thr_def)
  then have thr: "thr = Fin (rn (agg_ops a / agg_secs a))"
    by (simp add: double_quotient_def thr_def)
  let ?x = "rn (agg_ops a / agg_secs a)"
  have "0 \<le> ?x"
    using rounding_nonneg [OF rn(1)] a by simp
  with False thr rounding_unit [OF rn(1), of "?x / AVG_LIBC_THRUPUT"] rn(2)
  have "0 \<le> rn (?x / AVG_LIBC_THRUPUT)" "rn (?x / AVG_LIBC_THRUPUT) \<le> 1"
    by (simp_all add: double_above_def AVG_LIBC_THRUPUT_def)
  with rounding_scale [OF rn(1) w] False thr show ?thesis
    by (simp add: double_times_def double_over_def)
qed (use w in simp)

text \<open>The index lies between 0 and 100.\<close>

lemma perf_bounds:
  assumes rn: "rounding n rn" "100 \<le> n" and num: "0 < k"
    and a: "0 \<le> agg_secs a" "0 \<le> agg_ops a" "0 \<le> agg_util a" "agg_util a \<le> of_int k"
    and ne: "0 < agg_secs a \<or> 0 < agg_ops a"
  shows "\<exists>x. pf_index (perf rn k a) = Fin x \<and> 0 \<le> x \<and> x \<le> 100"
proof -
  define w where "w = UTIL_WEIGHT rn"
  have w: "0 \<le> w" "w \<le> 1" "rn (1 - w) = 1 - w" "rn w = w"
    using rounding_unit [OF rn(1), of "60 / 100"] rn by (simp_all add: w_def UTIL_WEIGHT_def rounding_def)
  have unit: "0 \<le> rn x" "rn x \<le> 1" if "0 \<le> x" "x \<le> 1" for x
    using rounding_unit [OF rn(1) that] rn(2) by simp_all
  let ?u = "rn (agg_util a / of_int k)" and ?thr = "double_quotient rn (agg_ops a) (agg_secs a)"
  have "0 \<le> ?u" "?u \<le> 1"
    using unit [of "agg_util a / of_int k"] a(3,4) num by simp_all
  then have p1: "0 \<le> rn (w * ?u)" "rn (w * ?u) \<le> w"
    using rounding_scale [OF rn(1) w(1,4)] by simp_all
  obtain p2 where p2: "(if double_above ?thr AVG_LIBC_THRUPUT then Fin (1 - w)
      else double_times rn (1 - w) (double_over rn ?thr AVG_LIBC_THRUPUT)) = Fin p2" "0 \<le> p2" "p2 \<le> 1 - w"
    using throughput_bounds [OF rn(1) _ _ w(3) a(1,2) ne] rn(2) w(2) by auto
  let ?z = "rn (rn (w * ?u) + p2)"
  have "0 \<le> ?z" "?z \<le> 1"
    using unit [of "rn (w * ?u) + p2"] p1 p2(2,3) by simp_all
  then have "0 \<le> rn (100 * ?z)" "rn (100 * ?z) \<le> 100"
    using rounding_scale [OF rn(1), of 100 ?z] rounding_nat [OF rn(1), of 100] rn(2) by simp_all
  moreover have "double_times rn w (double_quotient rn (agg_util a) (of_int k)) = Fin (rn (w * ?u))"
    using num by (simp add: double_quotient_def double_times_def)
  then have "perf rn k a = \<lparr>pf_util = Fin (rn (w * ?u)), pf_thru = Fin p2,
      pf_index = double_times rn 100 (double_plus rn (Fin (rn (w * ?u))) (Fin p2))\<rparr>"
    by (simp only: perf_def Let_def w_def [symmetric] w(3) p2(1))
  then have "pf_index (perf rn k a) = Fin (rn (100 * ?z))"
    by (simp add: double_plus_def double_times_def)
  ultimately show ?thesis
    by blast
qed

text \<open>The index over a list of traces.\<close>

lemma index_bounds:
  assumes "rounding n rn" "100 \<le> n" "list_all good_stats sts" "sts \<noteq> []" "length sts \<le> n"
    and "accumulate rn sts (\<lparr>agg_secs = 0, agg_ops = 0, agg_util = 0\<rparr>, 0) = (a, numcorrect)"
    and "0 < agg_secs a \<or> 0 < agg_ops a"
  shows "\<exists>x. pf_index (perf rn (int (length sts)) a) = Fin x \<and> 0 \<le> x \<and> x \<le> 100"
proof (rule perf_bounds [OF assms(1,2)])
  show "0 \<le> agg_secs a" "0 \<le> agg_ops a" "0 \<le> agg_util a" "agg_util a \<le> of_int (int (length sts))"
    using accumulate_bounds [OF assms(1,3), of 0 "\<lparr>agg_secs = 0, agg_ops = 0, agg_util = 0\<rparr>" 0] assms(5,6) by simp_all
qed (use assms in auto)

text \<open>Without a request and without any time the throughput is 0/0.\<close>

lemma perf_nan:
  "agg_secs a = 0 \<Longrightarrow> agg_ops a = 0 \<Longrightarrow> 0 < k \<Longrightarrow> pf_index (perf rn k a) = NaN"
  by (simp add: perf_def Let_def double_quotient_def double_above_def double_over_def double_times_def
      double_plus_def split: double.splits)

lemma index_cases:
  assumes "rounding n rn" "100 \<le> n" "list_all good_stats sts" "sts \<noteq> []" "length sts \<le> n"
    and "accumulate rn sts (\<lparr>agg_secs = 0, agg_ops = 0, agg_util = 0\<rparr>, 0) = (a, numcorrect)"
  shows "(agg_secs a = 0 \<and> agg_ops a = 0 \<and> pf_index (perf rn (int (length sts)) a) = NaN)
    \<or> ((0 < agg_secs a \<or> 0 < agg_ops a)
        \<and> (\<exists>x. pf_index (perf rn (int (length sts)) a) = Fin x \<and> 0 \<le> x \<and> x \<le> 100))"
proof -
  have "0 \<le> agg_secs a" "0 \<le> agg_ops a"
    using accumulate_bounds [OF assms(1,3), of 0 "\<lparr>agg_secs = 0, agg_ops = 0, agg_util = 0\<rparr>" 0] assms(5,6)
    by simp_all
  then consider "agg_secs a = 0" "agg_ops a = 0" | "0 < agg_secs a \<or> 0 < agg_ops a"
    by fastforce
  then show ?thesis
  proof cases
    case 1
    then show ?thesis
      using perf_nan [of a "int (length sts)" rn] assms(4) by simp
  next
    case 2
    then show ?thesis
      using index_bounds [OF assms] by simp
  qed
qed

lemma accumulate_ops:
  assumes "rounding n rn" "1 \<le> n" "list_all (\<lambda>s. 1 \<le> st_ops s) ss"
  shows "0 \<le> agg_ops a \<Longrightarrow> ss \<noteq> [] \<or> 1 \<le> agg_ops a \<Longrightarrow> 1 \<le> agg_ops (fst (accumulate rn ss (a, c)))"
  using assms(3)
proof (induction ss arbitrary: a c)
  case (Cons s ss)
  have "rn 1 = 1"
    using rounding_nat [OF assms(1,2)] by simp
  moreover have "rn 1 \<le> rn (agg_ops a + st_ops s)"
    by (rule rounding_mono [OF assms(1)]) (use Cons.prems in simp)
  ultimately show ?case
    using Cons by simp
qed simp

text \<open>With exact arithmetic: 60 points for the utilization and 40 for the throughput, capped.\<close>

lemma perf_exact:
  assumes "0 < k" "0 < agg_secs a"
  shows "pf_index (perf (\<lambda>x. x) k a) =
    Fin (60 * (agg_util a / of_int k) + 40 * min 1 (agg_ops a / agg_secs a / AVG_LIBC_THRUPUT))"
proof -
  let ?t = "agg_ops a / agg_secs a"
  have c: "double_above (Fin x) AVG_LIBC_THRUPUT \<longleftrightarrow> 1 < x / AVG_LIBC_THRUPUT" for x
    by (simp add: double_above_def AVG_LIBC_THRUPUT_def)
  have q: "double_quotient (\<lambda>x. x) (agg_ops a) (agg_secs a) = Fin ?t"
    "double_quotient (\<lambda>x. x) (agg_util a) (of_int k) = Fin (agg_util a / of_int k)"
    using assms by (simp_all add: double_quotient_def)
  have "pf_index (perf (\<lambda>x. x) k a) = double_times (\<lambda>x. x) 100
      (double_plus (\<lambda>x. x) (Fin (60 / 100 * (agg_util a / of_int k)))
        (if 1 < ?t / AVG_LIBC_THRUPUT then Fin (1 - 60 / 100) else Fin ((1 - 60 / 100) * (?t / AVG_LIBC_THRUPUT))))"
    by (simp only: perf_def Let_def q c UTIL_WEIGHT_def double_times_def double_over_def double.case performance.simps)
  also have "\<dots> = Fin (60 * (agg_util a / of_int k) + 40 * min 1 (?t / AVG_LIBC_THRUPUT))"
    by (auto simp: double_plus_def double_times_def min_def algebra_simps)
  finally show ?thesis .
qed

text \<open>When every trace is valid, the table adds up what the performance index is made of.\<close>

lemma table_agg_valid:
  "list_all (\<lambda>s. st_valid s \<noteq> 0) ss \<Longrightarrow> table_agg rn ss a = fst (accumulate rn ss (a, c))"
  by (induction ss arbitrary: a c) simp_all

end
