(* ===== verification/Printf.thy ===== *)
theory Printf
  imports Scanf Report
begin

text \<open>
  The conversions of \<open>printf\<close> that \<open>mdriver.c\<close> uses: \<open>%d\<close>, \<open>%.nf\<close> and the field width of
  \<open>%2d\<close>, \<open>%10s\<close>, \<open>%5.0f\<close> and so on. A \<open>double\<close> is printed exactly: rounded to the given number
  of decimal places, a number half way between two to the even one. The C standard leaves it
  open how something that is not a number is printed; that text is the parameter \<open>nan\<close>.
\<close>

section \<open>Conversions\<close>

text \<open>\<open>%d\<close>\<close>

definition show_int :: "int \<Rightarrow> string" where
  "show_int i = (if i < 0 then CHR ''-'' # decimal (nat (- i)) else decimal (nat i))"

text \<open>A field of \<open>w\<close> characters, filled with spaces on the left.\<close>

definition pad :: "nat \<Rightarrow> string \<Rightarrow> string" where
  "pad w s = replicate (w - length s) (CHR '' '') @ s"

text \<open>The nearest integer, for numbers that are not negative.\<close>

definition round_even :: "real \<Rightarrow> nat" where
  "round_even x =
     (let n = nat \<lfloor>x\<rfloor>; r = x - real n in
      if r < 1 / 2 then n else if r > 1 / 2 then n + 1 else if even n then n else n + 1)"

text \<open>The last \<open>d\<close> digits of a number, with leading zeros.\<close>

fun last_digits :: "nat \<Rightarrow> nat \<Rightarrow> string" where
  "last_digits 0 n = []"
| "last_digits (Suc d) n = last_digits d (n div 10) @ [digit (n mod 10)]"

text \<open>\<open>%.df\<close>\<close>

definition fixed :: "nat \<Rightarrow> real \<Rightarrow> string" where
  "fixed d x =
     (let n = round_even (\<bar>x\<bar> * 10 ^ d) in
      (if x < 0 then ''-'' else '''') @ decimal (n div 10 ^ d)
        @ (if d = 0 then '''' else CHR ''.'' # last_digits d n))"

definition fixed_double :: "string \<Rightarrow> nat \<Rightarrow> double \<Rightarrow> string" where
  "fixed_double nan d x =
     (case x of Fin r \<Rightarrow> fixed d r | PosInf \<Rightarrow> ''inf'' | NegInf \<Rightarrow> ''-inf'' | NaN \<Rightarrow> nan)"

section \<open>Lengths\<close>

lemma length_pad: "length (pad w s) = max w (length s)"
  by (simp add: pad_def)

lemma length_decimal:
  assumes "n < 10 ^ Suc k"
  shows "length (decimal n) \<le> Suc k"
  using assms
proof (induction k arbitrary: n)
  case 0
  then show ?case
    by (subst decimal.simps) simp
next
  case (Suc k)
  then have "n div 10 < 10 ^ Suc k"
    by (simp add: div_less_iff_less_mult mult.commute)
  with Suc.IH [of "n div 10"] show ?case
    by (subst decimal.simps) simp
qed

lemma length_show_int:
  assumes "0 \<le> i" "i < 10 ^ Suc k"
  shows "length (show_int i) \<le> Suc k"
proof -
  have "int (nat i) < int (10 ^ Suc k)"
    using assms by simp
  then have "nat i < 10 ^ Suc k"
    by (simp only: of_nat_less_iff)
  with assms(1) show ?thesis
    using length_decimal by (simp add: show_int_def)
qed

lemma length_last_digits [simp]: "length (last_digits d n) = d"
  by (induction d arbitrary: n) simp_all

lemma round_even_le:
  assumes "0 \<le> x" "x \<le> real k"
  shows "round_even x \<le> k"
proof (cases "x = real k")
  case True
  then show ?thesis
    by (simp add: round_even_def)
next
  case False
  have "nat \<lfloor>x\<rfloor> < k"
    using False assms by (simp add: nat_less_iff floor_less_iff)
  then show ?thesis
    by (simp add: round_even_def Let_def)
qed

lemma round_even_nat [simp]: "round_even (real k) = k"
  by (simp add: round_even_def)

text \<open>The error is at most half a unit.\<close>

lemma round_even_near:
  assumes "0 \<le> x"
  shows "\<bar>real (round_even x) - x\<bar> \<le> 1 / 2"
proof -
  define n where "n = nat \<lfloor>x\<rfloor>"
  have "real n \<le> x" "x < real n + 1"
    unfolding n_def using assms by linarith+
  then show ?thesis
    unfolding round_even_def n_def [symmetric] Let_def by (auto simp: abs_le_iff)
qed

lemma length_fixed:
  assumes "0 \<le> x" "x * 10 ^ d \<le> real (10 ^ (Suc k + d) - 1)"
  shows "length (fixed d x) \<le> Suc k + (if d = 0 then 0 else Suc d)"
proof -
  let ?n = "round_even (x * 10 ^ d)"
  have "?n \<le> 10 ^ (Suc k + d) - 1"
    by (rule round_even_le) (use assms in simp_all)
  moreover have "0 < (10 :: nat) ^ (Suc k + d)"
    by simp
  ultimately have "?n < 10 ^ Suc k * 10 ^ d"
    by (simp only: power_add)
  then have "?n div 10 ^ d < 10 ^ Suc k"
    by (simp only: div_less_iff_less_mult zero_less_power zero_less_numeral)
  then have "length (decimal (?n div 10 ^ d)) \<le> Suc k"
    by (rule length_decimal)
  with assms(1) show ?thesis
    by (cases "d = 0") (simp_all add: fixed_def Let_def)
qed

section \<open>Numbers read back\<close>

lemma fixed_0: "0 \<le> x \<Longrightarrow> fixed 0 x = decimal (round_even x)"
  by (simp add: fixed_def)

lemma scan_decimal: "stops r \<Longrightarrow> scan_number (decimal n @ r) = Got (False, n) r"
  using scan_number_decimal [of "[]" r n] by simp

end
