(* ===== verification/Getopt.thy ===== *)
theory Getopt
  imports Prelude
begin

text \<open>
  \<open>getopt\<close> of the C library as \<open>main\<close> in \<open>mdriver.c\<close> uses it: option letters may be grouped
  in one argument, an option's own argument is the rest of its group or the next argument,
  and \<open>--\<close> ends the options. By default the GNU version passes over other arguments, with
  \<open>POSIXLY_CORRECT\<close> in the environment (\<open>posix\<close>) it stops at the first of them.
\<close>

section \<open>One call\<close>

definition main_optstring :: string where "main_optstring = ''f:t:hvVgal''"

text \<open>Is \<open>c\<close> an option letter, and has it an argument?\<close>

fun find_opt :: "char \<Rightarrow> string \<Rightarrow> bool option" where
  "find_opt c [] = None"
| "find_opt c (d # ds) =
     (if c = d \<and> c \<noteq> CHR '':'' then Some (ds \<noteq> [] \<and> hd ds = CHR '':'') else find_opt c ds)"

text \<open>The next argument with option letters, and the arguments after it.\<close>

fun next_element :: "bool \<Rightarrow> string list \<Rightarrow> (string \<times> string list) option" where
  "next_element posix [] = None"
| "next_element posix (a # as) =
     (if a = ''--'' then None
      else if 2 \<le> length a \<and> hd a = CHR ''-'' then Some (tl a, as)
      else if posix then None
      else next_element posix as)"

text \<open>
  The state between two calls is the rest of the current group of letters with the arguments
  not yet looked at. The result is the letter and \<open>optarg\<close>, and \<open>None\<close> the end of the
  options; an unknown letter and a missing argument give a question mark.
\<close>

type_synonym getopt_state = "string \<times> string list"

definition getopt :: "bool \<Rightarrow> string \<Rightarrow> getopt_state \<Rightarrow> ((char \<times> string) \<times> getopt_state) option" where
  "getopt posix opts = (\<lambda>(nxt, args).
     case (if nxt = [] then next_element posix args else Some (nxt, args)) of
       None \<Rightarrow> None
     | Some ([], args) \<Rightarrow> None
     | Some (c # cs, args) \<Rightarrow>
        (case find_opt c opts of
           None \<Rightarrow> Some ((CHR ''?'', []), (cs, args))
         | Some False \<Rightarrow> Some ((c, []), (cs, args))
         | Some True \<Rightarrow>
             if cs \<noteq> [] then Some ((c, cs), ([], args))
             else (case args of
                 [] \<Rightarrow> Some ((CHR ''?'', []), ([], []))
               | a # as \<Rightarrow> Some ((c, a), ([], as)))))"

section \<open>All calls\<close>

definition letters_left :: "getopt_state \<Rightarrow> nat" where
  "letters_left = (\<lambda>(nxt, args). length nxt + sum_list (map (\<lambda>a. Suc (length a)) args))"

lemma tl_not_Nil: "2 \<le> length a \<Longrightarrow> tl a = [] \<longleftrightarrow> False"
  by (cases a) auto

lemma next_element_left:
  "next_element posix args = Some (cs, as) \<Longrightarrow> cs \<noteq> [] \<and> letters_left (cs, as) < letters_left ([], args)"
  by (induction posix args rule: next_element.induct)
    (auto simp: letters_left_def tl_not_Nil split: if_splits)

lemma getopt_left:
  assumes "getopt posix opts st = Some (oa, st')"
  shows "letters_left st' < letters_left st"
proof -
  obtain nxt args where st: "st = (nxt, args)"
    by fastforce
  obtain c cs as where e: "(if nxt = [] then next_element posix args else Some (nxt, args)) = Some (c # cs, as)"
    using assms by (auto simp: getopt_def st split: option.splits list.splits if_splits)
  then have "letters_left (c # cs, as) \<le> letters_left st"
    using next_element_left [of posix args "c # cs" as] by (auto simp: st split: if_splits)
  moreover have "letters_left st' < letters_left (c # cs, as)"
    using assms e by (auto simp: getopt_def st letters_left_def split: option.splits list.splits bool.splits if_splits)
  ultimately show ?thesis
    by simp
qed

text \<open>What the calls of \<open>getopt\<close> in the loop of \<open>main\<close> return one after the other.\<close>

function getopts :: "bool \<Rightarrow> string \<Rightarrow> getopt_state \<Rightarrow> (char \<times> string) list" where
  "getopts posix opts st =
     (case getopt posix opts st of None \<Rightarrow> [] | Some (oa, st) \<Rightarrow> oa # getopts posix opts st)"
  by auto
termination
  by (relation "measure (\<lambda>(_, _, st). letters_left st)") (auto dest: getopt_left)

declare getopts.simps [simp del]

definition command_line :: "bool \<Rightarrow> string list \<Rightarrow> (char \<times> string) list" where
  "command_line posix args = getopts posix main_optstring ([], args)"

section \<open>Spellings of a command line\<close>

lemma getopts_cong: "getopt posix opts st = getopt posix opts st' \<Longrightarrow> getopts posix opts st = getopts posix opts st'"
  by (simp add: getopts.simps [of posix opts st] getopts.simps [of posix opts st'])

lemma getopts_group:
  assumes "cs \<noteq> []" "cs \<noteq> ''-''"
  shows "getopts posix opts ([], (CHR ''-'' # cs) # args) = getopts posix opts (cs, args)"
proof (rule getopts_cong)
  show "getopt posix opts ([], (CHR ''-'' # cs) # args) = getopt posix opts (cs, args)"
    using assms by (cases cs) (auto simp: getopt_def)
qed

lemma getopts_flag:
  assumes "find_opt c opts = Some False"
  shows "getopts posix opts (c # cs, args) = (c, []) # getopts posix opts (cs, args)"
  using assms by (subst getopts.simps) (simp add: getopt_def)

lemma getopts_argument:
  assumes "find_opt c opts = Some True"
  shows "getopts posix opts ([c], a # args) = (c, a) # getopts posix opts ([], args)"
    "cs \<noteq> [] \<Longrightarrow> getopts posix opts (c # cs, args) = (c, cs) # getopts posix opts ([], args)"
  using assms by (subst getopts.simps, simp add: getopt_def)+

lemma getopts_Nil: "getopts posix opts ([], []) = []"
  by (subst getopts.simps) (simp add: getopt_def)

lemma getopts_operand:
  assumes "a \<noteq> ''--''" "\<not> (2 \<le> length a \<and> hd a = CHR ''-'')"
  shows "getopts False opts ([], a # args) = getopts False opts ([], args)"
  using assms by (intro getopts_cong) (auto simp: getopt_def)

text \<open>
  A command line is written as a list of options: flags and options with their arguments, in
  separate arguments of the program.
\<close>

fun spell :: "(char \<times> string option) list \<Rightarrow> string list" where
  "spell [] = []"
| "spell ((c, None) # os) = [CHR ''-'', c] # spell os"
| "spell ((c, Some a) # os) = [CHR ''-'', c] # a # spell os"

lemma getopts_spell:
  assumes "\<And>c a. (c, a) \<in> set os \<Longrightarrow> find_opt c opts = Some (a \<noteq> None) \<and> c \<noteq> CHR ''-''"
  shows "getopts posix opts ([], spell os @ rest)
    = map (\<lambda>(c, a). (c, case a of None \<Rightarrow> [] | Some a \<Rightarrow> a)) os @ getopts posix opts ([], rest)"
  using assms
proof (induction os rule: spell.induct)
  case (2 c os)
  have "find_opt c opts = Some False" "c \<noteq> CHR ''-''"
    using 2(2) [of c None] by simp_all
  with 2(1) 2(2) getopts_group [of "[c]" posix opts "spell os @ rest"] show ?case
    by (fastforce simp: getopts_flag)
next
  case (3 c a os)
  have "find_opt c opts = Some True" "c \<noteq> CHR ''-''"
    using 3(2) [of c "Some a"] by simp_all
  with 3(1) 3(2) getopts_group [of "[c]" posix opts "a # spell os @ rest"] show ?case
    by (fastforce simp: getopts_argument(1))
qed simp

end
