(* ===== verification/Options.thy ===== *)
theory Options
  imports Ranges Getopt
begin

text \<open>
  The first part of \<open>main\<close> in \<open>mdriver.c\<close>: the command line and the check of the team data.
  The options arrive as the calls of \<open>getopt\<close> return them (theory \<open>Getopt\<close>);
  strings are lists of characters without the terminating zero. \<open>None\<close> is a write past the
  end of the buffer \<open>tracedir\<close>, or a read in front of it.
\<close>

section \<open>Variables set by the options\<close>

definition TRACEDIR :: string where "TRACEDIR = ''./traces/''"

definition default_tracefiles :: "string list" where
  "default_tracefiles =
     [''amptjp-bal.rep'', ''cccp-bal.rep'', ''cp-decl-bal.rep'', ''expr-bal.rep'',
      ''coalescing-bal.rep'', ''random-bal.rep'', ''random2-bal.rep'', ''binary-bal.rep'',
      ''binary2-bal.rep'', ''realloc-bal.rep'', ''realloc2-bal.rep'']"

record options =
  tracefiles :: "string list option"  \<comment> \<open>\<open>None\<close>: the null pointer\<close>
  num_tracefiles :: int
  tracedir :: string
  team_check :: int
  run_libc :: int
  autograder :: int
  verbose :: int

definition initial_options :: options where
  "initial_options = \<lparr>tracefiles = None, num_tracefiles = 0, tracedir = TRACEDIR, team_check = 1,
     run_libc = 0, autograder = 0, verbose = 0\<rparr>"

section \<open>The option loop\<close>

text \<open>The lines \<open>usage()\<close> prints; every call is followed by \<open>exit\<close>.\<close>

definition usage :: "string list" where
  "usage =
     [''Usage: mdriver [-hvVal] [-f <file>] [-t <dir>]'',
      ''Options'',
      CHR 0x09 # ''-a         Don'' @ CHR 0x27 # ''t check the team structure.'',
      CHR 0x09 # ''-f <file>  Use <file> as the trace file.'',
      CHR 0x09 # ''-g         Generate summary info for autograder.'',
      CHR 0x09 # ''-h         Print this message.'',
      CHR 0x09 # ''-l         Run libc malloc as well.'',
      CHR 0x09 # ''-t <dir>   Directory to find default traces.'',
      CHR 0x09 # ''-v         Print per-trace performance breakdowns.'',
      CHR 0x09 # ''-V         Print additional debug info.'']"

text \<open>There is a line for every option letter.\<close>

lemma usage_complete:
  "list_all (\<lambda>c. find_opt c main_optstring = None \<or> (\<exists>l \<in> set usage. take 3 l = [CHR 0x09, CHR ''-'', c]))
     main_optstring"
  by (simp_all add: main_optstring_def usage_def)

definition set_tracedir :: "string \<Rightarrow> options \<Rightarrow> options option" where
  "set_tracedir arg o' =
     (if length arg \<ge> MAXLINE then None
      else if arg = [] then None
      else if last arg \<noteq> CHR ''/'' then
        (if length arg + 1 \<ge> MAXLINE then None else Some (o'\<lparr>tracedir := arg @ ''/''\<rparr>))
      else Some (o'\<lparr>tracedir := arg\<rparr>))"

text \<open>\<open>memory\<close>: \<open>realloc\<close> finds memory for the array of file names.\<close>

definition option_step :: "bool \<Rightarrow> char \<times> string \<Rightarrow> options \<Rightarrow> (exit + options) option" where
  "option_step memory = (\<lambda>(c, optarg) o'.
     if c = CHR ''g'' then Some (Inr (o'\<lparr>autograder := 1\<rparr>))
     else if c = CHR ''f'' then
       (if \<not> memory then Some (Inl (unix_error ''ERROR: realloc failed in main''))
        else Some (Inr (o'\<lparr>num_tracefiles := 1, tracedir := ''./'', tracefiles := Some [optarg]\<rparr>)))
     else if c = CHR ''t'' then
       (if num_tracefiles o' = 1 then Some (Inr o') else map_option Inr (set_tracedir optarg o'))
     else if c = CHR ''a'' then Some (Inr (o'\<lparr>team_check := 0\<rparr>))
     else if c = CHR ''l'' then Some (Inr (o'\<lparr>run_libc := 1\<rparr>))
     else if c = CHR ''v'' then Some (Inr (o'\<lparr>verbose := 1\<rparr>))
     else if c = CHR ''V'' then Some (Inr (o'\<lparr>verbose := 2\<rparr>))
     else if c = CHR ''h'' then Some (Inl (Exit 0 (concat (map line usage))))
     else Some (Inl (Exit 1 (concat (map line usage)))))"

text \<open>Go on with the value unless the process has ended or nothing is defined.\<close>

definition proceed :: "(exit + 'a) option \<Rightarrow> ('a \<Rightarrow> (exit + 'b) option) \<Rightarrow> (exit + 'b) option" where
  "proceed m f = (case m of None \<Rightarrow> None | Some (Inl x) \<Rightarrow> Some (Inl x) | Some (Inr a) \<Rightarrow> f a)"

lemma proceed_simps [simp]:
  "proceed None f = None" "proceed (Some (Inl x)) f = Some (Inl x)" "proceed (Some (Inr a)) f = f a"
  by (simp_all add: proceed_def)

lemma proceed_Some:
  "proceed m f = Some (Inr b) \<longleftrightarrow> (\<exists>a. m = Some (Inr a) \<and> f a = Some (Inr b))"
  by (auto simp: proceed_def split: option.split sum.split)

fun parse_options :: "bool \<Rightarrow> (char \<times> string) list \<Rightarrow> options \<Rightarrow> (exit + options) option" where
  "parse_options memory [] o' = Some (Inr o')"
| "parse_options memory (a # as) o' = proceed (option_step memory a o') (parse_options memory as)"

text \<open>Without \<open>-f\<close> the default trace files are used.\<close>

definition choose_tracefiles :: "options \<Rightarrow> string list \<times> int" where
  "choose_tracefiles o' =
     (case tracefiles o' of
        None \<Rightarrow> (default_tracefiles, int (length default_tracefiles))
      | Some fs \<Rightarrow> (fs, num_tracefiles o'))"

section \<open>The team data\<close>

record team_t =
  teamname :: string
  name1 :: string
  id1 :: string
  name2 :: string
  id2 :: string

definition team :: team_t where
  "team = \<lparr>teamname = ''Green 1 team'', name1 = ''Lee Yang Sang'', id1 = ''ysl960330@gmail.com'',
     name2 = '''', id2 = ''''\<rparr>"

definition check_team :: "team_t \<Rightarrow> exit option" where
  "check_team tm =
     (if teamname tm = '''' then Some (Exit 1 (line ''ERROR: Please provide the information about your team in mm.c.''))
      else if name1 tm = '''' \<or> id1 tm = ''''
      then Some (Exit 1 (line ''ERROR.  You must fill in all team member 1 fields!''))
      else if (name2 tm \<noteq> '''' \<and> id2 tm = '''') \<or> (name2 tm = '''' \<and> id2 tm \<noteq> '''')
      then Some (Exit 1 (line ''ERROR.  You must fill in all or none of the team member 2 ID fields!''))
      else None)"

section \<open>Facts\<close>

text \<open>
  What the rest of \<open>main\<close> relies on: the directory ends with a slash and fits its buffer;
  there is an array of file names exactly when \<open>-f\<close> was given, with one element.
\<close>

definition options_ok :: "options \<Rightarrow> bool" where
  "options_ok o' \<longleftrightarrow>
     tracedir o' \<noteq> [] \<and> last (tracedir o') = CHR ''/'' \<and> length (tracedir o') < MAXLINE
     \<and> (tracefiles o' = None \<and> num_tracefiles o' = 0
        \<or> (\<exists>f. tracefiles o' = Some [f]) \<and> num_tracefiles o' = 1 \<and> tracedir o' = ''./'')"

lemma initial_options_ok: "options_ok initial_options"
  by (simp add: options_ok_def initial_options_def TRACEDIR_def MAXLINE_def)

lemma set_tracedir_ok:
  assumes "options_ok o'" "num_tracefiles o' \<noteq> 1" "set_tracedir arg o' = Some q"
  shows "options_ok q"
  using assms by (auto simp: options_ok_def set_tracedir_def split: if_split_asm)

lemma option_step_ok:
  assumes "options_ok o'" "option_step memory a o' = Some (Inr q)"
  shows "options_ok q"
proof (cases a)
  case (Pair c arg)
  consider "c = CHR ''f''" | "c = CHR ''t''" | "c \<noteq> CHR ''f''" "c \<noteq> CHR ''t''"
    by blast
  then show ?thesis
  proof cases
    case 1
    with assms Pair show ?thesis
      by (auto simp: option_step_def options_ok_def MAXLINE_def split: if_split_asm)
  next
    case 2
    with assms Pair show ?thesis
      by (auto simp: option_step_def split: if_split_asm intro: set_tracedir_ok)
  next
    case 3
    with assms Pair show ?thesis
      by (auto simp: option_step_def options_ok_def split: if_split_asm)
  qed
qed

lemma parse_options_ok:
  "options_ok o' \<Longrightarrow> parse_options memory as o' = Some (Inr q) \<Longrightarrow> options_ok q"
  by (induction as arbitrary: o') (auto simp: proceed_Some dest: option_step_ok)

lemma choose_tracefiles_length:
  assumes "options_ok o'" "choose_tracefiles o' = (fs, n)"
  shows "n = int (length fs) \<and> 0 < n \<and> n \<le> 11"
  using assms by (auto simp: options_ok_def choose_tracefiles_def default_tracefiles_def)

end
