(* ===== verification/Output.thy ===== *)
theory Output
  imports Printf Options Fsecs
begin

text \<open>
  What the program writes to its standard output. Addresses are printed by \<open>%p\<close>, in a way
  the C library chooses (the parameter \<open>ptr\<close>); \<open>nan\<close> is its text for what is not a number.
  The state of the driver holds the errors it has reported, the statistics the rest: the
  definitions put the lines together in the order in which the calls of \<open>printf\<close> come.
\<close>

section \<open>Errors of a malloc package\<close>

definition error_text :: "(addr \<Rightarrow> string) \<Rightarrow> err_msg \<Rightarrow> string" where
  "error_text ptr e =
     (case e of
        Not_Aligned l \<Rightarrow> ''Payload address ('' @ ptr l @ '') not aligned to '' @ show_int (int ALIGNMENT) @ '' bytes''
      | Outside_Heap l h hl hh \<Rightarrow>
          ''Payload ('' @ ptr l @ '':'' @ ptr h @ '') lies outside heap ('' @ ptr hl @ '':'' @ ptr hh @ '')''
      | Overlaps l h pl ph \<Rightarrow>
          line (''Payload ('' @ ptr l @ '':'' @ ptr h @ '') overlaps another payload ('' @ ptr pl @ '':'' @ ptr ph @ '')'')
      | Init_Failed \<Rightarrow> ''mm_init failed.''
      | Malloc_Failed \<Rightarrow> ''mm_malloc failed.''
      | Realloc_Failed \<Rightarrow> ''mm_realloc failed.''
      | Not_Preserved \<Rightarrow> ''mm_realloc did not preserve the data from old block''
      | Libc_Malloc_Failed \<Rightarrow> ''libc malloc failed''
      | Libc_Realloc_Failed \<Rightarrow> ''libc realloc failed'')"

text \<open>The line that \<open>malloc_error\<close> prints; the second number is already that of a line.\<close>

definition malloc_error_text :: "(addr \<Rightarrow> string) \<Rightarrow> int \<times> int \<times> err_msg \<Rightarrow> string" where
  "malloc_error_text ptr = (\<lambda>(tracenum, linenum, e).
     line (''ERROR [trace '' @ show_int tracenum @ '', line '' @ show_int linenum @ '']: '' @ error_text ptr e))"

section \<open>The table\<close>

definition table_header :: string where
  "table_header = pad 5 ''trace'' @ pad 7 '' valid'' @ '' '' @ pad 5 ''util'' @ pad 8 ''ops'' @ pad 10 ''secs'' @ pad 6 ''Kops''"

definition row_text :: "string \<Rightarrow> row \<Rightarrow> string" where
  "row_text nan r =
     (case r of
        Yes i util num secs kops \<Rightarrow>
          pad 2 (show_int i) @ pad 10 ''yes'' @ pad 5 (fixed 0 util) @ ''%'' @ pad 8 (fixed 0 num)
            @ pad 10 (fixed 6 secs) @ pad 6 (fixed_double nan 0 kops)
      | No i \<Rightarrow>
          pad 2 (show_int i) @ pad 10 ''no'' @ pad 6 ''-'' @ pad 8 ''-'' @ pad 10 ''-'' @ pad 6 ''-'')"

definition total_text :: "string \<Rightarrow> (double \<times> real \<times> real \<times> double) option \<Rightarrow> string" where
  "total_text nan t =
     (case t of
        Some (util, num, secs, kops) \<Rightarrow>
          pad 12 ''Total       '' @ pad 5 (fixed_double nan 0 util) @ ''%'' @ pad 8 (fixed 0 num)
            @ pad 10 (fixed 6 secs) @ pad 6 (fixed_double nan 0 kops)
      | None \<Rightarrow> pad 12 ''Total       '' @ pad 6 ''-'' @ pad 8 ''-'' @ pad 10 ''-'' @ pad 6 ''-'')"

definition table_lines :: "string \<Rightarrow> table \<Rightarrow> string list" where
  "table_lines nan tb = table_header # map (row_text nan) (tb_rows tb) @ [total_text nan (tb_total tb)]"

definition table_text :: "string \<Rightarrow> table \<Rightarrow> string" where
  "table_text nan tb = concat (map line (table_lines nan tb))"

section \<open>Before the traces\<close>

definition team_text :: "options \<Rightarrow> team_t \<Rightarrow> string" where
  "team_text o' tm =
     (if team_check o' = 0 then ''''
      else line (''Team Name:'' @ teamname tm) @ line (''Member 1 :'' @ name1 tm @ '':'' @ id1 tm)
        @ (if name2 tm \<noteq> '''' then line (''Member 2 :'' @ name2 tm @ '':'' @ id2 tm) else ''''))"

definition tracefiles_text :: "options \<Rightarrow> string" where
  "tracefiles_text o' =
     (if tracefiles o' = None then line (''Using default tracefiles in '' @ tracedir o') else '''')"

text \<open>\<open>init_fsecs\<close>, and the clock rate that \<open>mhz_full\<close> prints.\<close>

definition init_fsecs_text :: "config \<Rightarrow> options \<Rightarrow> real \<Rightarrow> string" where
  "init_fsecs_text cf o' rate =
     (if verbose o' = 0 then ''''
      else if USE_FCYC cf \<noteq> 0 then line ''Measuring performance with a cycle counter.''
        @ line (''Processor clock rate ~= '' @ fixed 1 rate @ '' MHz'')
      else if USE_ITIMER cf \<noteq> 0 then line ''Measuring performance with the interval timer.''
      else if USE_GETTOD cf \<noteq> 0 then line ''Measuring performance with gettimeofday().''
      else '''')"

section \<open>The traces\<close>

text \<open>The progress messages of an iteration, with the errors reported in it.\<close>

definition libc_trace_text :: "options \<Rightarrow> string \<Rightarrow> stats_t \<Rightarrow> string" where
  "libc_trace_text o' name st =
     (if verbose o' \<le> 1 then ''''
      else line (''Reading tracefile: '' @ name) @ ''Checking libc malloc for correctness, ''
        @ (if st_valid st \<noteq> 0 then line ''and performance.'' else ''''))"

definition mm_trace_text :: "(addr \<Rightarrow> string) \<Rightarrow> options \<Rightarrow> string \<Rightarrow> (int \<times> int \<times> err_msg) list \<Rightarrow> stats_t \<Rightarrow> string" where
  "mm_trace_text ptr o' name errs st =
     (if verbose o' \<le> 1 then ''''
      else line (''Reading tracefile: '' @ name) @ ''Checking mm_malloc for correctness, '')
     @ concat (map (malloc_error_text ptr) errs)
     @ (if verbose o' > 1 \<and> st_valid st \<noteq> 0 then ''efficiency, '' @ line ''and performance.'' else '''')"

fun libc_traces_text :: "options \<Rightarrow> string list \<Rightarrow> stats_t list \<Rightarrow> string" where
  "libc_traces_text o' (name # names) (st # sts) = libc_trace_text o' name st @ libc_traces_text o' names sts"
| "libc_traces_text o' _ _ = ''''"

text \<open>\<open>errs\<close> are the errors of all traces; each has the number of its trace.\<close>

fun mm_traces_text :: "(addr \<Rightarrow> string) \<Rightarrow> options \<Rightarrow> (int \<times> int \<times> err_msg) list \<Rightarrow> int \<Rightarrow> string list \<Rightarrow> stats_t list \<Rightarrow> string" where
  "mm_traces_text ptr o' errs i (name # names) (st # sts) =
     mm_trace_text ptr o' name (filter (\<lambda>e. fst e = i) errs) st @ mm_traces_text ptr o' errs (i + 1) names sts"
| "mm_traces_text ptr o' errs i _ _ = ''''"

definition libc_text :: "string \<Rightarrow> options \<Rightarrow> string list \<Rightarrow> stats_t list option \<Rightarrow> table option \<Rightarrow> string" where
  "libc_text nan o' names sts tb =
     (case sts of
        None \<Rightarrow> ''''
      | Some sts \<Rightarrow>
          (if verbose o' > 1 then line '''' @ line ''Testing libc malloc'' else '''')
          @ libc_traces_text o' names sts
          @ (case tb of None \<Rightarrow> '''' | Some tb \<Rightarrow> line '''' @ line ''Results for libc malloc:'' @ table_text nan tb))"

definition mm_text :: "(addr \<Rightarrow> string) \<Rightarrow> string \<Rightarrow> options \<Rightarrow> string list \<Rightarrow> (int \<times> int \<times> err_msg) list
    \<Rightarrow> stats_t list \<Rightarrow> table option \<Rightarrow> string" where
  "mm_text ptr nan o' names errs sts tb =
     (if verbose o' > 1 then line '''' @ line ''Testing mm malloc'' else '''')
     @ mm_traces_text ptr o' errs 0 names sts
     @ (case tb of None \<Rightarrow> '''' | Some tb \<Rightarrow> line '''' @ line ''Results for mm malloc:'' @ table_text nan tb @ line '''')"

section \<open>The last lines\<close>

text \<open>The factors of 100 are in the arguments of \<open>printf\<close>, except for the index itself.\<close>

definition perf_text :: "(real \<Rightarrow> real) \<Rightarrow> string \<Rightarrow> int \<Rightarrow> performance option \<Rightarrow> string" where
  "perf_text rn nan errs pf =
     (case pf of
        Some p \<Rightarrow>
          line (''Perf index = '' @ fixed_double nan 0 (double_times rn 100 (pf_util p)) @ '' (util) + ''
            @ fixed_double nan 0 (double_times rn 100 (pf_thru p)) @ '' (thru) = ''
            @ fixed_double nan 0 (pf_index p) @ ''/100'')
      | None \<Rightarrow> line (''Terminated with '' @ show_int errs @ '' errors''))"

definition autograder_text :: "string \<Rightarrow> (int \<times> double) option \<Rightarrow> string" where
  "autograder_text nan ag =
     (case ag of
        None \<Rightarrow> ''''
      | Some (numcorrect, perfindex) \<Rightarrow>
          line (''correct:'' @ show_int numcorrect) @ line (''perfidx:'' @ fixed_double nan 0 perfindex))"

section \<open>The width of the table\<close>

text \<open>The numbers of a line that fit into their columns.\<close>

definition fits_columns :: "string \<Rightarrow> real \<Rightarrow> real \<Rightarrow> double \<Rightarrow> bool" where
  "fits_columns nan num secs kops \<longleftrightarrow>
     0 \<le> num \<and> num \<le> 99999999 \<and> 0 \<le> secs \<and> secs \<le> 999
     \<and> length nan \<le> 5 \<and> (case kops of Fin x \<Rightarrow> 0 \<le> x \<and> x \<le> 999999 | _ \<Rightarrow> True)"

lemma fits_columnsD:
  assumes "fits_columns nan num secs kops"
  shows "length (fixed 0 num) \<le> 8" "length (fixed 6 secs) \<le> 10" "length (fixed_double nan 0 kops) \<le> 6"
  using length_fixed [of num 0 7] length_fixed [of secs 6 2] length_fixed [of _ 0 5] assms
  by (auto simp: fits_columns_def fixed_double_def split: double.splits)

lemma row_width:
  assumes "row_text nan (Yes i util num secs kops) = l" "0 \<le> i" "i < 100" "0 \<le> util" "util \<le> 99999"
    and "fits_columns nan num secs kops"
  shows "length l = 42"
  using fits_columnsD [OF assms(6)] length_show_int [of i 1] length_fixed [of util 0 4] assms(1-5)
  by (auto simp: row_text_def length_pad)

lemma dash_width: "0 \<le> i \<Longrightarrow> i < 100 \<Longrightarrow> length (row_text nan (No i)) = 42"
  using length_show_int [of i 1] by (simp add: row_text_def length_pad)

lemma total_width:
  "length (total_text nan None) = 42"
  "0 \<le> util \<Longrightarrow> util \<le> 99999 \<Longrightarrow> fits_columns nan num secs kops
    \<Longrightarrow> length (total_text nan (Some (Fin util, num, secs, kops))) = 42"
  using fits_columnsD [of nan num secs kops] length_fixed [of util 0 4]
  by (simp_all add: total_text_def length_pad fixed_double_def)

lemma header_width: "length table_header = 42"
  by (simp add: table_header_def length_pad)

definition row_fits :: "string \<Rightarrow> row \<Rightarrow> bool" where
  "row_fits nan r \<longleftrightarrow>
     (case r of
        Yes i util num secs kops \<Rightarrow> 0 \<le> i \<and> i < 100 \<and> 0 \<le> util \<and> util \<le> 99999 \<and> fits_columns nan num secs kops
      | No i \<Rightarrow> 0 \<le> i \<and> i < 100)"

definition total_fits :: "string \<Rightarrow> (double \<times> real \<times> real \<times> double) option \<Rightarrow> bool" where
  "total_fits nan t \<longleftrightarrow>
     (case t of
        None \<Rightarrow> True
      | Some (util, num, secs, kops) \<Rightarrow> (\<exists>u. util = Fin u \<and> 0 \<le> u \<and> u \<le> 99999) \<and> fits_columns nan num secs kops)"

text \<open>All lines of the table have the same length, so that its columns stand below one another.\<close>

lemma table_aligned:
  assumes "list_all (row_fits nan) (tb_rows tb)" "total_fits nan (tb_total tb)"
  shows "list_all (\<lambda>l. length l = 42) (table_lines nan tb)"
proof -
  have "length (row_text nan r) = 42" if "row_fits nan r" for r
    using that row_width [OF refl] dash_width by (cases r) (auto simp: row_fits_def)
  moreover have "length (total_text nan (tb_total tb)) = 42"
    using assms(2) total_width by (auto simp: total_fits_def split: option.splits)
  ultimately show ?thesis
    using assms(1) header_width by (auto simp: table_lines_def list_all_iff)
qed

end
