(* ===== verification/Timer.thy ===== *)
theory Timer
  imports Fsecs
begin

text \<open>
  What the ways of timing a function have in common, as an interface: whatever property of the
  machine the function and the machine's own clocks keep, timing the function keeps it too.
  \<open>fcyc\<close>, the two timers of \<open>ftimer.c\<close> and \<open>fsecs\<close>, in every configuration, are such timers.
\<close>

locale timer =
  fixes measure :: "'e test_funct \<Rightarrow> 's \<Rightarrow> (exit + real \<times> 's) option"
    and world :: "'s \<Rightarrow> 'e"
    and ticks :: "('e \<Rightarrow> bool) \<Rightarrow> bool"
  assumes keeps: "ticks I \<Longrightarrow> (\<And>e e'. f e = Some (Inr e') \<Longrightarrow> I e \<Longrightarrow> I e')
    \<Longrightarrow> measure f s = Some (Inr (x, s')) \<Longrightarrow> I (world s) \<Longrightarrow> I (world s')"
begin

text \<open>The same for a relation between the states before and after.\<close>

lemma keeps_rel:
  assumes "ticks (R (world s))" "\<And>e e'. f e = Some (Inr e') \<Longrightarrow> R e e'"
    and "\<And>e. R e e" "\<And>e e' e''. R e e' \<Longrightarrow> R e' e'' \<Longrightarrow> R e e''"
    and "measure f s = Some (Inr (x, s'))"
  shows "R (world s) (world s')"
  by (rule keeps [where I = "R (world s)", OF assms(1) _ assms(5,3)]) (blast intro: assms(2,4))

end

section \<open>\<open>ftimer.c\<close>\<close>

definition time_keeps :: "'e unix \<Rightarrow> ('e \<Rightarrow> bool) \<Rightarrow> bool" where
  "time_keeps sys I \<longleftrightarrow>
     (\<forall>e. I e \<longrightarrow> I (snd (gettimeofday sys e)) \<and> (\<forall>k. I (snd (getitimer sys k e))) \<and> (\<forall>k v. I (setitimer sys k v e)))"

lemma time_keepsD:
  assumes "time_keeps sys I" "I e"
  shows "I (snd (gettimeofday sys e))" "I (snd (getitimer sys k e))" "I (setitimer sys k v e)"
  using assms by (simp_all add: time_keeps_def)

interpretation gettod: timer "\<lambda>f. ftimer_gettod sys f n" "\<lambda>e. e" "time_keeps sys" for sys n
proof
  show "I s'" if "time_keeps sys I" "\<And>e e'. f e = Some (Inr e') \<Longrightarrow> I e \<Longrightarrow> I e'"
    "ftimer_gettod sys f n s = Some (Inr (x, s'))" "I s" for I f s x s'
    by (rule ftimer_gettod_keeps [OF that(2) time_keepsD(1) [OF that(1)] that(3,4)])
qed

lemma init_etime_keeps: "time_keeps sys I \<Longrightarrow> I (snd s) \<Longrightarrow> I (snd (init_etime sys s))"
  by (simp add: init_etime_def case_prod_beta Let_def time_keepsD(3))

lemma get_etime_keeps: "time_keeps sys I \<Longrightarrow> I (snd s) \<Longrightarrow> I (snd (get_etime sys s))"
  by (simp add: get_etime_def case_prod_beta Let_def time_keepsD(2))

interpretation itimer: timer "\<lambda>f. ftimer_itimer sys f n" snd "time_keeps sys" for sys n
proof
  fix I f s x s'
  assume ticks: "time_keeps sys I" and f: "\<And>e e'. f e = Some (Inr e') \<Longrightarrow> I e \<Longrightarrow> I e'"
    and run: "ftimer_itimer sys f n s = Some (Inr (x, s'))" and I: "I (snd s)"
  obtain it e where init: "init_etime sys s = (it, e)"
    by fastforce
  obtain t e1 where start: "get_etime sys (it, e) = (t, e1)"
    by fastforce
  from run obtain r where r: "run_times (nat n) f e1 = Some r"
    by (auto simp: ftimer_itimer_def bind_eq_Some_conv init start)
  with run obtain e2 where e2: "r = Inr e2" "snd s' = snd (get_etime sys (it, e2))"
    by (cases r) (auto simp: ftimer_itimer_def bind_eq_Some_conv init start case_prod_beta)
  have "I e1"
    using get_etime_keeps [OF ticks, of "(it, e)"] init_etime_keeps [OF ticks I] init start by simp
  then have "I e2"
    using r e2(1) run_times_keeps [where I = I and f = f] f by blast
  then show "I (snd s')"
    using get_etime_keeps [OF ticks, of "(it, e2)"] e2(2) by simp
qed

section \<open>\<open>fcyc.c\<close> with \<open>clock.c\<close>\<close>

definition cycles_keep :: "'e machine \<Rightarrow> ('e \<Rightarrow> bool) \<Rightarrow> bool" where
  "cycles_keep hw I \<longleftrightarrow>
     (\<forall>e. I e \<longrightarrow> I (snd (rdtsc hw e)) \<and> I (snd (tms_utime hw e)) \<and> (\<forall>n. I (sleep_for hw n e)))"

lemma counter_keeps:
  assumes "cycles_keep hw I" "I (env c)"
  shows "I (env (start_counter hw c))" "I (env (snd (get_counter hw c)))" "I (env (snd (read_times hw c)))"
  using assms
  by (simp_all add: start_counter_def get_counter_def access_counter_def read_times_def cycles_keep_def
      case_prod_beta Let_def)

lemma callibrate_loop_keeps:
  assumes "callibrate_loop hw e oldt oldc c = Some c'" "cycles_keep hw I" "I (env c)"
  shows "I (env c')"
  using assms
proof (induction hw e oldt oldc c c' rule: callibrate_loop.raw_induct [rotated, consumes 1])
  case prems: (1 rec hw e oldt oldc c c')
  obtain newt c1 where g: "get_counter hw c = (newt, c1)"
    by fastforce
  obtain newc c2 where t: "read_times hw c1 = (newc, c2)"
    by fastforce
  have "I (env c1)" "I (env c2)"
    using counter_keeps(2) [OF prems(3,4)] counter_keeps(3) [OF prems(3), of c1] g t by simp_all
  with prems(1) [OF _ prems(3)] prems(2,4) g t show ?case
    by (auto split: if_split_asm)
qed

lemma comp_counter_keeps:
  assumes "cycles_keep hw I" "I (env c)"
  shows "start_comp_counter hw c = Some c' \<Longrightarrow> I (env c')" "I (env (snd (get_comp_counter hw c)))"
proof -
  have call: "I (env d)" if "callibrate hw c = Some d" for d
    using that callibrate_loop_keeps [OF _ assms(1)] counter_keeps [OF assms(1)] assms(2)
    by (fastforce simp: callibrate_def case_prod_beta Let_def)
  show "I (env c')" if "start_comp_counter hw c = Some c'"
  proof -
    from that obtain d where d: "(if cyc_per_tick c = 0 then callibrate hw c else Some c) = Some d"
      "c' = start_counter hw (snd (read_times hw d)\<lparr>start_tick := fst (read_times hw d)\<rparr>)"
      by (auto simp: start_comp_counter_def bind_eq_Some_conv case_prod_beta Let_def)
    have "I (env d)"
      using d(1) call assms(2) by (auto split: if_split_asm)
    with d(2) counter_keeps(1,3) [OF assms(1)] show ?thesis
      by simp
  qed
  show "I (env (snd (get_comp_counter hw c)))"
    using counter_keeps(2,3) [OF assms(1)] assms(2) by (simp add: get_comp_counter_def case_prod_beta Let_def)
qed

lemma measure_once_keeps:
  assumes ticks: "cycles_keep hw I" and f: "\<And>e e'. f e = Some (Inr e') \<Longrightarrow> I e \<Longrightarrow> I e'"
    and run: "measure_once hw f corrected c = Some (Inr (x, c'))" and I: "I (env c)"
  shows "I (env c')"
proof (cases corrected)
  case True
  with run obtain d r where d: "start_comp_counter hw c = Some d" "f (env d) = Some r"
    by (auto simp: measure_once_def bind_eq_Some_conv)
  with run True obtain e where "r = Inr e" "c' = snd (get_comp_counter hw (d\<lparr>env := e\<rparr>))"
    by (cases r) (auto simp: measure_once_def bind_eq_Some_conv)
  with d f [of "env d" e] comp_counter_keeps(1) [OF ticks I d(1)] comp_counter_keeps(2) [OF ticks, of "d\<lparr>env := e\<rparr>"]
  show ?thesis
    by simp
next
  case False
  let ?d = "start_counter hw c"
  from False run obtain r where d: "f (env ?d) = Some r"
    by (auto simp: measure_once_def bind_eq_Some_conv Let_def)
  with run False obtain e where "r = Inr e" "c' = snd (get_counter hw (?d\<lparr>env := e\<rparr>))"
    by (cases r) (auto simp: measure_once_def bind_eq_Some_conv Let_def)
  with d f [of "env ?d" e] counter_keeps(1) [OF ticks I] counter_keeps(2) [OF ticks, of "?d\<lparr>env := e\<rparr>"]
  show ?thesis
    by simp
qed

lemma fcyc_loop_keeps:
  assumes ticks: "cycles_keep hw I" and f: "\<And>e e'. f e = Some (Inr e') \<Longrightarrow> I e \<Longrightarrow> I e'"
  shows "fcyc_loop hw memory f s = Some (Inr s') \<Longrightarrow> I (env (snd s)) \<Longrightarrow> I (env (snd s'))"
proof (induction "nat (maxsamples (fst s) - samplecount (fst s))" arbitrary: s rule: less_induct)
  case less
  obtain st c where s: "s = (st, c)"
    by fastforce
  obtain st1 c1 where b: "fcyc_body hw memory f (st, c) = Some (Inr (st1, c1))"
    using less.prems(1) unfolding s by (subst (asm) fcyc_loop.simps) (auto split: option.split_asm sum.split_asm)
  then have I1: "I (env c1)"
    by (rule fcyc_bodyE) (use measure_once_keeps [OF ticks f] less.prems(2) s in auto)
  from less.prems(1) b consider "s' = (st1, c1)"
    | "samplecount st1 < maxsamples st1" "fcyc_loop hw memory f (st1, c1) = Some (Inr s')"
    unfolding s by (subst (asm) fcyc_loop.simps) (auto split: option.split_asm if_split_asm)
  then show ?case
  proof cases
    case 2
    with less.hyps [of "(st1, c1)"] fcyc_body_count [OF b] I1 show ?thesis
      by (simp add: s)
  qed (use I1 in simp)
qed

interpretation cycles: timer "fcyc hw found memory" "\<lambda>s. env (snd s)" "cycles_keep hw" for hw found memory
proof
  fix I f s x s'
  assume "cycles_keep hw I" "\<And>e e'. f e = Some (Inr e') \<Longrightarrow> I e \<Longrightarrow> I e'"
    and run: "fcyc hw found memory f s = Some (Inr (x, s'))" and I: "I (env (snd s))"
  note loop = fcyc_loop_keeps [where memory = memory, OF this(1,2)]
  obtain r where r: "fcyc_loop hw memory f (init_sampler found (fst s), snd s) = Some r"
    using run by (auto simp: fcyc_def case_prod_beta bind_eq_Some_conv)
  with run obtain q where q: "r = Inr q" "snd s' = snd q"
    by (cases r) (auto simp: fcyc_def case_prod_beta bind_eq_Some_conv)
  with loop [where s = "(init_sampler found (fst s), snd s)" and s' = q] r I show "I (env (snd s'))"
    by simp
qed

section \<open>\<open>fsecs\<close>\<close>

definition platform_keeps :: "'e platform \<Rightarrow> ('e \<Rightarrow> bool) \<Rightarrow> bool" where
  "platform_keeps pf I \<longleftrightarrow> cycles_keep (cycle_hw pf) I \<and> time_keeps (unix_sys pf) I"

interpretation seconds: timer "fsecs cf pf" "\<lambda>t. env (clk t)" "platform_keeps pf" for cf pf
proof
  fix I f s x s'
  assume ticks: "platform_keeps pf I" and f: "\<And>e e'. f e = Some (Inr e') \<Longrightarrow> I e \<Longrightarrow> I e'"
    and run: "fsecs cf pf f s = Some (Inr (x, s'))" and I: "I (env (clk s))"
  consider "USE_FCYC cf \<noteq> 0" | "USE_FCYC cf = 0" "USE_ITIMER cf \<noteq> 0" | "USE_FCYC cf = 0" "USE_ITIMER cf = 0"
    by blast
  then show "I (env (clk s'))"
  proof cases
    case 1
    with run obtain r where r: "fcyc (cycle_hw pf) (found pf) (cache_memory pf) f (smp s, clk s) = Some r"
      by (auto simp: fsecs_def bind_eq_Some_conv)
    with run 1 obtain cyc st c where "r = Inr (cyc, st, c)" "clk s' = c"
      by (cases r) (auto simp: fsecs_def bind_eq_Some_conv)
    with r cycles.keeps [where f = f and I = I, OF _ f] ticks I show ?thesis
      by (fastforce simp: platform_keeps_def)
  next
    case 2
    with run obtain r where r: "ftimer_itimer (unix_sys pf) f 10 (itms s, env (clk s)) = Some r"
      by (auto simp: fsecs_def bind_eq_Some_conv)
    with run 2 obtain y it e where "r = Inr (y, it, e)" "env (clk s') = e"
      by (cases r) (auto simp: fsecs_def bind_eq_Some_conv)
    with r itimer.keeps [where f = f and I = I, OF _ f] ticks I show ?thesis
      by (fastforce simp: platform_keeps_def)
  next
    case 3
    with run obtain r where r: "ftimer_gettod (unix_sys pf) f 10 (env (clk s)) = Some r"
      by (auto simp: fsecs_def bind_eq_Some_conv split: if_split_asm)
    with run 3 obtain y e where "r = Inr (y, e)" "env (clk s') = e"
      by (cases r) (auto simp: fsecs_def bind_eq_Some_conv split: if_split_asm)
    with r gettod.keeps [where f = f and I = I, OF _ f] ticks I show ?thesis
      by (fastforce simp: platform_keeps_def)
  qed
qed

text \<open>The clock rate is measured with the cycle counter and a sleep.\<close>

lemma mhz_keeps:
  assumes "mhz hw c = Some (x, c')" "cycles_keep hw I" "I (env c)"
  shows "I (env c')"
proof -
  let ?c = "start_counter hw c"
  let ?d = "?c\<lparr>env := sleep_for hw 2 (env ?c)\<rparr>"
  have "I (env ?d)"
    using counter_keeps(1) [OF assms(2,3)] assms(2) by (simp add: cycles_keep_def)
  from counter_keeps(2) [OF assms(2) this] assms(1) show ?thesis
    by (auto simp: mhz_def mhz_full_def Let_def case_prod_beta bind_eq_Some_conv)
qed

lemma init_fsecs_keeps:
  assumes "init_fsecs cf pf t = Some t'" "platform_keeps pf I" "I (env (clk t))"
  shows "I (env (clk t'))"
  using assms mhz_keeps [of "cycle_hw pf" "clk t" _ _ I]
  by (auto simp: init_fsecs_def platform_keeps_def bind_eq_Some_conv Let_def split: if_split_asm)

end
