(* ===== verification/Mdriver.thy ===== *)
theory Mdriver
  imports Driver_Speed Output Timer
begin

text \<open>
  \<open>main\<close> of \<open>mdriver.c\<close>: the loops over the trace files, for the C library's allocator and
  for a malloc package, the totals and the report. The machine is a parameter; the state is
  that of the timing files, over the variables of the driver (the current trace and the
  driver's globals) paired with the rest of the world.
\<close>

section \<open>The machine\<close>

text \<open>
  \<open>phase\<close> is true in the loop for the C library, false in the other; the number after it is
  that of the trace. \<open>elapse\<close> is what running a trace does to the world (time passes),
  \<open>release\<close> what \<open>free_trace\<close> does to the C library's heap.
\<close>

record 'w host =
  open_file :: "string \<Rightarrow> string option"
  trace_memory :: "bool \<Rightarrow> int \<Rightarrow> nat \<Rightarrow> bool"
  trace_raw :: "bool \<Rightarrow> int \<Rightarrow> trace_t"
  trace_junk :: "bool \<Rightarrow> int \<Rightarrow> nat \<Rightarrow> u32"
  trace_size0 :: "bool \<Rightarrow> int \<Rightarrow> u32"
  range_memory :: "int \<Rightarrow> int \<Rightarrow> bool"
  stats_memory :: "bool \<Rightarrow> bool"
  option_memory :: bool
  posixly_correct :: bool
  show_ptr :: "addr \<Rightarrow> string"  \<comment> \<open>\<open>%p\<close>\<close>
  show_nan :: string
  heap_storage :: addr
  c_library :: "'w libc"
  elapse :: "trace_t \<Rightarrow> 'w \<Rightarrow> 'w"
  release :: "trace_t \<Rightarrow> 'w \<Rightarrow> 'w"
  platform :: "'w platform"

text \<open>The clock and the timers belong to the world; the driver's variables are not theirs.\<close>

definition on_world :: "('w \<Rightarrow> 'b \<times> 'w) \<Rightarrow> 's \<times> 'w \<Rightarrow> 'b \<times> ('s \<times> 'w)" where
  "on_world f = (\<lambda>(s, w). case f w of (b, w) \<Rightarrow> (b, (s, w)))"

definition lift_platform :: "'w platform \<Rightarrow> ('s \<times> 'w) platform" where
  "lift_platform p =
     \<lparr>cycle_hw = \<lparr>rdtsc = on_world (rdtsc (cycle_hw p)), tms_utime = on_world (tms_utime (cycle_hw p)),
            sleep_for = (\<lambda>n (s, w). (s, sleep_for (cycle_hw p) n w)), rnd = rnd (cycle_hw p)\<rparr>,
      unix_sys = \<lparr>gettimeofday = on_world (gettimeofday (unix_sys p)),
             setitimer = (\<lambda>k v (s, w). (s, setitimer (unix_sys p) k v w)),
             getitimer = (\<lambda>k. on_world (getitimer (unix_sys p) k)), frnd = frnd (unix_sys p)\<rparr>,
      found = found p, cache_memory = cache_memory p\<rparr>"

type_synonym ('a, 'w) env = "'a state \<times> 'w"
type_synonym ('a, 'w) main_state = "('a, 'w) env timing"

definition get_env :: "('a, 'w) main_state \<Rightarrow> ('a, 'w) env" where
  "get_env m = env (clk m)"

definition put_env :: "('a, 'w) env \<Rightarrow> ('a, 'w) main_state \<Rightarrow> ('a, 'w) main_state" where
  "put_env e m = m\<lparr>clk := clk m\<lparr>env := e\<rparr>\<rparr>"

section \<open>One trace\<close>

text \<open>
  The path is put together in a buffer of \<open>MAXLINE\<close> characters, and so is the message with 29
  characters around the path for a file that cannot be opened.
\<close>

definition load_trace :: "'w host \<Rightarrow> bool \<Rightarrow> int \<Rightarrow> string \<Rightarrow> string \<Rightarrow> (exit + trace_t) option" where
  "load_trace h phase i dir name =
     (let path = dir @ name in
      if trace_memory h phase i 1 \<and> length path \<ge> MAXLINE then None
      else if trace_memory h phase i 1 \<and> open_file h path = None \<and> length path + 29 \<ge> MAXLINE then None
      else read_trace path (trace_memory h phase i) (trace_raw h phase i) (trace_junk h phase i) (trace_size0 h phase i) (open_file h path))"

text \<open>The functions that are timed, with the trace as their argument.\<close>

definition mm_speed_funct :: "'w host \<Rightarrow> 'a package \<Rightarrow> ('a, 'w) env test_funct" where
  "mm_speed_funct h pk = (\<lambda>(s, w).
     case eval_mm_speed pk s of
       Some (Next s) \<Rightarrow> Some (Inr (s, elapse h (fst s) w))
     | Some (Stop x _) \<Rightarrow> Some (Inl x)
     | _ \<Rightarrow> None)"

definition libc_speed_funct :: "'w host \<Rightarrow> ('a, 'w) env test_funct" where
  "libc_speed_funct h = (\<lambda>((t, d), w).
     case eval_libc_speed (c_library h) (t, w) of
       Some (Next (t, w)) \<Rightarrow> Some (Inr ((t, d), elapse h t w))
     | Some (Stop x _) \<Rightarrow> Some (Inl x)
     | _ \<Rightarrow> None)"

text \<open>\<open>libc_stats[i].secs = fsecs(...)\<close>, and the end of the iteration.\<close>

definition timed :: "'w host \<Rightarrow> config \<Rightarrow> ('a, 'w) env test_funct \<Rightarrow> stats_t \<Rightarrow> ('a, 'w) main_state
    \<Rightarrow> (exit + stats_t \<times> ('a, 'w) main_state) option" where
  "timed h cf f st m =
     proceed (fsecs cf (lift_platform (platform h)) f m) (\<lambda>(secs, m). Some (Inr (st\<lparr>st_secs := secs\<rparr>, m)))"

definition free_current :: "'w host \<Rightarrow> ('a, 'w) main_state \<Rightarrow> ('a, 'w) main_state" where
  "free_current h m = (case get_env m of ((t, d), w) \<Rightarrow> put_env ((t, d), release h t w) m)"

definition libc_trace :: "'w host \<Rightarrow> config \<Rightarrow> string \<Rightarrow> int \<Rightarrow> string \<Rightarrow> ('a, 'w) main_state
    \<Rightarrow> (exit + stats_t \<times> ('a, 'w) main_state) option" where
  "libc_trace h cf dir i name m =
     proceed (load_trace h True i dir name) (\<lambda>t.
       case get_env m of ((_, d), w) \<Rightarrow>
         let st = no_stats\<lparr>st_ops := of_int (sint (num_ops t))\<rparr> in
         case eval_libc_valid (c_library h) i ((t, d), w) of
           Some (Stop x _) \<Rightarrow> Some (Inl x)
         | Some (Return v e) \<Rightarrow>
             let st = st\<lparr>st_valid := v\<rparr>; m = put_env e m in
             proceed (if v \<noteq> 0 then timed h cf (libc_speed_funct h) st m else Some (Inr (st, m)))
               (\<lambda>(st, m). Some (Inr (st, free_current h m)))
         | _ \<Rightarrow> None)"

definition mm_trace :: "'w host \<Rightarrow> config \<Rightarrow> 'a package \<Rightarrow> string \<Rightarrow> int \<Rightarrow> string \<Rightarrow> ('a, 'w) main_state
    \<Rightarrow> (exit + stats_t \<times> ('a, 'w) main_state) option" where
  "mm_trace h cf pk dir i name m =
     proceed (load_trace h False i dir name) (\<lambda>t.
       case get_env m of ((_, d), w) \<Rightarrow>
         let st = no_stats\<lparr>st_ops := of_int (sint (num_ops t))\<rparr> in
         case eval_mm_valid pk (range_memory h i) i (t, d) of
           Some (Stop x _) \<Rightarrow> Some (Inl x)
         | Some (Return v s) \<Rightarrow>
             let st = st\<lparr>st_valid := v\<rparr> in
             proceed
               (if v \<noteq> 0 then
                  proceed (eval_mm_util pk (frnd (unix_sys (platform h))) s) (\<lambda>(u, s).
                    timed h cf (mm_speed_funct h pk) (st\<lparr>st_util := u\<rparr>) (put_env (s, w) m))
                else Some (Inr (st, put_env (s, w) m)))
               (\<lambda>(st, m). Some (Inr (st, free_current h m)))
         | _ \<Rightarrow> None)"

text \<open>\<open>for (i=0; i < num_tracefiles; i++)\<close>\<close>

fun each_trace :: "(int \<Rightarrow> string \<Rightarrow> 'm \<Rightarrow> (exit + stats_t \<times> 'm) option) \<Rightarrow> int \<Rightarrow> string list \<Rightarrow> 'm
    \<Rightarrow> (exit + stats_t list \<times> 'm) option" where
  "each_trace body i [] m = Some (Inr ([], m))"
| "each_trace body i (name # names) m =
     proceed (body i name m) (\<lambda>(st, m).
     proceed (each_trace body (i + 1) names m) (\<lambda>(sts, m).
       Some (Inr (st # sts, m))))"

section \<open>\<open>main\<close>\<close>

text \<open>
  The results \<open>main\<close> arrives at, and everything written to the standard output on the way.
\<close>

record report =
  rp_libc :: "stats_t list option"
  rp_libc_table :: "table option"
  rp_mm :: "stats_t list"
  rp_mm_table :: "table option"
  rp_perf :: "performance option"  \<comment> \<open>\<open>None\<close>: there were errors\<close>
  rp_errors :: int
  rp_autograder :: "(int \<times> double) option"  \<comment> \<open>correct traces and index\<close>
  rp_output :: string

definition shown :: "options \<Rightarrow> table \<Rightarrow> table option" where
  "shown o' tb = (if verbose o' \<noteq> 0 then Some tb else None)"

definition driver_of :: "('a, 'w) main_state \<Rightarrow> 'a driver" where
  "driver_of m = snd (fst (get_env m))"

text \<open>The part for the C library, and the one for the package.\<close>

definition run_libc_part :: "'w host \<Rightarrow> config \<Rightarrow> options \<Rightarrow> string list \<Rightarrow> ('a, 'w) main_state
    \<Rightarrow> (exit + stats_t list option \<times> ('a, 'w) main_state) option" where
  "run_libc_part h cf o' names m =
     (if run_libc o' = 0 then Some (Inr (None, m))
      else if \<not> stats_memory h True then Some (Inl (unix_error ''libc_stats calloc in main failed''))
      else proceed (each_trace (libc_trace h cf (tracedir o')) 0 names m)
             (\<lambda>(sts, m). Some (Inr (Some sts, m))))"

definition run_mm_part :: "'w host \<Rightarrow> config \<Rightarrow> 'a package \<Rightarrow> options \<Rightarrow> string list \<Rightarrow> ('a, 'w) main_state
    \<Rightarrow> (exit + stats_t list \<times> ('a, 'w) main_state) option" where
  "run_mm_part h cf pk o' names m =
     (if \<not> stats_memory h False then Some (Inl (unix_error ''mm_stats calloc in main failed''))
      else case get_env m of ((t, d), w) \<Rightarrow>
        proceed (Some (mem_init (heap_storage h) (mach d))) (\<lambda>s.
          each_trace (mm_trace h cf pk (tracedir o')) 0 names (put_env ((t, d\<lparr>mach := s\<rparr>), w) m)))"

text \<open>The totals and the last lines of the output.\<close>

definition summary :: "(real \<Rightarrow> real) \<Rightarrow> options \<Rightarrow> int \<Rightarrow> int \<Rightarrow> stats_t list
    \<Rightarrow> performance option \<times> (int \<times> double) option" where
  "summary rn o' n errs sts =
     (case accumulate rn sts (\<lparr>agg_secs = 0, agg_ops = 0, agg_util = 0\<rparr>, 0) of (a, numcorrect) \<Rightarrow>
        let pf = (if errs = 0 then Some (perf rn n a) else None);
            perfindex = (case pf of Some p \<Rightarrow> pf_index p | None \<Rightarrow> Fin 0)
        in (pf, if autograder o' \<noteq> 0 then Some (numcorrect, perfindex) else None))"

text \<open>\<open>args\<close> are the arguments after the name of the program.\<close>

definition main :: "'w host \<Rightarrow> config \<Rightarrow> team_t \<Rightarrow> 'a package \<Rightarrow> string list \<Rightarrow> ('a, 'w) main_state
    \<Rightarrow> (exit + report \<times> ('a, 'w) main_state) option" where
  "main h cf tm pk args m =
     proceed (parse_options (option_memory h) (command_line (posixly_correct h) args) initial_options) (\<lambda>o'.
     proceed (case if team_check o' \<noteq> 0 then check_team tm else None of
                Some x \<Rightarrow> Some (Inl x) | None \<Rightarrow> Some (Inr ())) (\<lambda>_.
       case choose_tracefiles o' of (names, n) \<Rightarrow>
       case init_fsecs cf (lift_platform (platform h)) m of
         None \<Rightarrow> None
       | Some m \<Rightarrow>
           let rn = frnd (unix_sys (platform h)); ptr = show_ptr h; nan = show_nan h;
               out = team_text o' tm @ tracefiles_text o' @ init_fsecs_text cf o' (Mhz m) in
           proceed (run_libc_part h cf o' names m) (\<lambda>(lsts, m).
             let ltable = (case lsts of None \<Rightarrow> None
                | Some sts \<Rightarrow> shown o' (printresults rn (errors (driver_of m)) n sts));
                 out = out @ libc_text nan o' names lsts ltable;
                 before = length (log (driver_of m)) in
           proceed (run_mm_part h cf pk o' names m) (\<lambda>(sts, m).
             let errs = errors (driver_of m);
                 table = shown o' (printresults rn errs n sts);
                 (pf, ag) = summary rn o' n errs sts;
                 out = out @ mm_text ptr nan o' names (drop before (log (driver_of m))) sts table
                   @ perf_text rn nan errs pf @ autograder_text nan ag
             in Some (Inr (\<lparr>rp_libc = lsts, rp_libc_table = ltable, rp_mm = sts, rp_mm_table = table,
                  rp_perf = pf, rp_errors = errs, rp_autograder = ag, rp_output = out\<rparr>, m))))))"

end
