(* ===== verification/Timer_Returns.thy ===== *)
theory Timer_Returns
  imports Timer Fcyc_Run Clock_Steady
begin

text \<open>
  When timing a function returns: the interface of \<open>Timer\<close> with one law more, interpreted on
  the same ways of timing. The two timers of \<open>ftimer.c\<close> always return; \<open>fcyc\<close> needs memory for
  its samples and its buffer, and \<open>callibrate\<close> to come to an end.
\<close>

locale total_timer = timer measure world ticks
  for measure :: "'e test_funct \<Rightarrow> 's \<Rightarrow> (exit + real \<times> 's) option"
    and world :: "'s \<Rightarrow> 'e" and ticks :: "('e \<Rightarrow> bool) \<Rightarrow> bool" +
  fixes ready :: "'s \<Rightarrow> bool"
  assumes returns: "ready s \<Longrightarrow> ticks I \<Longrightarrow> (\<And>e. I e \<Longrightarrow> \<exists>e'. f e = Some (Inr e') \<and> I e') \<Longrightarrow> I (world s)
    \<Longrightarrow> \<exists>x s'. measure f s = Some (Inr (x, s')) \<and> ready s'"
begin

lemma returns_keeps:
  assumes "ready s" "ticks I" "\<And>e. I e \<Longrightarrow> \<exists>e'. f e = Some (Inr e') \<and> I e'" "I (world s)"
  shows "\<exists>x s'. measure f s = Some (Inr (x, s')) \<and> ready s' \<and> I (world s')"
proof -
  obtain x s' where r: "measure f s = Some (Inr (x, s'))" "ready s'"
    using returns [where f = f and I = I, OF assms(1,2) _ assms(4)] assms(3) by blast
  moreover have "I (world s')"
    by (rule keeps [where f = f and I = I, OF assms(2) _ r(1) assms(4)]) (use assms(3) in fastforce)
  ultimately show ?thesis
    by blast
qed

end

section \<open>\<open>ftimer.c\<close>\<close>

interpretation gettod: total_timer "\<lambda>f. ftimer_gettod sys f n" "\<lambda>e. e" "time_keeps sys" "\<lambda>_. n \<noteq> 0"
  for sys :: "'e unix" and n
proof
  fix s I and f :: "'e test_funct"
  assume n: "n \<noteq> 0" and ticks: "time_keeps sys I" and f: "\<And>e. I e \<Longrightarrow> \<exists>e'. f e = Some (Inr e') \<and> I e'" and I: "I s"
  obtain e where "run_times (nat n) f (snd (gettimeofday sys s)) = Some (Inr e)"
    using run_times_total [where I = I and f = f and e = "snd (gettimeofday sys s)" and n = "nat n"] f time_keepsD(1) [OF ticks I] by blast
  with n show "\<exists>x s'. ftimer_gettod sys f n s = Some (Inr (x, s')) \<and> n \<noteq> 0"
    by (simp add: ftimer_gettod_def div_double_def case_prod_beta Let_def)
qed

interpretation itimer: total_timer "\<lambda>f. ftimer_itimer sys f n" snd "time_keeps sys" "\<lambda>_. n \<noteq> 0"
  for sys :: "'e unix" and n
proof
  fix s :: "itimers \<times> 'e" and I and f :: "'e test_funct"
  assume n: "n \<noteq> 0" and ticks: "time_keeps sys I" and f: "\<And>e. I e \<Longrightarrow> \<exists>e'. f e = Some (Inr e') \<and> I e'"
    and I: "I (snd s)"
  let ?e = "snd (get_etime sys (init_etime sys s))"
  have "I ?e"
    by (intro get_etime_keeps [OF ticks] init_etime_keeps [OF ticks] I)
  then obtain e where "run_times (nat n) f ?e = Some (Inr e)"
    using run_times_total [where I = I and f = f and e = ?e and n = "nat n"] f by blast
  with n show "\<exists>x s'. ftimer_itimer sys f n s = Some (Inr (x, s')) \<and> n \<noteq> 0"
    by (simp add: ftimer_itimer_def div_double_def case_prod_beta Let_def)
qed

section \<open>\<open>fcyc.c\<close>\<close>

text \<open>
  The buffer is there, and adds nothing to \<open>sink\<close>: its words are 0, as those of fresh pages are.
  Then \<open>clear\<close> can be called any number of times.
\<close>

definition cache_ready :: "(u32 \<Rightarrow> u32 list option) \<Rightarrow> sampler \<Rightarrow> bool" where
  "cache_ready memory st \<longleftrightarrow>
     4 \<le> unat (cache_block st) \<and> \<bar>sink st\<bar> < 2 ^ 31
     \<and> (\<exists>b. the_buf memory st = Some b \<and> unat (cache_bytes st) div 4 \<le> length b
          \<and> list_all (\<lambda>w. w = 0) (cache_words st b))"

definition sampler_ready :: "'e machine \<Rightarrow> (u32 \<Rightarrow> u32 list option) \<Rightarrow> sampler \<Rightarrow> bool" where
  "sampler_ready hw memory st \<longleftrightarrow>
     (compensate st \<noteq> 0 \<longrightarrow> callibrates hw) \<and> (clear_cache st \<noteq> 0 \<longrightarrow> cache_ready memory st)"

lemma sampler_ready_cong [simp]:
  "sampler_ready hw memory (st\<lparr>vals := v\<rparr>) = sampler_ready hw memory st"
  "sampler_ready hw memory (st\<lparr>samplecount := n\<rparr>) = sampler_ready hw memory st"
  by (simp_all add: sampler_ready_def cache_ready_def the_buf_def cache_words_def cong: option.case_cong)

lemma cache_ready_clear:
  assumes "cache_ready memory st"
  obtains b where "clear memory st = Some (Inr (st\<lparr>cache_buf := Some b\<rparr>))"
    "cache_ready memory (st\<lparr>cache_buf := Some b\<rparr>)"
proof -
  obtain b where b: "the_buf memory st = Some b" "unat (cache_bytes st) div 4 \<le> length b" "4 \<le> unat (cache_block st)"
    and s: "\<bar>sink st\<bar> < 2 ^ 31" "list_all (\<lambda>w. w = 0) (cache_words st b)"
    using assms by (auto simp: cache_ready_def)
  from zero_sums [OF s(2)] s(1) have "clear memory st = Some (Inr (st\<lparr>cache_buf := Some b\<rparr>))"
    using clear_returns [OF b] by simp
  moreover have "cache_ready memory (st\<lparr>cache_buf := Some b\<rparr>)"
    using b s by (simp add: cache_ready_def the_buf_def cache_words_def)
  ultimately show thesis
    by (rule that)
qed

lemma measure_once_returns:
  assumes "corrected \<longrightarrow> callibrates hw" and ticks: "cycles_keep hw I"
    and f: "\<And>e. I e \<Longrightarrow> \<exists>e'. f e = Some (Inr e') \<and> I e'" and I: "I (env c)"
  shows "\<exists>x c'. measure_once hw f corrected c = Some (Inr (x, c'))"
proof (cases corrected)
  case True
  have "start_comp_counter hw c \<noteq> None"
    using True assms(1) by (auto simp: start_comp_counter_def callibrates_def bind_eq_None_conv case_prod_beta)
  then obtain d where d: "start_comp_counter hw c = Some d"
    by blast
  with f [OF comp_counter_keeps(1) [OF ticks I d]] True show ?thesis
    by (auto simp: measure_once_def ex_pair)
next
  case False
  with f [OF counter_keeps(1) [OF ticks I]] show ?thesis
    by (auto simp: measure_once_def Let_def ex_pair)
qed

text \<open>Before the measurement: the buffer is read, the samples are left alone.\<close>

lemma clear_ready:
  assumes "sampled st xs" "sampler_ready hw memory st"
  obtains st' where "(if clear_cache st \<noteq> 0 then clear memory st else Some (Inr st)) = Some (Inr st')"
    "sampled st' xs" "sampler_ready hw memory st'"
proof (cases "clear_cache st = 0")
  case False
  with assms(2) have "cache_ready memory st"
    by (simp add: sampler_ready_def)
  then obtain b where b: "clear memory st = Some (Inr (st\<lparr>cache_buf := Some b\<rparr>))"
    "cache_ready memory (st\<lparr>cache_buf := Some b\<rparr>)"
    by (rule cache_ready_clear)
  have "sampled (st\<lparr>cache_buf := Some b\<rparr>) xs" "sampler_ready hw memory (st\<lparr>cache_buf := Some b\<rparr>)"
    using assms b(2) by (simp_all add: sampled_def sampler_ready_def)
  with False b(1) show thesis
    by (intro that [of "st\<lparr>cache_buf := Some b\<rparr>"]) simp_all
qed (use assms that in simp)

lemma fcyc_body_returns:
  assumes st: "sampled st xs" "sampler_ready hw memory st" and ticks: "cycles_keep hw I"
    and f: "\<And>e. I e \<Longrightarrow> \<exists>e'. f e = Some (Inr e') \<and> I e'" and I: "I (env c)"
  obtains x st' c' where "fcyc_body hw memory f (st, c) = Some (Inr (st', c'))"
    "sampled st' (x # xs)" "sampler_ready hw memory st'" "I (env c')"
proof -
  obtain st1 where st1: "(if clear_cache st \<noteq> 0 then clear memory st else Some (Inr st)) = Some (Inr st1)"
    "sampled st1 xs" "sampler_ready hw memory st1"
    by (rule clear_ready [OF st])
  from st1(3) have "compensate st1 \<noteq> 0 \<longrightarrow> callibrates hw"
    by (simp add: sampler_ready_def)
  from measure_once_returns [where f = f and I = I, OF this ticks f I] obtain x c'
    where m: "measure_once hw f (compensate st1 \<noteq> 0) c = Some (Inr (x, c'))"
    by blast
  have "I (env c')"
    by (rule measure_once_keeps [OF ticks _ m I]) (use f in fastforce)
  moreover obtain st2 where a: "add_sample x st1 = Some st2" "sampled st2 (x # xs)"
    using add_sample_sampled [OF st1(2), of x] by blast
  moreover have "sampler_ready hw memory st2"
    using add_sample_count [OF a(1)] st1(3) by auto
  ultimately show thesis
    using st1(1) m by (intro that [of st2 c' x]) (simp_all add: fcyc_body_def)
qed

lemma fcyc_loop_returns:
  assumes ticks: "cycles_keep hw I" and f: "\<And>e. I e \<Longrightarrow> \<exists>e'. f e = Some (Inr e') \<and> I e'"
  shows "sampled (fst s) xs \<Longrightarrow> sampler_ready hw memory (fst s) \<Longrightarrow> I (env (snd s)) \<Longrightarrow>
    \<exists>st c x ys. fcyc_loop hw memory f s = Some (Inr (st, c)) \<and> sampled st (x # ys) \<and> sampler_ready hw memory st"
proof (induction "nat (maxsamples (fst s) - samplecount (fst s))" arbitrary: s xs rule: less_induct)
  case less
  obtain x st c where b: "fcyc_body hw memory f (fst s, snd s) = Some (Inr (st, c))"
    "sampled st (x # xs)" "sampler_ready hw memory st" "I (env c)"
    by (rule fcyc_body_returns [where f = f and I = I, OF less.prems(1,2) ticks f less.prems(3)])
  let ?stop = "samples_agree (rnd hw) (kbest st) (epsilon st) (x # xs) \<or> maxsamples st \<le> samplecount st"
  have l: "fcyc_loop hw memory f s = (if ?stop then Some (Inr (st, c)) else fcyc_loop hw memory f (st, c))"
    using b(1) sampled_converged [OF b(2), of "rnd hw"] by (subst fcyc_loop.simps) auto
  show ?case
  proof (cases ?stop)
    case False
    with less.hyps [of "(st, c)" "x # xs"] b fcyc_body_count [OF b(1)] l show ?thesis
      by simp
  qed (use l b in auto)
qed

interpretation cycles: total_timer "fcyc hw found memory" "\<lambda>s. env (snd s)" "cycles_keep hw"
  "\<lambda>s. found \<and> 0 < kbest (fst s) \<and> sampler_ready hw memory (fst s)" for hw :: "'e machine" and found memory
proof
  fix s :: "sampler \<times> 'e clock" and I and f :: "'e test_funct"
  assume r: "found \<and> 0 < kbest (fst s) \<and> sampler_ready hw memory (fst s)" and ticks: "cycles_keep hw I"
    and f: "\<And>e. I e \<Longrightarrow> \<exists>e'. f e = Some (Inr e') \<and> I e'" and I: "I (env (snd s))"
  let ?s = "init_sampler found (fst s)"
  have "sampled ?s []" "sampler_ready hw memory ?s"
    using r init_sampled [of "fst s"] by (simp_all add: init_sampler_def)
  with fcyc_loop_returns [where f = f and I = I and memory = memory and s = "(?s, snd s)" and xs = "[]", OF ticks f] I obtain st c x ys
    where l: "fcyc_loop hw memory f (?s, snd s) = Some (Inr (st, c))" "sampled st (x # ys)" "sampler_ready hw memory st"
    by fastforce
  then have "lowest_val st \<noteq> None" "0 < kbest st"
    using sampled_lowest [OF l(2)] by (simp_all add: sampled_def)
  with l r show "\<exists>x s'. fcyc hw found memory f s = Some (Inr (x, s'))
      \<and> found \<and> 0 < kbest (fst s') \<and> sampler_ready hw memory (fst s')"
    by (auto simp: fcyc_def case_prod_beta lowest_val_def bind_eq_Some_conv)
qed

section \<open>\<open>fsecs\<close>\<close>

text \<open>What \<open>fsecs\<close> needs after \<open>init_fsecs\<close>, and what \<open>init_fsecs\<close> needs for it.\<close>

definition timing_ready :: "config \<Rightarrow> 'e platform \<Rightarrow> 'e timing \<Rightarrow> bool" where
  "timing_ready cf pf t \<longleftrightarrow>
     (if USE_FCYC cf \<noteq> 0 then
        found pf \<and> 0 < kbest (smp t) \<and> sampler_ready (cycle_hw pf) (cache_memory pf) (smp t)
        \<and> rnd (cycle_hw pf) (Mhz t * 1000000) \<noteq> 0
      else USE_ITIMER cf \<noteq> 0 \<or> USE_GETTOD cf \<noteq> 0)"

definition can_time :: "config \<Rightarrow> 'e platform \<Rightarrow> sampler \<Rightarrow> bool" where
  "can_time cf pf st \<longleftrightarrow>
     (if USE_FCYC cf \<noteq> 0 then
        found pf \<and> cache_ready (cache_memory pf) st \<and> callibrates (cycle_hw pf)
        \<and> rnd (cycle_hw pf) 2000000 \<noteq> 0
        \<and> (\<forall>c r c'. mhz (cycle_hw pf) c = Some (r, c') \<longrightarrow> rnd (cycle_hw pf) (r * 1000000) \<noteq> 0)
      else USE_ITIMER cf \<noteq> 0 \<or> USE_GETTOD cf \<noteq> 0)"

interpretation seconds: total_timer "fsecs cf pf" "\<lambda>t. env (clk t)" "platform_keeps pf" "timing_ready cf pf"
  for cf and pf :: "'e platform"
proof
  fix t I and f :: "'e test_funct"
  assume ready: "timing_ready cf pf t" and ticks: "platform_keeps pf I"
    and f: "\<And>e. I e \<Longrightarrow> \<exists>e'. f e = Some (Inr e') \<and> I e'" and I: "I (env (clk t))"
  from ticks have keep: "cycles_keep (cycle_hw pf) I" "time_keeps (unix_sys pf) I"
    by (simp_all add: platform_keeps_def)
  consider "USE_FCYC cf \<noteq> 0" | "USE_FCYC cf = 0" "USE_ITIMER cf \<noteq> 0" | "USE_FCYC cf = 0" "USE_ITIMER cf = 0" "USE_GETTOD cf \<noteq> 0"
    using ready by (auto simp: timing_ready_def split: if_split_asm)
  then show "\<exists>x t'. fsecs cf pf f t = Some (Inr (x, t')) \<and> timing_ready cf pf t'"
  proof cases
    case 1
    with cycles.returns [where f = f and I = I and s = "(smp t, clk t)", OF _ keep(1) f] ready I show ?thesis
      by (fastforce simp: fsecs_def timing_ready_def div_double_def)
  next
    case 2
    with itimer.returns [where f = f and I = I and n = 10 and s = "(itms t, env (clk t))", OF _ keep(2) f] I show ?thesis
      by (fastforce simp: fsecs_def timing_ready_def)
  next
    case 3
    with gettod.returns [where f = f and I = I and n = 10 and s = "env (clk t)", OF _ keep(2) f] I show ?thesis
      by (fastforce simp: fsecs_def timing_ready_def)
  qed
qed

lemma can_time_config_h [simp]: "can_time config_h pf st"
  by (simp add: can_time_def)

text \<open>Timing with the cycle counter of a machine that makes progress.\<close>

lemma can_time_steady:
  assumes hw: "steady (cycle_hw pf) cyc u T D" "100 * per_event T D \<le> 2 ^ 53" "awake (cycle_hw pf) cyc"
    and mem: "found pf" "cache_ready (cache_memory pf) st" and cf: "USE_FCYC cf \<noteq> 0"
  shows "can_time cf pf st"
proof -
  let ?rn = "rnd (cycle_hw pf)"
  have "?rn (r * 1000000) \<noteq> 0" if "1 \<le> r" for r
    using monoD [OF steadyD(10) [OF hw(1)], of "real 1000000" "r * 1000000"] steadyD(9) [OF hw(1), of 1000000] that
    by simp
  moreover have "D \<le> 2 ^ 52"
    using hw(2) by (simp add: per_event_def)
  moreover have "callibrates (cycle_hw pf)"
    using callibrate_returns [OF hw(1,2)] by (auto simp: callibrates_def)
  moreover have "?rn 2000000 = 2000000"
    using steadyD(9) [OF hw(1), of 2000000] by simp
  ultimately show ?thesis
    using mem cf mhz_steady [OF hw(1,3)] by (fastforce simp: can_time_def)
qed

lemma init_fsecs_ready:
  assumes "can_time cf pf (smp t)"
  shows "\<exists>t'. init_fsecs cf pf t = Some t' \<and> timing_ready cf pf t'"
proof (cases "USE_FCYC cf = 0")
  case False
  then obtain r c where "mhz (cycle_hw pf) (clk t) = Some (r, c)" "rnd (cycle_hw pf) (r * 1000000) \<noteq> 0"
    using assms by (fastforce simp: can_time_def mhz_def mhz_full_def div_double_def Let_def case_prod_beta)
  with False assms show ?thesis
    by (simp add: init_fsecs_def timing_ready_def can_time_def sampler_ready_def cache_ready_def the_buf_def cache_words_def
        set_fcyc_maxsamples_def set_fcyc_clear_cache_def set_fcyc_compensate_def set_fcyc_epsilon_def set_fcyc_k_def cong: option.case_cong)
qed (use assms in \<open>simp add: init_fsecs_def timing_ready_def can_time_def\<close>)

end
