(* ===== verification/Mdriver_Timing.thy ===== *)
theory Mdriver_Timing
  imports Mdriver Timer_Returns
begin

text \<open>
  Timing a run of the driver: the clock and the timers belong to the world, so the driver's
  variables are only changed by the function that is timed, and timing returns for the driver
  when it does for the machine alone.
\<close>

section \<open>Timing keeps the driver's variables\<close>

text \<open>A clock that does not go backwards, where the time is \<open>now\<close>, with exact arithmetic.\<close>

definition clock_forward :: "'w host \<Rightarrow> ('w \<Rightarrow> real) \<Rightarrow> bool" where
  "clock_forward h now \<longleftrightarrow>
     frnd (unix_sys (platform h)) = (\<lambda>x. x)
     \<and> (\<forall>w. seconds (fst (gettimeofday (unix_sys (platform h)) w)) = now w
          \<and> now w \<le> now (snd (gettimeofday (unix_sys (platform h)) w)))
     \<and> (\<forall>t w. now w \<le> now (elapse h t w))"

lemma gettimeofday_lift [simp]:
  "fst (snd (gettimeofday (unix_sys (lift_platform p)) e)) = fst e"
  by (cases e) (simp add: lift_platform_def on_world_def case_prod_beta)

lemma frnd_lift [simp]: "frnd (unix_sys (lift_platform p)) = frnd (unix_sys p)"
  by (simp add: lift_platform_def)

lemma get_put_env [simp]: "get_env (put_env e m) = e" "put_env e (put_env e' m) = put_env e m"
  by (simp_all add: get_env_def put_env_def)

lemma driver_of_put [simp]: "driver_of (put_env e m) = snd (fst e)"
  by (simp add: driver_of_def)

lemma fst_gettimeofday_lift [simp]:
  "fst (gettimeofday (unix_sys (lift_platform p)) e) = fst (gettimeofday (unix_sys p) (snd e))"
  "snd (snd (gettimeofday (unix_sys (lift_platform p)) e)) = snd (gettimeofday (unix_sys p) (snd e))"
  by (cases e; simp add: lift_platform_def on_world_def case_prod_beta)+

text \<open>So whatever holds of the variables and the timed function keeps, timing keeps, by any of the ways.\<close>

lemma lift_platform_keeps: "platform_keeps (lift_platform p) (\<lambda>e. I (fst e))"
  by (simp add: platform_keeps_def cycles_keep_def time_keeps_def lift_platform_def on_world_def case_prod_beta)

section \<open>Timing returns\<close>

text \<open>A clock with the driver's variables in its environment, and the clock alone.\<close>

definition world_clock :: "('s \<times> 'w) clock \<Rightarrow> 'w clock" where
  "world_clock c = \<lparr>cyc_hi = cyc_hi c, cyc_lo = cyc_lo c, cyc_per_tick = cyc_per_tick c,
     start_tick = start_tick c, env = snd (env c)\<rparr>"

abbreviation lifted :: "'w platform \<Rightarrow> ('s \<times> 'w) machine" where
  "lifted p \<equiv> cycle_hw (lift_platform p)"

lemma lifted_simps:
  "rdtsc (lifted p) e = (fst (rdtsc (cycle_hw p) (snd e)), (fst e, snd (rdtsc (cycle_hw p) (snd e))))"
  "tms_utime (lifted p) e = (fst (tms_utime (cycle_hw p) (snd e)), (fst e, snd (tms_utime (cycle_hw p) (snd e))))"
  "sleep_for (lifted p) n e = (fst e, sleep_for (cycle_hw p) n (snd e))" "rnd (lifted p) = rnd (cycle_hw p)"
  by (simp_all add: lift_platform_def on_world_def case_prod_beta)

lemma lifted_start_counter: "start_counter (cycle_hw p) (world_clock c) = world_clock (start_counter (lifted p) c)"
  by (simp add: start_counter_def access_counter_def lifted_simps world_clock_def case_prod_beta)

lemma lifted_get_counter:
  "get_counter (cycle_hw p) (world_clock c) =
    (fst (get_counter (lifted p) c), world_clock (snd (get_counter (lifted p) c)))"
  by (simp add: get_counter_def access_counter_def lifted_simps world_clock_def case_prod_beta Let_def)

lemma lifted_read_times:
  "read_times (cycle_hw p) (world_clock c) =
    (fst (read_times (lifted p) c), world_clock (snd (read_times (lifted p) c)))"
  by (simp add: read_times_def lifted_simps world_clock_def case_prod_beta)

lemma lifted_record_tick: "record_tick x (world_clock c) = world_clock (record_tick x c)"
  by (simp add: record_tick_def world_clock_def)

lemma lifted_callibrate_loop:
  assumes "callibrate_loop hw e oldt oldc c0 = Some d" "hw = cycle_hw p" "c0 = world_clock c"
  shows "\<exists>d'. callibrate_loop (lifted p) e oldt oldc c = Some d'"
  using assms
proof (induction hw e oldt oldc c0 d arbitrary: c rule: callibrate_loop.raw_induct [rotated, consumes 1])
  case prems: (1 rec hw e oldt oldc c0 d c)
  let ?g = "get_counter (lifted p) c"
  let ?t = "read_times (lifted p) (snd ?g)"
  have "get_counter hw c0 = (fst ?g, world_clock (snd ?g))"
    "read_times hw (world_clock (snd ?g)) = (fst ?t, world_clock (snd ?t))"
    by (simp_all add: prems(3,4) lifted_get_counter lifted_read_times)
  with prems(1) [OF _ prems(3)] prems(2,3) show ?case
    by (subst callibrate_loop.simps)
      (auto simp: case_prod_beta lifted_simps lifted_record_tick split: if_split_asm)
qed

lemma callibrates_lift: "callibrates (cycle_hw p) \<Longrightarrow> callibrates (lifted p)"
  unfolding callibrates_def
proof
  fix c
  assume "\<forall>c. \<exists>c'. callibrate (cycle_hw p) c = Some c'"
  then obtain d where "callibrate (cycle_hw p) (world_clock c) = Some d"
    by blast
  then show "\<exists>c'. callibrate (lifted p) c = Some c'"
    by (auto simp: callibrate_def case_prod_beta lifted_read_times lifted_start_counter lifted_get_counter
        intro: lifted_callibrate_loop [OF _ refl refl])
qed

lemma lifted_sleep:
  "(world_clock c)\<lparr>env := sleep_for (cycle_hw p) n (env (world_clock c))\<rparr>
    = world_clock (c\<lparr>env := sleep_for (lifted p) n (env c)\<rparr>)"
  by (simp add: world_clock_def lifted_simps)

lemma mhz_lift:
  assumes "mhz (lifted p) c = Some (r, c')"
  shows "\<exists>d. mhz (cycle_hw p) (world_clock c) = Some (r, d)"
  using assms
  by (auto simp: mhz_def mhz_full_def Let_def case_prod_beta lifted_start_counter lifted_sleep lifted_get_counter
      lifted_simps(4) bind_eq_Some_conv)

lemma can_time_lift: "can_time cf p st \<Longrightarrow> can_time cf (lift_platform p) st"
  using callibrates_lift [of p] mhz_lift [of p]
  by (fastforce simp: can_time_def lifted_simps(4) lift_platform_def [of p] simp del: lifted_simps split: if_split_asm)

lemma fsecs_returns:
  assumes ready: "timing_ready cf (lift_platform p) m"
    and f: "\<And>s w. I s \<Longrightarrow> \<exists>s' w'. f (s, w) = Some (Inr (s', w')) \<and> I s'"
    and I: "I (fst (get_env m))"
  shows "\<exists>secs m'. fsecs cf (lift_platform p) f m = Some (Inr (secs, m'))
    \<and> timing_ready cf (lift_platform p) m' \<and> I (fst (get_env m'))"
  unfolding get_env_def
proof (rule seconds.returns_keeps [where I = "\<lambda>e. I (fst e)", OF ready lift_platform_keeps])
  show "\<exists>e'. f e = Some (Inr e') \<and> I (fst e')" if "I (fst e)" for e
    using f [OF that, of "snd e"] by fastforce
qed (use I in \<open>simp add: get_env_def\<close>)

lemma timing_ready_env [simp]:
  "timing_ready cf pf (put_env e m) = timing_ready cf pf m"
  by (simp add: timing_ready_def put_env_def)

end
