(* ===== verification/Mdriver_Facts.thy ===== *)
theory Mdriver_Facts
  imports Mdriver_Timing
begin

text \<open>
  Facts about \<open>main\<close>: the count of errors against the table of results, for any package and any
  way of timing; and the whole run, timed as \<open>config.h\<close> says, on a package that keeps the contract.
\<close>

section \<open>The count of errors\<close>

lemma mm_speed_funct_keeps:
  "mm_speed_funct h pk (s, w) = Some (Inr (s', w')) \<Longrightarrow> quiet (snd s) (snd s')"
  using eval_mm_speed_frame [of pk "fst s" "snd s" "fst s'" "snd s'"]
  by (auto simp: mm_speed_funct_def split: option.split_asm flow.split_asm)

lemma libc_speed_funct_keeps:
  "libc_speed_funct h (s, w) = Some (Inr (s', w')) \<Longrightarrow> quiet (snd s) (snd s')"
  by (auto simp: libc_speed_funct_def split: option.split_asm flow.split_asm prod.split_asm)

lemma timed_errors:
  assumes "\<And>e e'. f e = Some (Inr e') \<Longrightarrow> quiet (snd (fst e)) (snd (fst e'))"
    and "timed h cf f st m = Some (Inr (st', m'))"
  shows "quiet (driver_of m) (driver_of m') \<and> st_valid st' = st_valid st"
proof -
  obtain secs where secs: "fsecs cf (lift_platform (platform h)) f m = Some (Inr (secs, m'))" "st' = st\<lparr>st_secs := secs\<rparr>"
    using assms(2) by (auto simp: timed_def proceed_Some)
  have "quiet (snd (fst (env (clk m)))) (snd (fst (env (clk m'))))"
  proof (rule seconds.keeps_rel [where R = "\<lambda>e e'. quiet (snd (fst e)) (snd (fst e'))", OF _ assms(1) _ _ secs(1)])
    show "platform_keeps (lift_platform (platform h)) (\<lambda>e. quiet (snd (fst (env (clk m)))) (snd (fst e)))"
      by (rule lift_platform_keeps [where I = "\<lambda>s. quiet (snd (fst (env (clk m)))) (snd s)"])
  qed (auto intro: quiet_trans(1))
  with secs(2) show ?thesis
    by (simp add: driver_of_def get_env_def)
qed

lemma timing_ready_free [simp]: "timing_ready cf pf (free_current h m) = timing_ready cf pf m"
  by (simp add: free_current_def case_prod_beta)

lemma free_current_driver [simp]: "driver_of (free_current h m) = driver_of m"
  by (simp add: free_current_def driver_of_def case_prod_beta)

text \<open>An iteration either finds the trace valid, or reports one error.\<close>

lemma mm_trace_errors:
  assumes "mm_trace h cf pk dir i name m = Some (Inr (st, m'))"
  shows "st_valid st = 1 \<and> quiet (driver_of m) (driver_of m') \<or> st_valid st = 0 \<and> reports i (driver_of m) (driver_of m')"
proof -
  obtain t0 d w where e: "get_env m = ((t0, d), w)"
    by (cases "get_env m") auto
  obtain t where t: "load_trace h False i dir name = Some (Inr t)"
    using assms by (auto simp: mm_trace_def proceed_Some)
  let ?st = "no_stats\<lparr>st_ops := of_int (sint (num_ops t))\<rparr>"
  obtain v t1 d1 where v: "eval_mm_valid pk (range_memory h i) i (t, d) = Some (Return v (t1, d1))"
    using assms t e by (auto simp: mm_trace_def Let_def split: option.split_asm flow.split_asm)
  have r: "v = 1 \<and> quiet d d1 \<or> v = 0 \<and> reports i d d1"
    using eval_mm_valid_Return [OF v] by blast
  show ?thesis
  proof (cases "v = 0")
    case True
    with assms t e v r show ?thesis
      by (auto simp: mm_trace_def driver_of_def [of m])
  next
    case False
    with assms t e v obtain u s2 m2 where u: "eval_mm_util pk (frnd (unix_sys (platform h))) (t1, d1) = Some (Inr (u, s2))"
      and tm: "timed h cf (mm_speed_funct h pk) (?st\<lparr>st_valid := v, st_util := u\<rparr>) (put_env (s2, w) m) = Some (Inr (st, m2))"
      and m': "m' = free_current h m2"
      by (auto simp: mm_trace_def proceed_Some)
    have "quiet d1 (snd s2)"
      using eval_mm_util_frame [of pk "frnd (unix_sys (platform h))" t1 d1 u "fst s2" "snd s2"] u by (cases s2) auto
    moreover have "quiet (snd s2) (driver_of m2) \<and> st_valid st = v"
      using timed_errors [OF _ tm] mm_speed_funct_keeps [of h pk] by fastforce
    moreover have "quiet d d1" "v = 1"
      using r False by auto
    ultimately have "quiet d (driver_of m2)" "st_valid st = 1"
      using quiet_trans(1) by blast+
    with m' show ?thesis
      by (simp add: driver_of_def [of m] e)
  qed
qed

text \<open>The numbers of the traces found invalid; each has an error in the log, in this order.\<close>

fun invalid_traces :: "int \<Rightarrow> stats_t list \<Rightarrow> int list" where
  "invalid_traces i [] = []"
| "invalid_traces i (s # ss) = (if st_valid s = 0 then i # invalid_traces (i + 1) ss else invalid_traces (i + 1) ss)"

definition all_reported :: "int \<Rightarrow> stats_t list \<Rightarrow> 'a driver \<Rightarrow> 'a driver \<Rightarrow> bool" where
  "all_reported i sts d d' \<longleftrightarrow>
     errors d' = errors d + int (length (invalid_traces i sts))
     \<and> (\<exists>es. log d' = log d @ es \<and> map fst es = invalid_traces i sts)"

lemma length_invalid_traces: "length (invalid_traces i ss) = length (filter (\<lambda>s. st_valid s = 0) ss)"
  by (induction ss arbitrary: i) simp_all

lemma invalid_traces_ge: "j \<in> set (invalid_traces i ss) \<Longrightarrow> i \<le> j"
  by (induction ss arbitrary: i) (force split: if_split_asm)+

lemma all_reported_Nil: "quiet d d' \<Longrightarrow> all_reported i [] d d'"
  by (simp add: all_reported_def quiet_def)

lemma all_reported_Cons:
  assumes "st_valid s = 1 \<and> quiet d e \<or> st_valid s = 0 \<and> reports i d e" "all_reported (i + 1) ss e f"
  shows "all_reported i (s # ss) d f"
  using assms by (auto simp: all_reported_def quiet_def reports_def)

lemma each_trace_errors:
  assumes "each_trace (mm_trace h cf pk dir) i names m = Some (Inr (sts, m'))"
  shows "length sts = length names \<and> list_all (\<lambda>s. st_valid s = 0 \<or> st_valid s = 1) sts
    \<and> all_reported i sts (driver_of m) (driver_of m')"
  using assms
proof (induction names arbitrary: i m sts)
  case (Cons name names)
  then obtain st m1 sts1 where st: "mm_trace h cf pk dir i name m = Some (Inr (st, m1))"
    "each_trace (mm_trace h cf pk dir) (i + 1) names m1 = Some (Inr (sts1, m'))" "sts = st # sts1"
    by (auto simp: proceed_Some)
  from mm_trace_errors [OF st(1)] Cons.IH [OF st(2)] all_reported_Cons [of st] show ?case
    by (auto simp: st(3))
qed (simp add: all_reported_Nil)

lemma libc_valid_op_driver:
  assumes "libc_valid_op lc tracenum i x s = Some (Next s')"
  shows "snd (fst s') = snd (fst s)"
  using assms
  by (cases "op_type x")
    (auto simp: libc_valid_op_def bind_eq_Some_conv Let_def case_prod_beta split: if_split_asm)

lemma libc_valid_op_Return: "libc_valid_op lc tracenum i x s \<noteq> Some (Return r s')"
  by (cases "op_type x")
    (auto simp: libc_valid_op_def bind_eq_Some_conv Let_def split: if_split_asm prod.splits)

lemma eval_libc_valid_driver:
  assumes "eval_libc_valid lc tracenum ((t, d), e) = Some (Return v ((t', d'), e'))"
  shows "d' = d \<and> v = 1"
proof -
  let ?run = "for_ops (libc_valid_op lc tracenum) 0 (nat (sint (num_ops t))) (ops t) ((t, d), e)"
  let ?P = "\<lambda>s :: 'a state \<times> 'b. snd (fst s) = d"
  have nr: "?run \<noteq> Some (Return r s)" for r s
    using for_ops_return [where P = "\<lambda>_. True" and Q = "\<lambda>_. False" and r = r, of "libc_valid_op lc tracenum"]
      libc_valid_op_Return by blast
  from assms obtain f where f: "?run = Some f" "(case f of Next s \<Rightarrow> Return 1 s | f \<Rightarrow> f) = Return v ((t', d'), e')"
    by (auto simp: eval_libc_valid_def run_ops_def bind_eq_Some_conv)
  with nr have "f = Next ((t', d'), e')" "v = 1"
    by (cases f; auto)+
  moreover have "?P ((t', d'), e')"
  proof (rule for_ops_inv [where P = ?P])
    show "?run = Some (Next ((t', d'), e'))"
      using f(1) calculation(1) by simp
    show "?P s'" if "libc_valid_op lc tracenum i x s = Some (Next s')" "?P s" for i x s s'
      using libc_valid_op_driver [OF that(1)] that(2) by simp
  qed simp
  ultimately show ?thesis
    by simp
qed

lemma libc_trace_errors:
  assumes "libc_trace h cf dir i name m = Some (Inr (st, m'))"
  shows "quiet (driver_of m) (driver_of m')"
proof -
  obtain t0 d w where e: "get_env m = ((t0, d), w)"
    by (cases "get_env m") auto
  obtain t where t: "load_trace h True i dir name = Some (Inr t)"
    using assms by (auto simp: libc_trace_def proceed_Some)
  let ?st = "no_stats\<lparr>st_ops := of_int (sint (num_ops t))\<rparr>"
  obtain v t1 d1 w1 where v: "eval_libc_valid (c_library h) i ((t, d), w) = Some (Return v ((t1, d1), w1))"
    using assms t e by (auto simp: libc_trace_def Let_def split: option.split_asm flow.split_asm)
  from eval_libc_valid_driver [OF v] have d1: "d1 = d" "v = 1"
    by simp_all
  with assms t e v obtain m2 where tm: "timed h cf (libc_speed_funct h) (?st\<lparr>st_valid := 1\<rparr>)
      (put_env ((t1, d), w1) m) = Some (Inr (st, m2))" "m' = free_current h m2"
    by (auto simp: libc_trace_def proceed_Some)
  have "quiet d (driver_of m2)"
    using timed_errors [OF _ tm(1)] libc_speed_funct_keeps [of h] by fastforce
  with tm(2) e show ?thesis
    by (simp add: driver_of_def [of m])
qed

lemma each_libc_trace_errors:
  assumes "each_trace (libc_trace h cf dir) i names m = Some (Inr (sts, m'))"
  shows "quiet (driver_of m) (driver_of m')"
  using assms
proof (induction names arbitrary: i m sts)
  case (Cons name names)
  then obtain st m1 sts1 where "libc_trace h cf dir i name m = Some (Inr (st, m1))"
    "each_trace (libc_trace h cf dir) (i + 1) names m1 = Some (Inr (sts1, m'))"
    by (auto simp: proceed_Some)
  with libc_trace_errors [OF this(1)] Cons.IH [OF this(2)] quiet_trans(1) show ?case
    by blast
qed simp

section \<open>Times that are not negative\<close>

lemma mm_speed_funct_elapses:
  "clock_forward h now \<Longrightarrow> mm_speed_funct h pk e = Some (Inr e') \<Longrightarrow> now (snd e) \<le> now (snd e')"
  by (auto simp: mm_speed_funct_def clock_forward_def case_prod_beta split: option.split_asm flow.split_asm)

lemma mm_trace_secs:
  assumes "clock_forward h now" "mm_trace h config_h pk dir i name m = Some (Inr (st, m'))"
  shows "0 \<le> st_secs st"
proof -
  have secs: "0 \<le> st_secs st" if tm: "timed h config_h (mm_speed_funct h pk) st0 m0 = Some (Inr (st, m2))" for st0 m0 m2
  proof -
    from tm obtain s where s: "fsecs config_h (lift_platform (platform h)) (mm_speed_funct h pk) m0 = Some (Inr (s, m2))"
      "st = st0\<lparr>st_secs := s\<rparr>"
      by (auto simp: timed_def proceed_Some)
    have "0 \<le> s"
      by (rule fsecs_nonneg [where now = "\<lambda>e. now (snd e)", OF _ _ mm_speed_funct_elapses [OF assms(1)] s(1)])
        (use assms(1) in \<open>simp_all add: clock_forward_def\<close>)
    with s(2) show ?thesis
      by simp
  qed
  obtain t0 d w where e: "get_env m = ((t0, d), w)"
    by (cases "get_env m") auto
  obtain t where t: "load_trace h False i dir name = Some (Inr t)"
    using assms(2) by (auto simp: mm_trace_def proceed_Some)
  obtain v s1 where v: "eval_mm_valid pk (range_memory h i) i (t, d) = Some (Return v s1)"
    using assms(2) t e by (auto simp: mm_trace_def Let_def split: option.split_asm flow.split_asm)
  show ?thesis
  proof (cases "v = 0")
    case True
    with assms(2) t e v show ?thesis
      by (auto simp: mm_trace_def no_stats_def)
  next
    case False
    with assms(2) t e v secs show ?thesis
      by (auto simp: mm_trace_def proceed_Some)
  qed
qed

lemma each_trace_secs:
  assumes "clock_forward h now"
  shows "each_trace (mm_trace h config_h pk dir) i names m = Some (Inr (sts, m')) \<Longrightarrow> list_all (\<lambda>s. 0 \<le> st_secs s) sts"
  by (induction names arbitrary: i m sts) (auto simp: proceed_Some dest: mm_trace_secs [OF assms])

section \<open>A package that keeps the contract\<close>

text \<open>What the statistics of a valid trace say.\<close>

definition valid_stats :: "(real \<Rightarrow> real) \<Rightarrow> stats_t \<Rightarrow> bool" where
  "valid_stats rn s \<longleftrightarrow> st_valid s = 1 \<and> 1 \<le> st_ops s \<and> (\<exists>x. 0 \<le> x \<and> x \<le> 1 \<and> st_util s = rn x)"

text \<open>The driver's variables between the steps of an iteration.\<close>

definition in_order :: "nat \<Rightarrow> nat \<Rightarrow> trace_t \<Rightarrow> int \<Rightarrow> 'a state \<Rightarrow> bool" where
  "in_order limit slack t k s \<longleftrightarrow>
     same_shape t (fst s) \<and> storage_ok (limit + slack) (mach (snd s)) \<and> errors (snd s) = k"

lemma in_orderD:
  assumes "in_order limit slack t k (t', d)" "trace_fits hs limit t"
  shows "storage_ok (limit + slack) (mach d)" "trace_fits hs limit t'" "errors d = k" "same_shape t t'"
  using assms trace_fits_shape [of t t' hs limit] by (simp_all add: in_order_def)

context exact_package
begin

lemma speed_in_order:
  assumes "in_order limit slack t k s" "trace_fits hs limit t" "limit < 2 ^ 31"
  shows "\<exists>s' w'. mm_speed_funct h pk (s, w) = Some (Inr (s', w')) \<and> in_order limit slack t k s'"
proof -
  obtain t1 d1 where s: "s = (t1, d1)"
    by fastforce
  note o = in_orderD [OF assms(1) [unfolded s] assms(2)]
  from speed_fits [OF o(1,2) assms(3)] obtain t2 d2 where "eval_mm_speed pk (t1, d1) = Some (Next (t2, d2))"
    "same_shape t1 t2" "storage_ok (limit + slack) (mach d2)" "\<exists>m. d2 = d1\<lparr>mach := m\<rparr>"
    by blast
  with o same_shape_trans [of t t1 t2] show ?thesis
    by (auto simp: mm_speed_funct_def s in_order_def)
qed

lemma mm_trace_fits:
  assumes load: "load_trace h False i dir name = Some (Inr t)" "trace_fits hs limit t"
    and storage: "storage_ok (limit + slack) (mach (driver_of m))" "limit < 2 ^ 31"
    and nodes: "\<And>j. range_memory h i j" and timing: "timing_ready cf (lift_platform (platform h)) m"
  defines "hwm \<equiv> high_water (length (blocks t)) (\<lambda>_. 0) (ops t)"
  shows "\<exists>st m' size. mm_trace h cf pk dir i name m = Some (Inr (st, m'))
    \<and> st_valid st = 1 \<and> st_ops st = real (length (ops t))
    \<and> st_util st = frnd (unix_sys (platform h)) (real hwm / real size) \<and> hwm \<le> size
    \<and> storage_ok (limit + slack) (mach (driver_of m')) \<and> errors (driver_of m') = errors (driver_of m)
    \<and> timing_ready cf (lift_platform (platform h)) m'"
proof -
  let ?rn = "frnd (unix_sys (platform h))"
  obtain t0 d w where e: "get_env m = ((t0, d), w)"
    by (cases "get_env m") auto
  have d: "storage_ok (limit + slack) (mach d)" "driver_of m = d"
    using storage(1) e by (simp_all add: driver_of_def)
  let ?k = "errors d"
  obtain t1 d1 where v: "eval_mm_valid pk (range_memory h i) i (t, d) = Some (Return 1 (t1, d1))"
    and o0: "in_order limit slack t ?k (t1, d1)"
    using valid_fits [OF d(1) load(2) storage(2), of "range_memory h i" i] nodes by (auto simp: in_order_def)
  note o1 = in_orderD [OF o0 load(2)]
  obtain t2 d2 size where u: "eval_mm_util pk ?rn (t1, d1) = Some (Inr (?rn (real hwm / real size), (t2, d2)))"
    "hwm \<le> size" "in_order limit slack t ?k (t2, d2)"
    using util_fits [OF o1(1,2) storage(2), of ?rn] o1(3,4) same_shape_trans [of t t1]
    by (auto simp: in_order_def hwm_def same_shape_def)
  let ?st = "no_stats\<lparr>st_ops := of_int (sint (num_ops t)), st_valid := 1, st_util := ?rn (real hwm / real size)\<rparr>"
  let ?m = "put_env ((t2, d2), w) m"
  have ready: "timing_ready cf (lift_platform (platform h)) ?m"
    using timing by simp
  have "\<exists>secs m'. fsecs cf (lift_platform (platform h)) (mm_speed_funct h pk) ?m = Some (Inr (secs, m'))
      \<and> timing_ready cf (lift_platform (platform h)) m' \<and> in_order limit slack t ?k (fst (get_env m'))"
    by (rule fsecs_returns [OF ready]) (use speed_in_order [OF _ load(2) storage(2)] u(3) in auto)
  then obtain secs m' where f: "fsecs cf (lift_platform (platform h)) (mm_speed_funct h pk) ?m = Some (Inr (secs, m'))"
    "timing_ready cf (lift_platform (platform h)) m'" "in_order limit slack t ?k (fst (get_env m'))"
    by blast
  have "mm_trace h cf pk dir i name m = Some (Inr (?st\<lparr>st_secs := secs\<rparr>, free_current h m'))"
    using load(1) e v u(1) f(1) by (simp add: mm_trace_def timed_def)
  moreover have "sint (num_ops t) = int (length (ops t))"
    using load(2) by (simp add: trace_fits_def)
  ultimately show ?thesis
    using f(2,3) u(2) d(2) by (auto simp: in_order_def driver_of_def [of m'])
qed

lemma each_trace_fits:
  assumes "\<And>j. j < length names \<Longrightarrow>
      \<exists>t. load_trace h False (i + int j) dir (names ! j) = Some (Inr t) \<and> trace_fits hs limit t"
    and "storage_ok (limit + slack) (mach (driver_of m))" "limit < 2 ^ 31" "\<And>k j. range_memory h k j"
    and "timing_ready cf (lift_platform (platform h)) m"
  shows "\<exists>sts m'. each_trace (mm_trace h cf pk dir) i names m = Some (Inr (sts, m'))
    \<and> length sts = length names \<and> list_all (valid_stats (frnd (unix_sys (platform h)))) sts
    \<and> errors (driver_of m') = errors (driver_of m)"
  using assms(1,2,5)
proof (induction names arbitrary: i m)
  case (Cons name names)
  obtain t where t: "load_trace h False i dir name = Some (Inr t)" "trace_fits hs limit t"
    using Cons.prems(1) [of 0] by auto
  let ?hwm = "high_water (length (blocks t)) (\<lambda>_. 0) (ops t)"
  obtain st m1 size where m1: "mm_trace h cf pk dir i name m = Some (Inr (st, m1))"
    "storage_ok (limit + slack) (mach (driver_of m1))" "errors (driver_of m1) = errors (driver_of m)"
    "timing_ready cf (lift_platform (platform h)) m1"
    and st: "st_valid st = 1" "st_ops st = real (length (ops t))"
      "st_util st = frnd (unix_sys (platform h)) (real ?hwm / real size)" "?hwm \<le> size"
    using mm_trace_fits [OF t Cons.prems(2) assms(3,4) Cons.prems(3)] by blast
  have "real ?hwm / real size \<le> 1"
    using st(4) by (simp add: divide_le_eq)
  moreover have "1 \<le> length (ops t)"
    using t(2) by (simp add: trace_fits_def Suc_le_eq)
  ultimately have "valid_stats (frnd (unix_sys (platform h))) st"
    using st(1-3) by (auto simp: valid_stats_def intro!: exI [of _ "real ?hwm / real size"])
  have "\<exists>t. load_trace h False (i + 1 + int j) dir (names ! j) = Some (Inr t) \<and> trace_fits hs limit t"
    if "j < length names" for j
    using Cons.prems(1) [of "Suc j"] that by (simp add: ac_simps)
  from Cons.IH [OF this m1(2,4)] m1 \<open>valid_stats _ st\<close> show ?case
    by auto
qed simp

end

end
