(* ===== verification/Main_Facts.thy ===== *)
theory Main_Facts
  imports Mdriver_Facts
begin

text \<open>\<open>main\<close> as a whole: its count of errors, and its run on a package that keeps the contract.\<close>

section \<open>The count of errors\<close>

lemma run_libc_part_errors:
  assumes "run_libc_part h cf o' names m = Some (Inr (lsts, m'))"
  shows "quiet (driver_of m) (driver_of m')"
  using assms each_libc_trace_errors [of h cf "tracedir o'" 0 names m _ m']
  by (auto simp: run_libc_part_def proceed_Some split: if_split_asm)

lemma run_mm_part_errors:
  assumes "run_mm_part h cf pk o' names m = Some (Inr (sts, m'))"
  shows "length sts = length names \<and> list_all (\<lambda>s. st_valid s = 0 \<or> st_valid s = 1) sts
    \<and> all_reported 0 sts (driver_of m) (driver_of m')"
proof -
  obtain t d w where e: "get_env m = ((t, d), w)"
    by (cases "get_env m") auto
  with assms obtain s where "each_trace (mm_trace h cf pk (tracedir o')) 0 names
      (put_env ((t, d\<lparr>mach := s\<rparr>), w) m) = Some (Inr (sts, m'))"
    by (auto simp: run_mm_part_def proceed_Some split: if_split_asm)
  from each_trace_errors [OF this] e show ?thesis
    by (simp add: driver_of_def [of m] all_reported_def)
qed

lemma init_fsecs_driver [simp]:
  assumes "init_fsecs cf (lift_platform p) m = Some m'"
  shows "driver_of m' = driver_of m"
  using init_fsecs_keeps [OF assms lift_platform_keeps [where I = "\<lambda>s. snd s = driver_of m"]]
  by (simp add: driver_of_def get_env_def)

lemma summary_counts:
  assumes "summary rn o' n errs sts = (pf, ag)"
  shows "(pf = None \<longleftrightarrow> errs \<noteq> 0)
    \<and> map_option fst ag = (if autograder o' \<noteq> 0 then Some (int (length (filter (\<lambda>s. st_valid s \<noteq> 0) sts))) else None)"
proof -
  obtain a c where a: "accumulate rn sts (\<lparr>agg_secs = 0, agg_ops = 0, agg_util = 0\<rparr>, 0) = (a, c)"
    by fastforce
  then have "c = int (length (filter (\<lambda>s. st_valid s \<noteq> 0) sts))"
    using accumulate_count [of rn sts "\<lparr>agg_secs = 0, agg_ops = 0, agg_util = 0\<rparr>" 0] by simp
  with assms a show ?thesis
    by (auto simp: summary_def Let_def)
qed

lemma filter_zero_length:
  "int (length (filter (\<lambda>s. st_valid s \<noteq> 0) sts)) + int (length (filter (\<lambda>s. st_valid s = 0) sts)) = int (length sts)"
  using sum_length_filter_compl [of "\<lambda>s. st_valid s = 0" sts] by linarith

lemma no_zero_iff:
  "list_all (\<lambda>s. st_valid s = 0 \<or> st_valid s = 1) sts \<Longrightarrow>
    length (filter (\<lambda>s. st_valid s = 0) sts) = 0 \<longleftrightarrow> list_all (\<lambda>s. st_valid s = 1) sts"
  by (induction sts) auto

lemma mainE:
  assumes "main h cf tm pk args m = Some (Inr (rep, m'))"
  obtains o' names n m0 lsts m1 where
    "parse_options (option_memory h) (command_line (posixly_correct h) args) initial_options = Some (Inr o')"
    "choose_tracefiles o' = (names, n)" "init_fsecs cf (lift_platform (platform h)) m = Some m0"
    "run_libc_part h cf o' names m0 = Some (Inr (lsts, m1))"
    "run_mm_part h cf pk o' names m1 = Some (Inr (rp_mm rep, m'))"
    "rp_errors rep = errors (driver_of m')"
    "summary (frnd (unix_sys (platform h))) o' n (errors (driver_of m')) (rp_mm rep) = (rp_perf rep, rp_autograder rep)"
    "rp_output rep = team_text o' tm @ tracefiles_text o' @ init_fsecs_text cf o' (Mhz m0)
      @ libc_text (show_nan h) o' names lsts (rp_libc_table rep)
      @ mm_text (show_ptr h) (show_nan h) o' names (drop (length (log (driver_of m1))) (log (driver_of m')))
          (rp_mm rep) (rp_mm_table rep)
      @ perf_text (frnd (unix_sys (platform h))) (show_nan h) (rp_errors rep) (rp_perf rep)
      @ autograder_text (show_nan h) (rp_autograder rep)"
    "rp_mm_table rep = shown o' (printresults (frnd (unix_sys (platform h))) (rp_errors rep) n (rp_mm rep))"
proof -
  obtain o' where o': "parse_options (option_memory h) (command_line (posixly_correct h) args) initial_options = Some (Inr o')"
    using assms by (auto simp: main_def proceed_Some)
  obtain names n where names: "choose_tracefiles o' = (names, n)"
    by fastforce
  from assms o' names obtain m0 where m0: "init_fsecs cf (lift_platform (platform h)) m = Some m0"
    by (auto simp: main_def proceed_Some split: option.split_asm)
  from assms o' names m0 obtain lsts m1 where l: "run_libc_part h cf o' names m0 = Some (Inr (lsts, m1))"
    by (auto simp: main_def proceed_Some Let_def split: option.split_asm)
  from assms o' names m0 l obtain sts m2 where r: "run_mm_part h cf pk o' names m1 = Some (Inr (sts, m2))"
    by (auto simp: main_def proceed_Some Let_def split: option.split_asm)
  obtain pf ag where s: "summary (frnd (unix_sys (platform h))) o' n (errors (driver_of m2)) sts = (pf, ag)"
    by fastforce
  let ?rn = "frnd (unix_sys (platform h))" and ?lt = "case lsts of None \<Rightarrow> None
      | Some sts \<Rightarrow> shown o' (printresults (frnd (unix_sys (platform h))) (errors (driver_of m1)) n sts)"
  from assms o' names m0 l r s have "m2 = m'" "rep = \<lparr>rp_libc = lsts, rp_libc_table = ?lt, rp_mm = sts,
      rp_mm_table = shown o' (printresults ?rn (errors (driver_of m2)) n sts),
      rp_perf = pf, rp_errors = errors (driver_of m2), rp_autograder = ag,
      rp_output = team_text o' tm @ tracefiles_text o' @ init_fsecs_text cf o' (Mhz m0)
        @ libc_text (show_nan h) o' names lsts ?lt
        @ mm_text (show_ptr h) (show_nan h) o' names (drop (length (log (driver_of m1))) (log (driver_of m2))) sts
            (shown o' (printresults ?rn (errors (driver_of m2)) n sts))
        @ perf_text ?rn (show_nan h) (errors (driver_of m2)) pf @ autograder_text (show_nan h) ag\<rparr>"
    by (auto simp: main_def proceed_Some Let_def split: option.split_asm)
  with o' names m0 l r s that show thesis
    by simp
qed

lemma main_errors:
  assumes "main h cf tm pk args m = Some (Inr (rep, m'))" "errors (driver_of m) = 0"
  shows "rp_errors rep = int (length (filter (\<lambda>s. st_valid s = 0) (rp_mm rep)))
    \<and> list_all (\<lambda>s. st_valid s = 0 \<or> st_valid s = 1) (rp_mm rep)
    \<and> (rp_perf rep \<noteq> None \<longleftrightarrow> list_all (\<lambda>s. st_valid s = 1) (rp_mm rep))
    \<and> map_option fst (rp_autograder rep) \<in> {None, Some (int (length (rp_mm rep)) - rp_errors rep)}"
proof (rule mainE [OF assms(1)])
  fix o' names n m0 lsts m1
  assume f: "init_fsecs cf (lift_platform (platform h)) m = Some m0"
    and l: "run_libc_part h cf o' names m0 = Some (Inr (lsts, m1))"
    and r: "run_mm_part h cf pk o' names m1 = Some (Inr (rp_mm rep, m'))"
    and e: "rp_errors rep = errors (driver_of m')"
    and s: "summary (frnd (unix_sys (platform h))) o' n (errors (driver_of m')) (rp_mm rep) = (rp_perf rep, rp_autograder rep)"
  have "errors (driver_of m1) = 0"
    using run_libc_part_errors [OF l] init_fsecs_driver [OF f] assms(2) by (simp add: quiet_def)
  with run_mm_part_errors [OF r] length_invalid_traces [of 0 "rp_mm rep"]
  have c: "list_all (\<lambda>s. st_valid s = 0 \<or> st_valid s = 1) (rp_mm rep)"
    "errors (driver_of m') = int (length (filter (\<lambda>s. st_valid s = 0) (rp_mm rep)))"
    by (simp_all add: all_reported_def)
  from summary_counts [OF s] filter_zero_length [of "rp_mm rep"] c(2)
  have "map_option fst (rp_autograder rep) \<in> {None, Some (int (length (rp_mm rep)) - rp_errors rep)}"
    by (auto simp: e)
  with summary_counts [OF s] c no_zero_iff [OF c(1)] show ?thesis
    by (simp add: e)
qed

section \<open>A package that keeps the contract\<close>

text \<open>The driver's variables of a machine and the trace files it is called with.\<close>

definition files_fit :: "'w host \<Rightarrow> 'h heap_spec \<Rightarrow> nat \<Rightarrow> options \<Rightarrow> bool" where
  "files_fit h hs limit o' \<longleftrightarrow>
     list_all (\<lambda>(i, name). \<exists>t. load_trace h False (int i) (tracedir o') name = Some (Inr t)
        \<and> trace_fits hs limit t)
       (enumerate 0 (fst (choose_tracefiles o')))"

text \<open>From the command line to the loop over the traces, and from there to the end.\<close>

lemma main_start:
  assumes opts: "parse_options (option_memory h) (command_line (posixly_correct h) args) initial_options = Some (Inr o')"
    and team: "team_check o' = 0 \<or> check_team tm = None" and libc: "run_libc o' = 0"
    and mem: "stats_memory h False" and names: "choose_tracefiles o' = (names, n)"
    and heap: "heap_storage h \<noteq> NULL" "8 dvd unat (heap_storage h)"
      "unat (heap_storage h) + MAX_HEAP + need \<le> 2 ^ 32" "0 < need"
    and timing: "can_time cf (platform h) (smp m)"
  obtains m1 where "storage_ok need (mach (driver_of m1))" "timing_ready cf (lift_platform (platform h)) m1"
    "errors (driver_of m1) = errors (driver_of m)"
    "\<And>x. each_trace (mm_trace h cf pk (tracedir o')) 0 names m1 = Some (Inl x) \<Longrightarrow> main h cf tm pk args m = Some (Inl x)"
    "\<And>sts m2. each_trace (mm_trace h cf pk (tracedir o')) 0 names m1 = Some (Inr (sts, m2)) \<Longrightarrow> errors (driver_of m2) = 0
      \<Longrightarrow> \<exists>rep. main h cf tm pk args m = Some (Inr (rep, m2)) \<and> rp_mm rep = sts \<and> rp_errors rep = 0 \<and> rp_perf rep \<noteq> None"
proof -
  obtain m0 where init: "init_fsecs cf (lift_platform (platform h)) m = Some m0"
    and ready: "timing_ready cf (lift_platform (platform h)) m0"
    using init_fsecs_ready [OF can_time_lift [OF timing]] by blast
  obtain t d w where e: "get_env m0 = ((t, d), w)"
    by (cases "get_env m0") auto
  have d: "driver_of m = d"
    using e init_fsecs_driver [OF init] by (simp add: driver_of_def)
  let ?s = "mach d\<lparr>mem_start_brk := heap_storage h, mem_max_addr := heap_storage h + of_nat MAX_HEAP,
    mem_brk := heap_storage h\<rparr>"
  let ?m1 = "put_env ((t, d\<lparr>mach := ?s\<rparr>), w) m0" and ?loop = "each_trace (mm_trace h cf pk (tracedir o')) 0 names"
  have hi: "unat (heap_storage h + of_nat MAX_HEAP) = unat (heap_storage h) + MAX_HEAP"
    using heap(3,4) by (simp add: unat_word_ariths unat_word32 MAX_HEAP_val)
  have "0 < unat (heap_storage h)"
    using heap(1) by (simp add: unat_gt_0)
  then have storage: "storage_ok need (mach (driver_of ?m1))"
    using heap(2,3) hi by (simp add: storage_ok_def arena_ok_def mem_reset_brk_def)
  have part: "run_mm_part h cf pk o' names m0 = ?loop ?m1"
    using mem e heap(1) by (simp add: run_mm_part_def mem_init_def)
  show thesis
  proof (rule that [of ?m1])
    show "main h cf tm pk args m = Some (Inl x)" if "?loop ?m1 = Some (Inl x)" for x
      using opts team libc names init that part by (auto simp: main_def run_libc_part_def Let_def)
    show "\<exists>rep. main h cf tm pk args m = Some (Inr (rep, m2)) \<and> rp_mm rep = sts \<and> rp_errors rep = 0 \<and> rp_perf rep \<noteq> None"
      if "?loop ?m1 = Some (Inr (sts, m2))" "errors (driver_of m2) = 0" for sts m2
    proof -
      obtain pf ag where "summary (frnd (unix_sys (platform h))) o' n 0 sts = (pf, ag)"
        by fastforce
      with summary_counts [OF this] show ?thesis
        using opts team libc names init that part by (auto simp: main_def run_libc_part_def Let_def)
    qed
  qed (use storage ready d in simp_all)
qed

lemma files_fitD:
  assumes "files_fit h hs limit o'" "j < length (fst (choose_tracefiles o'))"
  shows "\<exists>t. load_trace h False (0 + int j) (tracedir o') (fst (choose_tracefiles o') ! j) = Some (Inr t)
    \<and> trace_fits hs limit t"
  using assms by (auto simp: files_fit_def list_all_length nth_enumerate_eq)

lemma each_trace_append:
  "each_trace body i (xs @ ys) m =
    proceed (each_trace body i xs m) (\<lambda>(sts, m).
    proceed (each_trace body (i + int (length xs)) ys m) (\<lambda>(sts', m). Some (Inr (sts @ sts', m))))"
proof (induction xs arbitrary: i m)
  case (Cons x xs)
  then show ?case
    by (auto simp: proceed_def ac_simps split: option.split sum.split prod.split)
qed (auto simp: proceed_def split: option.split sum.split prod.split)

context exact_package
begin

lemma main_fits:
  assumes opts: "parse_options (option_memory h) (command_line (posixly_correct h) args) initial_options = Some (Inr o')"
    and team: "team_check o' = 0 \<or> check_team tm = None" and libc: "run_libc o' = 0"
    and mem: "stats_memory h False" "\<And>i j. range_memory h i j"
    and heap: "heap_storage h \<noteq> NULL" "8 dvd unat (heap_storage h)"
      "unat (heap_storage h) + MAX_HEAP + limit + slack \<le> 2 ^ 32" "0 < slack"
    and files: "files_fit h hs limit o'" and limit: "limit < 2 ^ 31"
    and errs: "errors (driver_of m) = 0" and timing: "can_time cf (platform h) (smp m)"
  shows "\<exists>rep m'. main h cf tm pk args m = Some (Inr (rep, m'))
    \<and> rp_errors rep = 0 \<and> list_all (valid_stats (frnd (unix_sys (platform h)))) (rp_mm rep)
    \<and> length (rp_mm rep) = length (fst (choose_tracefiles o')) \<and> rp_perf rep \<noteq> None"
proof -
  let ?names = "fst (choose_tracefiles o')"
  have need: "unat (heap_storage h) + MAX_HEAP + (limit + slack) \<le> 2 ^ 32" "0 < limit + slack"
    using heap(3,4) by simp_all
  obtain m1 where m1: "storage_ok (limit + slack) (mach (driver_of m1))"
    "timing_ready cf (lift_platform (platform h)) m1" "errors (driver_of m1) = errors (driver_of m)"
    and finish: "\<And>sts m2. each_trace (mm_trace h cf pk (tracedir o')) 0 ?names m1 = Some (Inr (sts, m2)) \<Longrightarrow> errors (driver_of m2) = 0
      \<Longrightarrow> \<exists>rep. main h cf tm pk args m = Some (Inr (rep, m2)) \<and> rp_mm rep = sts \<and> rp_errors rep = 0 \<and> rp_perf rep \<noteq> None"
    by (rule main_start [where h = h and cf = cf and pk = pk and m = m,
          OF opts team libc mem(1) prod.collapse [symmetric] heap(1,2) need timing]) blast
  from each_trace_fits [OF files_fitD [OF files] m1(1) limit mem(2) m1(2)] obtain sts m2
    where r: "each_trace (mm_trace h cf pk (tracedir o')) 0 ?names m1 = Some (Inr (sts, m2))"
      "length sts = length ?names" "list_all (valid_stats (frnd (unix_sys (platform h)))) sts"
      "errors (driver_of m2) = errors (driver_of m1)"
    by blast
  with finish [OF r(1)] m1(3) errs show ?thesis
    by auto
qed

text \<open>A trace file that cannot be opened ends the run, whatever was evaluated before.\<close>

lemma main_missing:
  assumes opts: "parse_options (option_memory h) (command_line (posixly_correct h) args) initial_options = Some (Inr o')"
    and team: "team_check o' = 0 \<or> check_team tm = None" and libc: "run_libc o' = 0"
    and mem: "stats_memory h False" "\<And>i j. range_memory h i j"
    and heap: "heap_storage h \<noteq> NULL" "8 dvd unat (heap_storage h)"
      "unat (heap_storage h) + MAX_HEAP + limit + slack \<le> 2 ^ 32" "0 < slack"
    and limit: "limit < 2 ^ 31" and timing: "can_time cf (platform h) (smp m)"
    and names: "choose_tracefiles o' = (pre @ name # post, n)"
    and files: "\<And>j. j < length pre \<Longrightarrow>
      \<exists>t. load_trace h False (0 + int j) (tracedir o') (pre ! j) = Some (Inr t) \<and> trace_fits hs limit t"
    and missing: "open_file h (tracedir o' @ name) = None" "trace_memory h False (int (length pre)) 1"
      "length (tracedir o' @ name) + 29 < MAXLINE"
  shows "main h cf tm pk args m = Some (Inl (unix_error (''Could not open '' @ (tracedir o' @ name) @ '' in read_trace'')))"
proof -
  have need: "unat (heap_storage h) + MAX_HEAP + (limit + slack) \<le> 2 ^ 32" "0 < limit + slack"
    using heap(3,4) by simp_all
  obtain m1 where m1: "storage_ok (limit + slack) (mach (driver_of m1))"
    "timing_ready cf (lift_platform (platform h)) m1"
    and stop: "\<And>x. each_trace (mm_trace h cf pk (tracedir o')) 0 (pre @ name # post) m1 = Some (Inl x)
      \<Longrightarrow> main h cf tm pk args m = Some (Inl x)"
    by (rule main_start [where h = h and cf = cf and pk = pk and m = m,
          OF opts team libc mem(1) names heap(1,2) need timing]) blast
  from each_trace_fits [OF files m1(1) limit mem(2) m1(2)] obtain sts m2
    where "each_trace (mm_trace h cf pk (tracedir o')) 0 pre m1 = Some (Inr (sts, m2))"
    by blast
  moreover have "load_trace h False (int (length pre)) (tracedir o') name
      = Some (Inl (unix_error (''Could not open '' @ (tracedir o' @ name) @ '' in read_trace'')))"
    using missing by (simp add: load_trace_def read_trace_def)
  ultimately show ?thesis
    by (intro stop) (simp add: each_trace_append mm_trace_def)
qed

end

end
