(* ===== verification/Main_Output.thy ===== *)
theory Main_Output
  imports Main_Facts
begin

text \<open>
  What \<open>main\<close> writes to its standard output: the whole of it in the default mode, and what a
  program that reads the lines for the autograder gets from them.
\<close>

section \<open>The lines about invalid traces\<close>

text \<open>The errors with a trace number of at least \<open>i\<close> are those of the traces from \<open>i\<close> on.\<close>

lemma mm_traces_text_quiet:
  assumes "verbose o' = 0" "length names = length sts"
    and "map fst (filter (\<lambda>e. i \<le> fst e) es) = invalid_traces i sts"
  shows "mm_traces_text sp o' es i names sts = concat (map (malloc_error_text sp) (filter (\<lambda>e. i \<le> fst e) es))"
  using assms(2,3)
proof (induction sts arbitrary: i names)
  case (Cons s sts)
  let ?F = "filter (\<lambda>e. i \<le> fst e) es"
  obtain name names' where names: "names = name # names'"
    using Cons.prems(1) by (cases names) auto
  have now: "filter (\<lambda>e. fst e = i) es = filter (\<lambda>e. fst e = i) ?F"
    and later: "filter (\<lambda>e. i + 1 \<le> fst e) es = filter (\<lambda>e. i + 1 \<le> fst e) ?F"
    by (auto intro!: filter_cong)
  have ge: "i + 1 \<le> fst e" if "map fst xs = invalid_traces (i + 1) sts" "e \<in> set xs" for e and xs :: "(int \<times> int \<times> err_msg) list"
    by (rule invalid_traces_ge [of _ _ sts]) (use that in \<open>simp flip: that(1)\<close>)
  have split: "filter (\<lambda>e. fst e = i) xs = []" "filter (\<lambda>e. i + 1 \<le> fst e) xs = xs"
    if "map fst xs = invalid_traces (i + 1) sts" for xs :: "(int \<times> int \<times> err_msg) list"
    using ge [OF that] by (force simp: filter_empty_conv, simp add: filter_id_conv)
  show ?case
  proof (cases "st_valid s = 0")
    case True
    with Cons.prems(2) obtain e xs where F: "?F = e # xs" "fst e = i" "map fst xs = invalid_traces (i + 1) sts"
      by auto
    have "filter (\<lambda>e. i + 1 \<le> fst e) es = xs"
      unfolding later F(1) using F(2) split(2) [OF F(3)] by simp
    moreover have "filter (\<lambda>e. fst e = i) es = [e]"
      unfolding now F(1) using F(2) split(1) [OF F(3)] by simp
    ultimately show ?thesis
      using Cons.IH [of names' "i + 1"] Cons.prems(1) F(1,3) assms(1) by (simp add: names mm_trace_text_def)
  next
    case False
    with Cons.prems(2) have F: "map fst ?F = invalid_traces (i + 1) sts"
      by simp
    have "filter (\<lambda>e. i + 1 \<le> fst e) es = ?F"
      unfolding later by (rule split(2) [OF F])
    moreover have "filter (\<lambda>e. fst e = i) es = []"
      unfolding now by (rule split(1) [OF F])
    ultimately show ?thesis
      using Cons.IH [of names' "i + 1"] Cons.prems(1) F assms(1) by (simp add: names mm_trace_text_def)
  qed
qed simp

text \<open>All output without \<open>-v\<close>, \<open>-V\<close> and \<open>-l\<close>.\<close>

lemma main_quiet_output:
  assumes run: "main h cf tm pk args m = Some (Inr (rep, m'))"
    and opts: "parse_options (option_memory h) (command_line (posixly_correct h) args) initial_options = Some (Inr o')"
      "verbose o' = 0" "run_libc o' = 0"
  shows "\<exists>es. log (driver_of m') = log (driver_of m) @ es \<and> map fst es = invalid_traces 0 (rp_mm rep)
    \<and> rp_output rep = team_text o' tm @ tracefiles_text o' @ concat (map (malloc_error_text (show_ptr h)) es)
        @ perf_text (frnd (unix_sys (platform h))) (show_nan h) (rp_errors rep) (rp_perf rep)
        @ autograder_text (show_nan h) (rp_autograder rep)"
proof (rule mainE [OF run])
  fix q names n m0 lsts m1
  assume q: "parse_options (option_memory h) (command_line (posixly_correct h) args) initial_options = Some (Inr q)"
    and f: "init_fsecs cf (lift_platform (platform h)) m = Some m0"
    and l: "run_libc_part h cf q names m0 = Some (Inr (lsts, m1))"
    and r: "run_mm_part h cf pk q names m1 = Some (Inr (rp_mm rep, m'))"
    and out: "rp_output rep = team_text q tm @ tracefiles_text q @ init_fsecs_text cf q (Mhz m0)
      @ libc_text (show_nan h) q names lsts (rp_libc_table rep)
      @ mm_text (show_ptr h) (show_nan h) q names (drop (length (log (driver_of m1))) (log (driver_of m')))
          (rp_mm rep) (rp_mm_table rep)
      @ perf_text (frnd (unix_sys (platform h))) (show_nan h) (rp_errors rep) (rp_perf rep)
      @ autograder_text (show_nan h) (rp_autograder rep)"
    and tb: "rp_mm_table rep = shown q (printresults (frnd (unix_sys (platform h))) (rp_errors rep) n (rp_mm rep))"
  have q': "q = o'"
    using q opts(1) by simp
  have log: "log (driver_of m1) = log (driver_of m)"
    using run_libc_part_errors [OF l] init_fsecs_driver [OF f] by (simp add: quiet_def)
  from run_mm_part_errors [OF r] obtain es where es: "log (driver_of m') = log (driver_of m) @ es"
    "map fst es = invalid_traces 0 (rp_mm rep)" "length names = length (rp_mm rep)"
    by (auto simp: all_reported_def log)
  have "\<forall>e \<in> set es. 0 \<le> fst e"
    using invalid_traces_ge [of _ 0 "rp_mm rep"] by (auto simp flip: es(2))
  then have "filter (\<lambda>e. 0 \<le> fst e) es = es"
    by (simp add: filter_id_conv)
  then have "mm_text (show_ptr h) (show_nan h) o' names es (rp_mm rep) (rp_mm_table rep)
      = concat (map (malloc_error_text (show_ptr h)) es)"
    using mm_traces_text_quiet [OF opts(2) es(3), of 0 es] es(2) opts(2) tb by (simp add: mm_text_def shown_def q')
  moreover have "lsts = None"
    using l opts(3) by (simp add: run_libc_part_def q')
  ultimately have "rp_output rep = team_text o' tm @ tracefiles_text o' @ concat (map (malloc_error_text (show_ptr h)) es)
      @ perf_text (frnd (unix_sys (platform h))) (show_nan h) (rp_errors rep) (rp_perf rep)
      @ autograder_text (show_nan h) (rp_autograder rep)"
    using out opts(2) by (simp add: q' log es(1) init_fsecs_text_def libc_text_def)
  with es show ?thesis
    by blast
qed

section \<open>The lines for the autograder\<close>

lemma autograder_text_reads:
  assumes "0 \<le> x" "x \<le> 100" "k < 2 ^ 31"
  shows "\<exists>c p j. autograder_text nan (Some (int k, Fin x)) = ''correct:'' @ c
    \<and> fscanf_d old c = Some (of_nat k, CHR 0x0A # ''perfidx:'' @ p)
    \<and> fscanf_d old p = Some (of_nat j, [CHR 0x0A]) \<and> j \<le> 100 \<and> \<bar>real j - x\<bar> \<le> 1 / 2"
proof -
  let ?p = "decimal (round_even x) @ [CHR 0x0A]"
  have stops: "stops (CHR 0x0A # s)" for s
    by (simp add: stops_def isdigit_def)
  have j: "round_even x \<le> 100"
    using round_even_le [of x 100] assms(1,2) by simp
  have "autograder_text nan (Some (int k, Fin x)) = ''correct:'' @ decimal k @ CHR 0x0A # ''perfidx:'' @ ?p"
    using assms(1) by (simp add: autograder_text_def line_def show_int_def fixed_double_def fixed_0)
  moreover have "fscanf_d old (decimal k @ CHR 0x0A # ''perfidx:'' @ ?p) = Some (of_nat k, CHR 0x0A # ''perfidx:'' @ ?p)"
    using scan_decimal [OF stops, of k] assms(3) by (simp add: fscanf_d_def as_int_def)
  moreover have "fscanf_d old ?p = Some (of_nat (round_even x), [CHR 0x0A])"
    using scan_decimal [OF stops, of "round_even x" "[]"] j by (simp add: fscanf_d_def as_int_def)
  ultimately show ?thesis
    using j round_even_near [OF assms(1)] by blast
qed

lemma main_autograder_reads:
  assumes run: "main h cf tm pk args m = Some (Inr (rep, m'))" and ag: "rp_autograder rep \<noteq> None"
    and rn: "rounding n (frnd (unix_sys (platform h)))" "100 \<le> n"
    and good: "list_all good_stats (rp_mm rep)" "list_all (\<lambda>s. 1 \<le> st_ops s) (rp_mm rep)"
  shows "\<exists>pre c p j x. rp_output rep = pre @ ''correct:'' @ c
    \<and> fscanf_d old c = Some (of_nat (length (filter (\<lambda>s. st_valid s \<noteq> 0) (rp_mm rep))), CHR 0x0A # ''perfidx:'' @ p)
    \<and> fscanf_d old p = Some (of_nat j, [CHR 0x0A]) \<and> j \<le> 100
    \<and> map_option snd (rp_autograder rep) = Some (Fin x) \<and> \<bar>real j - x\<bar> \<le> 1 / 2"
proof (rule mainE [OF run])
  fix o' names k m0 lsts m1
  let ?rn = "frnd (unix_sys (platform h))" and ?k = "length (filter (\<lambda>s. st_valid s \<noteq> 0) (rp_mm rep))"
  assume o': "parse_options (option_memory h) (command_line (posixly_correct h) args) initial_options = Some (Inr o')"
    and names: "choose_tracefiles o' = (names, k)"
    and r: "run_mm_part h cf pk o' names m1 = Some (Inr (rp_mm rep, m'))"
    and s: "summary ?rn o' k (errors (driver_of m')) (rp_mm rep) = (rp_perf rep, rp_autograder rep)"
    and out: "rp_output rep = team_text o' tm @ tracefiles_text o' @ init_fsecs_text cf o' (Mhz m0)
      @ libc_text (show_nan h) o' names lsts (rp_libc_table rep)
      @ mm_text (show_ptr h) (show_nan h) o' names (drop (length (log (driver_of m1))) (log (driver_of m')))
          (rp_mm rep) (rp_mm_table rep)
      @ perf_text ?rn (show_nan h) (rp_errors rep) (rp_perf rep) @ autograder_text (show_nan h) (rp_autograder rep)"
  have "length (rp_mm rep) = length names"
    using run_mm_part_errors [OF r] by blast
  with choose_tracefiles_length [OF parse_options_ok [OF initial_options_ok o'] names]
  have len: "k = int (length (rp_mm rep))" "0 < k" "k \<le> 11"
    by metis+
  obtain a c where acc: "accumulate ?rn (rp_mm rep) (\<lparr>agg_secs = 0, agg_ops = 0, agg_util = 0\<rparr>, 0) = (a, c)"
    by fastforce
  have "\<exists>x. pf_index (perf ?rn k a) = Fin x \<and> 0 \<le> x \<and> x \<le> 100"
    unfolding len(1) using len accumulate_ops [OF rn(1) _ good(2), of "\<lparr>agg_secs = 0, agg_ops = 0, agg_util = 0\<rparr>" 0] acc rn(2)
    by (intro index_bounds [OF rn good(1) _ _ acc]) auto
  moreover have "c = int ?k"
    using accumulate_count [of ?rn "rp_mm rep" "\<lparr>agg_secs = 0, agg_ops = 0, agg_util = 0\<rparr>" 0] acc by simp
  moreover have "rp_perf rep = (if errors (driver_of m') = 0 then Some (perf ?rn k a) else None)"
    "rp_autograder rep = Some (c, case rp_perf rep of None \<Rightarrow> Fin 0 | Some p \<Rightarrow> pf_index p)"
    using s acc ag by (auto simp: summary_def Let_def split: if_split_asm)
  ultimately obtain x where x: "rp_autograder rep = Some (int ?k, Fin x)" "0 \<le> x" "x \<le> 100"
    by (cases "errors (driver_of m') = 0") auto
  have "?k \<le> length (rp_mm rep)"
    by (rule length_filter_le)
  also have "\<dots> < 2 ^ 31"
    using len by simp
  finally have small: "?k < 2 ^ 31" .
  from autograder_text_reads [OF x(2,3) small, of "show_nan h" old] obtain c p j where
    t: "autograder_text (show_nan h) (rp_autograder rep) = ''correct:'' @ c"
    "fscanf_d old c = Some (of_nat ?k, CHR 0x0A # ''perfidx:'' @ p)"
    "fscanf_d old p = Some (of_nat j, [CHR 0x0A]) \<and> j \<le> 100 \<and> \<bar>real j - x\<bar> \<le> 1 / 2"
    unfolding x(1) by blast
  obtain pre where "rp_output rep = pre @ ''correct:'' @ c"
    unfolding out t(1) by (metis append.assoc)
  with t(2,3) x(1) show ?thesis
    by (intro exI [of _ pre] exI [of _ c] exI [of _ p] exI [of _ j] exI [of _ x]) simp
qed

section \<open>A graded run\<close>

lemma main_secs:
  assumes "clock_forward h now" "main h config_h tm pk args m = Some (Inr (rep, m'))"
  shows "list_all (\<lambda>s. 0 \<le> st_secs s) (rp_mm rep)"
proof (rule mainE [OF assms(2)])
  fix o' names m1
  assume "run_mm_part h config_h pk o' names m1 = Some (Inr (rp_mm rep, m'))"
  then show ?thesis
    by (auto simp: run_mm_part_def proceed_Some case_prod_beta split: if_split_asm dest: each_trace_secs [OF assms(1)])
qed

lemma main_autograder:
  assumes "main h cf tm pk args m = Some (Inr (rep, m'))"
    and "parse_options (option_memory h) (command_line (posixly_correct h) args) initial_options = Some (Inr o')"
    and "autograder o' \<noteq> 0"
  shows "rp_autograder rep \<noteq> None"
proof (rule mainE [OF assms(1)])
  fix q k
  assume "parse_options (option_memory h) (command_line (posixly_correct h) args) initial_options = Some (Inr q)"
    and s: "summary (frnd (unix_sys (platform h))) q k (errors (driver_of m')) (rp_mm rep) = (rp_perf rep, rp_autograder rep)"
  then have "autograder q \<noteq> 0"
    using assms(2,3) by simp
  with summary_counts [OF s] show ?thesis
    by auto
qed

text \<open>A run that finds every trace valid is graded as such.\<close>

lemma valid_run_grade:
  assumes run: "main h config_h tm pk args m = Some (Inr (rep, m'))"
    and opts: "parse_options (option_memory h) (command_line (posixly_correct h) args) initial_options = Some (Inr o')"
      "autograder o' \<noteq> 0"
    and clock: "clock_forward h now" and valid: "list_all (valid_stats (frnd (unix_sys (platform h)))) (rp_mm rep)"
  shows "\<exists>pre c p j. rp_output rep = pre @ ''correct:'' @ c
    \<and> fscanf_d old c = Some (of_nat (length (rp_mm rep)), CHR 0x0A # ''perfidx:'' @ p)
    \<and> fscanf_d old p = Some (of_nat j, [CHR 0x0A]) \<and> j \<le> 100"
proof -
  have rn: "frnd (unix_sys (platform h)) = (\<lambda>x. x)"
    using clock by (simp add: clock_forward_def)
  then have "rounding 100 (frnd (unix_sys (platform h)))"
    by (simp add: rounding_def)
  moreover have "list_all good_stats (rp_mm rep)" "list_all (\<lambda>s. 1 \<le> st_ops s) (rp_mm rep)"
    using valid main_secs [OF clock run] by (auto simp: list_all_iff valid_stats_def good_stats_def rn)
  moreover have "filter (\<lambda>s. st_valid s \<noteq> 0) (rp_mm rep) = rp_mm rep"
    using valid by (auto simp: list_all_iff valid_stats_def filter_id_conv)
  ultimately show ?thesis
    using main_autograder_reads [OF run main_autograder [OF run opts], of 100 old] by auto
qed

end
