(* ===== verification/Main_Correct.thy ===== *)
theory Main_Correct
  imports Main_Output Driver_Correct Timing_Correct
begin

text \<open>
  The properties of \<open>main\<close> and of the report in \<open>mdriver.c\<close>, for \<open>config.h\<close> as it is. The
  concrete runs are of a machine with three trace files, one of them \<open>short1-bal.rep\<close> as it
  comes with the program, and a clock in microseconds.
\<close>

section \<open>A concrete machine\<close>

text \<open>
  Two blocks of 12 million bytes one after the other: together they are larger than the
  storage, but the second one takes the place of the first.
\<close>

definition big_ops :: "traceop_t list" where
  "big_ops = [op ALLOC 0 12000000, op FREE 0 0, op ALLOC 1 12000000, op FREE 1 0]"

definition big_trace :: trace_t where
  "big_trace = \<lparr>sugg_heapsize = 0, num_ids = 2, num_ops = 4, weight = 1, ops = big_ops,
     blocks = [None, None], block_sizes = [None, None]\<rparr>"

lemma big_facts:
  "length big_ops \<le> array_length 4 12" "(4 :: u32) = of_nat (length big_ops)"
  "max_index 0 big_ops = 2 - 1" "with_junk (\<lambda>_. 0) 0 big_ops = big_ops"
  by (simp_all add: big_ops_def array_length_def max_index_def op_def)

lemma big_read: "read_trace path (\<lambda>_. True) raw (\<lambda>_. 0) 0 (Some (trace_text 0 2 4 1 big_ops)) = Some (Inr big_trace)"
  using read_trace_text [OF big_facts(1-3), of 0 1 path raw "\<lambda>_. 0" 0]
  by (simp add: parsed_trace_def big_facts(4) demo_facts(5) big_trace_def)

definition demo_host :: "int host" where
  "demo_host = \<lparr>open_file = (\<lambda>p. if p = ''./short1-bal.rep'' then Some short1_bal
       else if p = ''./demo.rep'' then Some (trace_text 0 2 5 1 demo_ops)
       else if p = ''./big.rep'' then Some (trace_text 0 2 4 1 big_ops) else None),
     trace_memory = (\<lambda>_ _ _. True), trace_raw = (\<lambda>_ _. demo_trace), trace_junk = (\<lambda>_ _ _. 0),
     trace_size0 = (\<lambda>_ _. 0),
     range_memory = (\<lambda>_ _. True), stats_memory = (\<lambda>_. True), option_memory = True, posixly_correct = False,
     show_ptr = (\<lambda>p. decimal (unat p)), show_nan = ''-nan'',
     heap_storage = 0x10000,
     c_library = \<lparr>lc_malloc = (\<lambda>_ w. (NULL, w)), lc_free = (\<lambda>_ w. w), lc_realloc = (\<lambda>_ _ w. (NULL, w))\<rparr>,
     elapse = (\<lambda>_ w. w + 50), release = (\<lambda>_ w. w),
     platform = \<lparr>cycle_hw = \<lparr>rdtsc = (\<lambda>w. ((0, 0), w)), tms_utime = (\<lambda>w. (0, w)), sleep_for = (\<lambda>_ w. w), rnd = (\<lambda>x. x)\<rparr>,
       unix_sys = microseconds, found = True, cache_memory = (\<lambda>_. None)\<rparr>\<rparr>"

definition demo_main :: "(unit mm_ext, int) main_state" where
  "demo_main = \<lparr>Mhz = 0, smp = fcyc_defaults (\<lambda>x. x),
     itms = \<lparr>first_u = max_timer, first_r = max_timer, first_p = max_timer\<rparr>,
     clk = \<lparr>cyc_hi = 0, cyc_lo = 0, cyc_per_tick = 0, start_tick = 0, env = ((demo_trace, demo_driver), 0)\<rparr>\<rparr>"

text \<open>\<open>mdriver -V -f short1-bal.rep\<close>, the example in the program's documentation.\<close>

definition demo_args :: "string list" where
  "demo_args = [''-V'', ''-f'', ''short1-bal.rep'']"

definition demo_options :: options where
  "demo_options = initial_options\<lparr>verbose := 2, num_tracefiles := 1, tracedir := ''./'',
     tracefiles := Some [''short1-bal.rep'']\<rparr>"

lemma demo_command_line:
  "command_line False demo_args = [(CHR ''V'', []), (CHR ''f'', ''short1-bal.rep'')]"
  by (simp add: command_line_def demo_args_def getopts.simps getopt_def main_optstring_def)

lemma demo_parsed: "parse_options True (command_line False demo_args) initial_options = Some (Inr demo_options)"
  by (simp add: demo_command_line demo_options_def option_step_def initial_options_def)

lemma demo_options_simps [simp]:
  "run_libc demo_options = 0" "choose_tracefiles demo_options = ([''short1-bal.rep''], 1)" "tracedir demo_options = ''./''"
  by (simp_all add: demo_options_def initial_options_def choose_tracefiles_def)

lemma demo_loaded: "load_trace demo_host False i ''./'' ''demo.rep'' = Some (Inr demo_trace)"
  by (simp add: load_trace_def demo_host_def MAXLINE_def Let_def demo_read)

definition short1_trace :: trace_t where
  "short1_trace = \<lparr>sugg_heapsize = 20000, num_ids = 6, num_ops = 12, weight = 1, ops = short1_ops,
      blocks = replicate 6 None, block_sizes = replicate 6 None\<rparr>"

lemma short1_loaded: "load_trace demo_host False i ''./'' ''short1-bal.rep'' = Some (Inr short1_trace)"
  by (simp add: load_trace_def demo_host_def MAXLINE_def Let_def short1_read short1_trace_def)

lemma big_loaded: "load_trace demo_host False i ''./'' ''big.rep'' = Some (Inr big_trace)"
  by (simp add: load_trace_def demo_host_def MAXLINE_def Let_def big_read)

text \<open>The first-fit heap of \<open>mm.c\<close> serves the three traces.\<close>

lemma demo_fits: "trace_fits mm_heap 1000 demo_trace"
  by (simp add: trace_fits_def demo_trace_def demo_ops_def fills_plain_def heap_eval)

lemma short1_fits: "trace_fits mm_heap 5000 short1_trace"
  by (simp add: trace_fits_def short1_trace_def short1_ops_def fills_plain_def heap_eval)

lemma big_fits: "trace_fits mm_heap 12000000 big_trace" "MAX_HEAP < demand 0 (ops big_trace)"
  by (simp_all add: trace_fits_def big_trace_def big_ops_def fills_plain_def heap_eval)

lemma demo_host_simps [simp]:
  "option_memory demo_host = True" "stats_memory demo_host b = True" "range_memory demo_host i j = True"
  "posixly_correct demo_host = False"
  "heap_storage demo_host = 0x10000" "platform demo_host = \<lparr>cycle_hw = \<lparr>rdtsc = (\<lambda>w. ((0, 0), w)),
     tms_utime = (\<lambda>w. (0, w)), sleep_for = (\<lambda>_ w. w), rnd = (\<lambda>x. x)\<rparr>, unix_sys = microseconds, found = True,
     cache_memory = (\<lambda>_. None)\<rparr>"
  by (simp_all add: demo_host_def)

lemma demo_files: "files_fit demo_host mm_heap 5000 demo_options"
  using short1_loaded short1_fits
  by (simp add: files_fit_def)

lemma demo_driver_of: "driver_of demo_main = demo_driver"
  by (simp add: driver_of_def get_env_def demo_main_def)

lemma team_ok: "check_team team = None"
  by (simp add: check_team_def team_def)

text \<open>The same machine timed with the cycle counter of \<open>metronome\<close>.\<close>

definition cycles_h :: config where
  "cycles_h = \<lparr>USE_FCYC = 1, USE_ITIMER = 0, USE_GETTOD = 0\<rparr>"

definition cycles_host :: "int host" where
  "cycles_host = demo_host\<lparr>platform := \<lparr>cycle_hw = metronome, unix_sys = microseconds, found = True,
     cache_memory = fresh_pages\<rparr>\<rparr>"

lemma cycles_host_simps [simp]:
  "option_memory cycles_host = True" "stats_memory cycles_host b = True" "range_memory cycles_host i j = True"
  "posixly_correct cycles_host = False" "heap_storage cycles_host = 0x10000"
  by (simp_all add: cycles_host_def)

text \<open>\<open>mdriver -f big.rep\<close>\<close>

definition big_options :: options where
  "big_options = initial_options\<lparr>num_tracefiles := 1, tracedir := ''./'', tracefiles := Some [''big.rep'']\<rparr>"

lemma big_options_simps [simp]:
  "run_libc big_options = 0" "choose_tracefiles big_options = ([''big.rep''], 1)" "tracedir big_options = ''./''"
  by (simp_all add: big_options_def initial_options_def choose_tracefiles_def)

lemma big_parsed: "parse_options True (command_line False [''-f'', ''big.rep'']) initial_options = Some (Inr big_options)"
  by (simp add: command_line_def getopts.simps getopt_def main_optstring_def big_options_def
      option_step_def initial_options_def)

lemma cycles_files: "files_fit cycles_host mm_heap 12000000 big_options"
proof -
  have "load_trace cycles_host p i dir name = load_trace demo_host p i dir name" for p i dir name
    by (simp add: load_trace_def cycles_host_def Let_def)
  with big_loaded big_fits(1) show ?thesis
    by (simp add: files_fit_def)
qed

lemma cycles_can_time: "can_time cycles_h (platform cycles_host) (smp demo_main)"
proof (rule can_time_steady [where cyc = nat])
  show "steady (cycle_hw (platform cycles_host)) nat (\<lambda>n. int (n div 1000)) 1000 50" "awake (cycle_hw (platform cycles_host)) nat"
    "100 * per_event 1000 50 \<le> 2 ^ 53"
    using metronome_steady by (simp_all add: cycles_host_def)
  let ?st = "smp demo_main"
  have "4 \<le> unat (cache_block ?st)" "\<bar>sink ?st\<bar> < 2 ^ 31"
    "the_buf fresh_pages ?st = Some (replicate (unat (cache_bytes ?st) div 4) 0)"
    by (simp_all add: the_buf_def fresh_pages_def demo_main_def fcyc_defaults_def)
  with fresh_words [of ?st] show "cache_ready (cache_memory (platform cycles_host)) ?st"
    by (simp add: cache_ready_def cycles_host_def)
qed (simp_all add: cycles_host_def cycles_h_def)

text \<open>Every command line that runs \<open>mm.c\<close> on trace files in order comes to its end.\<close>

lemma demo_run:
  assumes "parse_options True (command_line False args) initial_options = Some (Inr o')" "run_libc o' = 0"
    "files_fit demo_host mm_heap 5000 o'"
  shows "\<exists>rep m'. main demo_host config_h team mm_package args demo_main = Some (Inr (rep, m'))
    \<and> rp_errors rep = 0 \<and> list_all (valid_stats (\<lambda>x. x)) (rp_mm rep)
    \<and> length (rp_mm rep) = length (fst (choose_tracefiles o')) \<and> rp_perf rep \<noteq> None"
  using mm.main_fits [of demo_host args o' team 5000 demo_main config_h] assms team_ok
  by (simp add: demo_driver_of demo_driver_def MAX_HEAP_val microseconds_def)

section \<open>The whole program\<close>

text \<open>
  Property C1. \<open>mdriver\<close> without \<open>-l\<close>, run on \<open>mm.c\<close>, comes to its end and finds every
  trace valid: there are no errors and a performance index is printed, whatever the clock
  says. The conditions: the options are accepted, the team data is complete, and the C
  library has memory for the driver's own lists; the storage of \<open>memlib.c\<close> is aligned to 8
  bytes and lies at least \<open>limit + 4128\<close> bytes before the end of the address space; every trace
  file can be read and holds a trace of at least one request, where ids are allocated before
  use, sizes lie between 1 and \<open>limit\<close>, no id with a fill byte of 128 or more is reallocated,
  and the first-fit heap of \<open>mm.c\<close>, with freed blocks given back, serves every request within
  \<open>MAX_HEAP\<close>. It holds in every configuration of \<open>config.h\<close> that can time a function: with the
  timers of the system always, with the cycle counter when \<open>fcyc\<close> has its memory
  and the buffer that it reads to clear the cache holds zeros, \<open>callibrate\<close> comes to its end
  and the clock rate is not measured as 0.
\<close>

theorem main_accepts_mm:
  assumes "parse_options (option_memory h) (command_line (posixly_correct h) args) initial_options = Some (Inr o')"
    and "team_check o' = 0 \<or> check_team tm = None" "run_libc o' = 0"
    and "stats_memory h False" "\<And>i j. range_memory h i j"
    and "heap_storage h \<noteq> NULL" "8 dvd unat (heap_storage h)"
    and "unat (heap_storage h) + MAX_HEAP + limit + 4128 \<le> 2 ^ 32"
    and "files_fit h mm_heap limit o'" "limit < 2 ^ 31" "errors (driver_of m) = 0"
    and "can_time cf (platform h) (smp m)"
  shows "\<exists>rep m'. main h cf tm mm_package args m = Some (Inr (rep, m'))
    \<and> rp_errors rep = 0 \<and> list_all (\<lambda>s. st_valid s = 1) (rp_mm rep)
    \<and> length (rp_mm rep) = length (fst (choose_tracefiles o')) \<and> rp_perf rep \<noteq> None"
proof -
  obtain rep m' where r: "main h cf tm mm_package args m = Some (Inr (rep, m'))" "rp_errors rep = 0"
    "list_all (valid_stats (frnd (unix_sys (platform h)))) (rp_mm rep)"
    "length (rp_mm rep) = length (fst (choose_tracefiles o'))" "rp_perf rep \<noteq> None"
    using mm.main_fits [OF assms(1-8) _ assms(9-12)] by auto
  then have "list_all (\<lambda>s. st_valid s = 1) (rp_mm rep)"
    by (simp add: list_all_iff valid_stats_def)
  with r show ?thesis
    by blast
qed

theorem main_accepts_mm_witness:
  "\<exists>rep m'. main cycles_host cycles_h team mm_package [''-f'', ''big.rep''] demo_main = Some (Inr (rep, m'))
    \<and> rp_errors rep = 0 \<and> map st_valid (rp_mm rep) = [1]"
proof -
  have "parse_options (option_memory cycles_host) (command_line (posixly_correct cycles_host) [''-f'', ''big.rep'']) initial_options
      = Some (Inr big_options)"
    by (simp add: big_parsed)
  from main_accepts_mm [OF this, of team 12000000 demo_main cycles_h]
  obtain rep m' where r: "main cycles_host cycles_h team mm_package [''-f'', ''big.rep''] demo_main = Some (Inr (rep, m'))"
    "rp_errors rep = 0" "list_all (\<lambda>s. st_valid s = 1) (rp_mm rep)" "length (rp_mm rep) = 1"
    using cycles_files cycles_can_time team_ok
    by (auto simp: demo_driver_of demo_driver_def MAX_HEAP_val)
  then obtain s where "rp_mm rep = [s]"
    by (cases "rp_mm rep") auto
  with r show ?thesis
    by auto
qed

text \<open>
  Property C17. For any malloc package, timed in any of the ways of \<open>config.h\<close>: the number of
  errors reported at the end is the number of traces found invalid, a performance index is
  printed exactly when every trace is valid, and the autograder's count of correct traces is
  the number of the others.
\<close>

theorem main_counts_errors:
  assumes "main h cf tm pk args m = Some (Inr (rep, m'))" "errors (driver_of m) = 0"
  shows "rp_errors rep = int (length (filter (\<lambda>s. st_valid s = 0) (rp_mm rep)))
    \<and> list_all (\<lambda>s. st_valid s = 0 \<or> st_valid s = 1) (rp_mm rep)
    \<and> (rp_perf rep \<noteq> None \<longleftrightarrow> list_all (\<lambda>s. st_valid s = 1) (rp_mm rep))
    \<and> map_option fst (rp_autograder rep) \<in> {None, Some (int (length (rp_mm rep)) - rp_errors rep)}"
  by (rule main_errors [OF assms])

theorem main_counts_errors_witness:
  "\<exists>rep m'. main demo_host config_h team mm_package demo_args demo_main = Some (Inr (rep, m'))
    \<and> (rp_perf rep \<noteq> None \<longleftrightarrow> list_all (\<lambda>s. st_valid s = 1) (rp_mm rep))"
proof -
  obtain rep m' where r: "main demo_host config_h team mm_package demo_args demo_main = Some (Inr (rep, m'))"
    using demo_run [OF demo_parsed demo_options_simps(1)] demo_files by blast
  have "errors (driver_of demo_main) = 0"
    by (simp add: demo_driver_of demo_driver_def)
  from main_counts_errors [OF r this] r show ?thesis
    by blast
qed

text \<open>
  Property C18. A trace file that cannot be opened ends a run without \<open>-l\<close> with the message of
  \<open>unix_error\<close>, after any number of traces that \<open>mm.c\<close> has passed: no table, no index and no
  lines for the autograder are printed. The traces before it are those of the run without
  errors: well-formed, with at least one request and no reallocated id whose fill byte is 128
  or more, and with sizes up to \<open>limit\<close> that the first-fit heap of \<open>mm.c\<close>, with freed blocks given back, serves within
  \<open>MAX_HEAP\<close>; storage, memory of the C library and clock are as there, and the path fits
  the buffer for the message.
\<close>

theorem main_missing_trace:
  assumes "parse_options (option_memory h) (command_line (posixly_correct h) args) initial_options = Some (Inr o')"
    and "team_check o' = 0 \<or> check_team tm = None" "run_libc o' = 0"
    and "stats_memory h False" "\<And>i j. range_memory h i j"
    and "heap_storage h \<noteq> NULL" "8 dvd unat (heap_storage h)"
    and "unat (heap_storage h) + MAX_HEAP + limit + 4128 \<le> 2 ^ 32" "limit < 2 ^ 31"
    and "can_time cf (platform h) (smp m)" "choose_tracefiles o' = (pre @ name # post, n)"
    and "\<And>j. j < length pre \<Longrightarrow>
      \<exists>t. load_trace h False (0 + int j) (tracedir o') (pre ! j) = Some (Inr t) \<and> trace_fits mm_heap limit t"
    and "open_file h (tracedir o' @ name) = None" "trace_memory h False (int (length pre)) 1"
    and "length (tracedir o' @ name) + 29 < MAXLINE"
  shows "main h cf tm mm_package args m
    = Some (Inl (unix_error (''Could not open '' @ (tracedir o' @ name) @ '' in read_trace'')))"
  by (rule mm.main_missing [OF assms(1-8) _ assms(9-15)]) simp

text \<open>\<open>mdriver\<close> without arguments, where only the first of the default trace files is there.\<close>

definition bare_host :: "int host" where
  "bare_host = demo_host\<lparr>open_file := (\<lambda>p. if p = TRACEDIR @ hd default_tracefiles then Some short1_bal else None)\<rparr>"

theorem main_missing_trace_witness:
  "main bare_host config_h team mm_package [] demo_main
    = Some (Inl (unix_error (''Could not open '' @ (TRACEDIR @ default_tracefiles ! 1) @ '' in read_trace'')))"
proof -
  have b: "option_memory bare_host = True" "stats_memory bare_host b = True" "range_memory bare_host i j = True"
    "trace_memory bare_host b k l = True" "posixly_correct bare_host = False" "heap_storage bare_host = 0x10000"
    for b i j k l
    by (simp_all add: bare_host_def demo_host_def)
  have o': "parse_options (option_memory bare_host) (command_line (posixly_correct bare_host) []) initial_options
      = Some (Inr initial_options)" "tracedir initial_options = TRACEDIR" "run_libc initial_options = 0"
    by (simp_all add: command_line_def getopts.simps getopt_def initial_options_def)
  have names: "choose_tracefiles initial_options
      = ([hd default_tracefiles] @ default_tracefiles ! 1 # drop 2 default_tracefiles, 11)"
    by (simp add: choose_tracefiles_def initial_options_def default_tracefiles_def)
  have first: "load_trace bare_host False i TRACEDIR (hd default_tracefiles) = Some (Inr short1_trace)" for i
    by (simp add: load_trace_def bare_host_def demo_host_def MAXLINE_def Let_def short1_read short1_trace_def
        TRACEDIR_def default_tracefiles_def)
  have second: "open_file bare_host (TRACEDIR @ default_tracefiles ! 1) = None"
    "length (TRACEDIR @ default_tracefiles ! 1) + 29 < MAXLINE"
    by (simp_all add: bare_host_def default_tracefiles_def TRACEDIR_def MAXLINE_def)
  show ?thesis
    using main_missing_trace [OF o'(1), of team 5000 config_h demo_main, OF _ _ _ _ _ _ _ _ _ names] first short1_fits
      second team_ok
    by (simp add: b o' MAX_HEAP_val)
qed

text \<open>
  What an iteration of the loop over the traces records for \<open>mm.c\<close>: the trace
  is valid, \<open>ops\<close> is the number of its requests and \<open>util\<close> the rounded quotient of its
  high-water mark and the size of the heap; the storage is left in order for the next trace.
\<close>

lemma mm_trace_records:
  assumes "load_trace h False i dir name = Some (Inr t)" "trace_fits mm_heap limit t"
    and "storage_ok (limit + 4128) (mach (driver_of m))" "limit < 2 ^ 31" "\<And>j. range_memory h i j"
    and "timing_ready cf (lift_platform (platform h)) m"
  shows "\<exists>st m' size. mm_trace h cf mm_package dir i name m = Some (Inr (st, m'))
    \<and> st_valid st = 1 \<and> st_ops st = real (length (ops t))
    \<and> st_util st = frnd (unix_sys (platform h)) (real (high_water (length (blocks t)) (\<lambda>_. 0) (ops t)) / real size)
    \<and> high_water (length (blocks t)) (\<lambda>_. 0) (ops t) \<le> size
    \<and> storage_ok (limit + 4128) (mach (driver_of m')) \<and> errors (driver_of m') = errors (driver_of m)
    \<and> timing_ready cf (lift_platform (platform h)) m'"
  by (rule mm.mm_trace_fits [OF assms])

lemma mm_trace_records_witness:
  "\<exists>st m' size. mm_trace demo_host config_h mm_package ''./'' 0 ''demo.rep'' demo_main = Some (Inr (st, m'))
    \<and> st_valid st = 1 \<and> st_ops st = 5 \<and> st_util st = 600 / real size \<and> 600 \<le> size"
proof -
  have hw: "high_water (length (blocks demo_trace)) (\<lambda>_. 0) (ops demo_trace) = 600"
    by (simp add: demo_trace_def demo_ops_def after_op_def lessThan_nat_numeral lessThan_Suc)
  have "storage_ok (1000 + 4128) (mach (driver_of demo_main))"
    using start_state_ok by (simp add: storage_ok_def demo_driver_of demo_driver_def mem_reset_brk_def arena_ok_def)
  moreover have "length (ops demo_trace) = 5"
    by (simp add: demo_trace_def demo_ops_def)
  ultimately show ?thesis
    using mm_trace_records [OF demo_loaded demo_fits, of demo_main 0 config_h] hw
    by (simp add: timing_ready_def microseconds_def) blast
qed

section \<open>Timing\<close>

text \<open>
  Property C23. For any package, the timed routine \<open>eval_mm_speed\<close> makes the same calls as
  \<open>eval_mm_util\<close>: on a trace that the latter gets through it ends normally, with the same
  heap and the same blocks.
\<close>

theorem eval_mm_speed_equals_util:
  assumes "eval_mm_util pk rn (t, d) = Some (Inr (u, (t', d')))"
  shows "\<exists>r. eval_mm_speed pk (t, d) = Some (Next (r, d')) \<and> blocks r = blocks t'"
  by (rule eval_mm_speed_follows [OF assms]) simp_all

theorem eval_mm_speed_equals_util_witness:
  "\<exists>s. eval_mm_speed mm_package (demo_trace, demo_driver) = Some (Next s)"
proof -
  have "storage_ok (1000 + 4128) (mach demo_driver)"
    using start_state_ok by (simp add: storage_ok_def demo_driver_def mem_reset_brk_def arena_ok_def)
  from mm.util_fits [OF this demo_fits, of "\<lambda>x. x"]
  obtain t' d' u where "eval_mm_util mm_package (\<lambda>x. x) (demo_trace, demo_driver) = Some (Inr (u, (t', d')))"
    by auto
  from eval_mm_speed_equals_util [OF this] show ?thesis
    by blast
qed

section \<open>The report\<close>

text \<open>A rounding: truncation to 53 binary places.\<close>

definition truncate53 :: "real \<Rightarrow> real" where
  "truncate53 x = of_int \<lfloor>x * 2 ^ 53\<rfloor> / 2 ^ 53"

lemma truncate53_rounding: "rounding 100 truncate53"
proof -
  have "truncate53 (of_int k / 2 ^ 53) = of_int k / 2 ^ 53" for k
    by (simp add: truncate53_def)
  then have exact: "truncate53 x = x" if "x = of_int k / 2 ^ 53" for x k
    using that by (simp only:)
  have "truncate53 (real k) = real k" for k
    by (rule exact [of _ "int k * 2 ^ 53"]) simp
  moreover have "truncate53 (1 - truncate53 (60 / 100)) = 1 - truncate53 (60 / 100)"
    by (rule exact [of _ "2 ^ 53 - \<lfloor>60 / 100 * 2 ^ 53 :: real\<rfloor>"]) (simp only: truncate53_def of_int_diff, simp add: diff_divide_distrib)
  moreover have "truncate53 x \<le> truncate53 y" if "x \<le> y" for x y
    using that by (simp add: truncate53_def divide_right_mono floor_mono)
  ultimately show ?thesis
    using exact by (simp add: rounding_def truncate53_def)
qed

definition demo_stats :: "stats_t list" where
  "demo_stats = [\<lparr>st_ops = 5000, st_valid = 1, st_secs = 1 / 100, st_util = 3 / 4\<rparr>,
     \<lparr>st_ops = 7000, st_valid = 1, st_secs = 1 / 50, st_util = 1 / 2\<rparr>]"

definition idle_stats :: "stats_t list" where
  "idle_stats = [\<lparr>st_ops = 0, st_valid = 1, st_secs = 0, st_util = 0\<rparr>]"

text \<open>
  Property C24. The performance index over up to 100 traces with utilizations between 0 and 1,
  counts of requests and times that are not negative is a finite number between 0 and 100, in
  spite of the rounding of every operation, whenever there was a request or some time passed
  (also when all the times are 0, where the throughput is infinite). In the only other case,
  no requests and no time at all, the throughput is 0/0, and the index is not a number.
\<close>

theorem perf_index_bounds:
  assumes "rounding n rn" "100 \<le> n" "list_all good_stats sts" "sts \<noteq> []" "length sts \<le> n"
    and "accumulate rn sts (\<lparr>agg_secs = 0, agg_ops = 0, agg_util = 0\<rparr>, 0) = (a, numcorrect)"
  shows "(agg_secs a = 0 \<and> agg_ops a = 0 \<and> pf_index (perf rn (int (length sts)) a) = NaN)
    \<or> ((0 < agg_secs a \<or> 0 < agg_ops a)
        \<and> (\<exists>x. pf_index (perf rn (int (length sts)) a) = Fin x \<and> 0 \<le> x \<and> x \<le> 100))"
  by (rule index_cases [OF assms])

theorem perf_index_bounds_witness:
  "(\<exists>a c x. accumulate truncate53 demo_stats (\<lparr>agg_secs = 0, agg_ops = 0, agg_util = 0\<rparr>, 0) = (a, c)
      \<and> pf_index (perf truncate53 2 a) = Fin x \<and> 0 \<le> x \<and> x \<le> 100)
    \<and> (\<exists>a c. accumulate truncate53 idle_stats (\<lparr>agg_secs = 0, agg_ops = 0, agg_util = 0\<rparr>, 0) = (a, c)
      \<and> pf_index (perf truncate53 1 a) = NaN)"
proof
  obtain a c where a: "accumulate truncate53 demo_stats (\<lparr>agg_secs = 0, agg_ops = 0, agg_util = 0\<rparr>, 0) = (a, c)"
    by fastforce
  have "list_all good_stats demo_stats" "demo_stats \<noteq> []" "length demo_stats = 2"
    by (simp_all add: demo_stats_def good_stats_def)
  moreover have "agg_ops a = 12000"
    using a by (auto simp: demo_stats_def truncate53_def)
  ultimately show "\<exists>a c x. accumulate truncate53 demo_stats (\<lparr>agg_secs = 0, agg_ops = 0, agg_util = 0\<rparr>, 0) = (a, c)
      \<and> pf_index (perf truncate53 2 a) = Fin x \<and> 0 \<le> x \<and> x \<le> 100"
    using perf_index_bounds [OF truncate53_rounding, of demo_stats a c] a by auto
next
  obtain a c where a: "accumulate truncate53 idle_stats (\<lparr>agg_secs = 0, agg_ops = 0, agg_util = 0\<rparr>, 0) = (a, c)"
    by fastforce
  have "list_all good_stats idle_stats" "idle_stats \<noteq> []" "length idle_stats = 1"
    by (simp_all add: idle_stats_def good_stats_def)
  moreover have "agg_ops a = 0" "agg_secs a = 0"
    using a by (auto simp: idle_stats_def truncate53_def)
  ultimately show "\<exists>a c. accumulate truncate53 idle_stats (\<lparr>agg_secs = 0, agg_ops = 0, agg_util = 0\<rparr>, 0) = (a, c)
      \<and> pf_index (perf truncate53 1 a) = NaN"
    using perf_index_bounds [OF truncate53_rounding, of idle_stats a c] a by auto
qed

text \<open>
  With exact arithmetic the index is 60 times the mean utilization plus 40
  times the throughput in units of 600000 requests a second, the latter capped at 1.
\<close>

lemma perf_index_exact:
  assumes "0 < k" "0 < agg_secs a"
  shows "pf_index (perf (\<lambda>x. x) k a) =
    Fin (60 * (agg_util a / of_int k) + 40 * min 1 (agg_ops a / agg_secs a / AVG_LIBC_THRUPUT))"
  by (rule perf_exact [OF assms])

lemma perf_index_exact_witness:
  "pf_index (perf (\<lambda>x. x) 2 \<lparr>agg_secs = 1 / 10, agg_ops = 30000, agg_util = 3 / 2\<rparr>) = Fin 65"
  using perf_index_exact [of 2 "\<lparr>agg_secs = 1 / 10, agg_ops = 30000, agg_util = 3 / 2\<rparr>"]
  by (simp add: AVG_LIBC_THRUPUT_def)

text \<open>
  When every trace is valid, the last line of the table that \<open>printresults\<close> shows
  is made of the very totals the performance index is computed from.
\<close>

lemma printresults_total:
  assumes "list_all (\<lambda>s. st_valid s \<noteq> 0) sts"
    and "accumulate rn sts (\<lparr>agg_secs = 0, agg_ops = 0, agg_util = 0\<rparr>, 0) = (a, numcorrect)"
  shows "tb_total (printresults rn 0 n sts) =
      Some (double_times rn 100 (double_quotient rn (agg_util a) (of_int n)), agg_ops a, agg_secs a,
            double_quotient rn (rn (agg_ops a / 1000)) (agg_secs a))
    \<and> numcorrect = int (length sts)"
proof -
  have "table_agg rn sts \<lparr>agg_secs = 0, agg_ops = 0, agg_util = 0\<rparr> = a"
    using table_agg_valid [OF assms(1), of rn "\<lparr>agg_secs = 0, agg_ops = 0, agg_util = 0\<rparr>" 0] assms(2) by simp
  moreover have "filter (\<lambda>s. st_valid s \<noteq> 0) sts = sts"
    using assms(1) by (simp add: list_all_iff)
  ultimately show ?thesis
    using accumulate_count [of rn sts "\<lparr>agg_secs = 0, agg_ops = 0, agg_util = 0\<rparr>" 0] assms(2)
    by (simp add: printresults_def Let_def)
qed

lemma printresults_total_witness:
  "tb_total (printresults (\<lambda>x. x) 0 2 demo_stats) = Some (Fin (125 / 2), 12000, 3 / 100, Fin 400)"
proof -
  have "list_all (\<lambda>s. st_valid s \<noteq> 0) demo_stats"
    "accumulate (\<lambda>x. x) demo_stats (\<lparr>agg_secs = 0, agg_ops = 0, agg_util = 0\<rparr>, 0)
      = (\<lparr>agg_secs = 3 / 100, agg_ops = 12000, agg_util = 5 / 4\<rparr>, 2)"
    by (simp_all add: demo_stats_def)
  from printresults_total [OF this, of 2] show ?thesis
    by (simp add: double_times_def double_quotient_def)
qed

section \<open>The output\<close>

text \<open>
  Property C19. Everything a run without \<open>-v\<close>, \<open>-V\<close> and
  \<open>-l\<close> writes to the standard output, for any malloc package timed in any of the
  ways of \<open>config.h\<close>: the team, the directory of the default traces, one line for
  each invalid trace, in the order of the traces, then the index or the number of errors, and
  the lines for the autograder.
\<close>

theorem main_default_output:
  assumes "main h cf tm pk args m = Some (Inr (rep, m'))"
    and "parse_options (option_memory h) (command_line (posixly_correct h) args) initial_options = Some (Inr o')"
    and "verbose o' = 0" "run_libc o' = 0"
  shows "\<exists>es. log (driver_of m') = log (driver_of m) @ es \<and> map fst es = invalid_traces 0 (rp_mm rep)
    \<and> rp_output rep = team_text o' tm @ tracefiles_text o' @ concat (map (malloc_error_text (show_ptr h)) es)
        @ perf_text (frnd (unix_sys (platform h))) (show_nan h) (rp_errors rep) (rp_perf rep)
        @ autograder_text (show_nan h) (rp_autograder rep)"
  by (rule main_quiet_output [OF assms])

text \<open>A package that cannot be initialized, run with \<open>mdriver -g -f demo.rep\<close>.\<close>

definition broken_package :: "unit mm_ext package" where
  "broken_package = \<lparr>pk_init = (\<lambda>s. Some (- 1, s)), pk_malloc = (\<lambda>_ s. Some (NULL, s)),
     pk_free = (\<lambda>_ s. Some s), pk_realloc = (\<lambda>_ _ s. Some (NULL, s))\<rparr>"

definition grade_args :: "string list" where
  "grade_args = [''-g'', ''-f'', ''demo.rep'']"

definition grade_options :: options where
  "grade_options = initial_options\<lparr>autograder := 1, num_tracefiles := 1, tracedir := ''./'',
     tracefiles := Some [''demo.rep'']\<rparr>"

lemma grade_parsed: "parse_options True (command_line False grade_args) initial_options = Some (Inr grade_options)"
  by (simp add: command_line_def grade_args_def getopts.simps getopt_def main_optstring_def grade_options_def
      option_step_def initial_options_def)

lemma grade_options_simps [simp]:
  "run_libc grade_options = 0" "verbose grade_options = 0" "autograder grade_options = 1" "team_check grade_options = 1"
  "choose_tracefiles grade_options = ([''demo.rep''], 1)" "tracedir grade_options = ''./''"
  "tracefiles grade_options = Some [''demo.rep'']"
  by (simp_all add: grade_options_def initial_options_def choose_tracefiles_def)

theorem main_default_output_witness:
  "\<exists>rep m'. main demo_host config_h team broken_package grade_args demo_main = Some (Inr (rep, m'))
    \<and> rp_output rep = line ''Team Name:Green 1 team'' @ line ''Member 1 :Lee Yang Sang:ysl960330@gmail.com''
        @ line ''ERROR [trace 0, line 5]: mm_init failed.'' @ line ''Terminated with 1 errors''
        @ line ''correct:0'' @ line ''perfidx:0''"
proof -
  have num: "signed (num_ops demo_trace) = (5 :: real)"
    by (simp add: demo_trace_def)
  let ?names = "[''demo.rep'']" and ?st = "no_stats\<lparr>st_ops := 5, st_valid := 0\<rparr>"
  have trace: "\<exists>m'. each_trace (mm_trace demo_host config_h broken_package ''./'') 0 ?names m = Some (Inr ([?st], m'))
      \<and> log (driver_of m') = log (driver_of m) @ [(0, 5, Init_Failed)]
      \<and> errors (driver_of m') = errors (driver_of m) + 1" for m :: "(unit mm_ext, int) main_state"
  proof -
    obtain t d w where e: "get_env m = ((t, d), w)"
      by (cases "get_env m") auto
    then show ?thesis
      by (simp add: mm_trace_def demo_loaded eval_mm_valid_def broken_package_def Let_def LINENUM_def num
          clear_ranges_def driver_of_def [of m])
  qed
  obtain m1 where mm: "run_mm_part demo_host config_h broken_package grade_options ?names (demo_main\<lparr>Mhz := 0\<rparr>)
      = Some (Inr ([?st], m1))" "log (driver_of m1) = [(0, 5, Init_Failed)]" "errors (driver_of m1) = 1"
  proof -
    let ?s = "mach demo_driver\<lparr>mem_start_brk := 0x10000, mem_max_addr := 0x10000 + of_nat MAX_HEAP, mem_brk := 0x10000\<rparr>"
    have "get_env (demo_main\<lparr>Mhz := 0\<rparr>) = ((demo_trace, demo_driver), 0)"
      by (simp add: get_env_def demo_main_def)
    with trace [of "put_env ((demo_trace, demo_driver\<lparr>mach := ?s\<rparr>), 0) (demo_main\<lparr>Mhz := 0\<rparr>)"] that show thesis
      by (auto simp: run_mm_part_def mem_init_def demo_driver_def)
  qed
  obtain r where r: "main demo_host config_h team broken_package grade_args demo_main = Some (Inr (r, m1))"
    "rp_mm r = [?st]" "rp_errors r = 1" "rp_perf r = None" "rp_autograder r = Some (0, Fin 0)"
  proof -
    have "\<exists>r. main demo_host config_h team broken_package grade_args demo_main = Some (Inr (r, m1))
      \<and> rp_mm r = [?st] \<and> rp_errors r = 1 \<and> rp_perf r = None \<and> rp_autograder r = Some (0, Fin 0)"
      using mm grade_parsed team_ok
      by (simp add: main_def init_fsecs_config_h run_libc_part_def summary_def Let_def)
    with that show thesis
      by blast
  qed
  have "parse_options (option_memory demo_host) (command_line (posixly_correct demo_host) grade_args) initial_options
      = Some (Inr grade_options)"
    by (simp add: grade_parsed)
  from main_default_output [OF r(1) this] obtain es where es: "log (driver_of m1) = log (driver_of demo_main) @ es"
    "rp_output r = team_text grade_options team @ tracefiles_text grade_options
      @ concat (map (malloc_error_text (show_ptr demo_host)) es)
      @ perf_text (frnd (unix_sys (platform demo_host))) (show_nan demo_host) 1 None
      @ autograder_text (show_nan demo_host) (Some (0, Fin 0))"
    by (auto simp: r(3-5))
  have "es = [(0, 5, Init_Failed)]"
    using es(1) mm(2) by (simp add: demo_driver_of demo_driver_def)
  with es(2) r(1) show ?thesis
    by (auto simp: team_text_def team_def tracefiles_text_def malloc_error_text_def error_text_def perf_text_def
        autograder_text_def show_int_def fixed_double_def fixed_def round_even_def decimal.simps digit_chars
        digit_chars(2) [unfolded One_nat_def])
qed

text \<open>
  Property C20. A script that reads the last two lines which \<open>mdriver -g\<close> prints for \<open>mm.c\<close>
  gets, after \<open>correct:\<close>, the number of the trace files, and, after \<open>perfidx:\<close>, a number
  between 0 and 100: without \<open>-l\<close>, with the options accepted, the team data complete, the
  memory of the C library and the storage as in the run without errors, trace files that can
  be read and hold well-formed traces of at least one request without a reallocated id whose
  fill byte is 128 or more, whose sizes are at most \<open>limit\<close> and whose requests the first-fit
  heap of \<open>mm.c\<close>, with freed blocks given back, serves within \<open>MAX_HEAP\<close>, with the \<open>config.h\<close> that comes with the program, a clock that does not go
  backwards and exact arithmetic.
\<close>

theorem main_grades_mm:
  assumes "parse_options (option_memory h) (command_line (posixly_correct h) args) initial_options = Some (Inr o')"
    and "team_check o' = 0 \<or> check_team tm = None" "run_libc o' = 0" "autograder o' \<noteq> 0"
    and "stats_memory h False" "\<And>i j. range_memory h i j"
    and "heap_storage h \<noteq> NULL" "8 dvd unat (heap_storage h)"
    and "unat (heap_storage h) + MAX_HEAP + limit + 4128 \<le> 2 ^ 32"
    and "files_fit h mm_heap limit o'" "limit < 2 ^ 31" "errors (driver_of m) = 0" "clock_forward h now"
  shows "\<exists>rep m' pre c p j. main h config_h tm mm_package args m = Some (Inr (rep, m'))
    \<and> rp_output rep = pre @ ''correct:'' @ c
    \<and> fscanf_d old c = Some (of_nat (length (fst (choose_tracefiles o'))), CHR 0x0A # ''perfidx:'' @ p)
    \<and> fscanf_d old p = Some (of_nat j, [CHR 0x0A]) \<and> j \<le> 100"
proof -
  obtain rep m' where r: "main h config_h tm mm_package args m = Some (Inr (rep, m'))"
    "list_all (valid_stats (frnd (unix_sys (platform h)))) (rp_mm rep)"
    "length (rp_mm rep) = length (fst (choose_tracefiles o'))"
    using mm.main_fits [OF assms(1-3,5-9) _ assms(10-12) can_time_config_h] by auto
  from valid_run_grade [OF r(1) assms(1,4,13) r(2), of old] r(1,3) show ?thesis
    by auto
qed

lemma microseconds_now: "seconds (fst (gettimeofday microseconds t)) = real_of_int t / 1000000"
proof -
  have "real_of_int (t div 1000000) * 1000000 + real_of_int (t mod 1000000) = real_of_int t"
    by (metis of_int_add of_int_mult of_int_numeral div_mult_mod_eq)
  then show ?thesis
    by (simp add: seconds_def microseconds_def field_simps)
qed

theorem main_grades_mm_witness:
  "\<exists>rep m' pre c p j. main demo_host config_h team mm_package grade_args demo_main = Some (Inr (rep, m'))
    \<and> rp_output rep = pre @ ''correct:'' @ c \<and> fscanf_d 0 c = Some (1, CHR 0x0A # ''perfidx:'' @ p)
    \<and> fscanf_d 0 p = Some (of_nat j, [CHR 0x0A]) \<and> j \<le> 100"
proof -
  have "files_fit demo_host mm_heap 1000 grade_options"
    using demo_loaded demo_fits by (simp add: files_fit_def)
  moreover have "clock_forward demo_host (\<lambda>w. real_of_int w / 1000000)"
    using microseconds_now by (simp add: clock_forward_def demo_host_def) (simp add: microseconds_def)
  ultimately show ?thesis
    using main_grades_mm [of demo_host grade_args grade_options team 1000 demo_main _ 0] grade_parsed team_ok
    by (simp add: demo_driver_of demo_driver_def MAX_HEAP_val) 
qed

section \<open>The command line\<close>

text \<open>
  Property C32. After the options the rest of \<open>main\<close> finds its variables well-formed: the trace
  directory is not empty, ends with a slash and fits its buffer of 1024 bytes; there is a list of
  between 1 and 11 file names, with its length in \<open>num_tracefiles\<close>; and with a file of its own
  (\<open>-f\<close>) the directory is the current one, wherever \<open>-t\<close> stood.
\<close>

theorem parse_options_wf:
  assumes "parse_options memory args initial_options = Some (Inr o')"
  shows "options_ok o'
    \<and> (case choose_tracefiles o' of (names, n) \<Rightarrow> n = int (length names) \<and> 0 < n \<and> n \<le> 11)"
  using parse_options_ok [OF initial_options_ok assms] choose_tracefiles_length [of o']
  by (cases "choose_tracefiles o'") auto

theorem parse_options_wf_witness:
  "options_ok demo_options \<and> choose_tracefiles demo_options = ([''short1-bal.rep''], 1)"
  using parse_options_wf [OF demo_parsed] by simp

end
