(* ===== verification/Spec2Isabelle.thy ===== *)
theory Spec2Isabelle
  imports Memlib_Correct Mm_Correct Driver_Correct Timing_Correct Main_Correct
begin

text \<open>
  A verification of the CS:APP malloc lab: the allocator of \<open>mm.c\<close>, the simulated memory it
  lives in (\<open>memlib.c\<close>), and the driver that tests and times it (\<open>mdriver.c\<close>, with
  \<open>fsecs.c\<close>, \<open>ftimer.c\<close>, \<open>fcyc.c\<close> and \<open>clock.c\<close>), as a 32-bit program.

  \<^bold>\<open>How the parts interact.\<close> The driver reads traces of requests, runs them against a malloc
  package (the four functions of \<open>mm.h\<close>), checks and times it, and prints a report. The
  package gets memory from the simulated memory system only. The timing files measure the
  function they are handed, here the driver's request loop.

  \<^bold>\<open>Theories, bottom up.\<close>

  \<^item> \<open>Prelude\<close>: types of machine words and addresses, the named theorem collections, facts on
    32-bit words in the form \<open>of_nat n\<close>, and little-endian access to byte memory.
  \<^item> \<open>Memlib\<close> (\<open>memlib.c\<close>): the record \<open>mem\<close> holds the bytes, the three pointers and \<open>errno\<close>;
    one definition per function; reads and writes outside the storage have no defined result
    (\<open>None\<close>). \<open>arena_ok\<close> is its invariant, \<open>changes_only\<close> the frame of a write.
    \<open>Memlib_Correct\<close>: \<open>mem_sbrk\<close> as a bounded extension, and its wrap-around.
  \<^item> \<open>Mm\<close> (\<open>mm.c\<close>): the macros, \<open>coalesce\<close>, \<open>extend_heap\<close>, \<open>mm_init\<close>, \<open>find_fit\<close>, \<open>place\<close>,
    \<open>mm_malloc\<close>, \<open>mm_free\<close>, \<open>mm_realloc\<close>, on the memory extended by \<open>heap_listp\<close>.
  \<^item> \<open>Blocks\<close>: the abstract heap, a list of blocks (size, allocated), with a specification of
    each operation. \<open>Mm_Layout\<close> relates it to the boundary tags (\<open>heap_rep\<close>);
    \<open>Mm_Coalesce\<close>, \<open>Mm_Refine\<close> and \<open>Mm_Alloc\<close> prove that the functions implement the
    specifications, \<open>Mm_Client\<close> states the results in terms of the live blocks.
  \<^item> \<open>Package\<close> (\<open>mm.h\<close>): a package as a record of four functions, and its contract, the
    locale \<open>malloc_package\<close>; its extension \<open>exact_package\<close> is the contract of a package whose
    blocks and failures an abstract heap (\<open>heap_spec\<close>) foretells. \<open>Client\<close>: programs that use
    a package, as an inductive step
    relation; in the locale, all of their reachable states are safe. \<open>Client_Data\<close>: such a
    program side by side with an ideal store, a map from the blocks it holds to their bytes;
    the steps of the package simulate those of the store, and no block is handed out that
    shares a byte with another.
  \<^item> \<open>Scanf\<close>: the three formats of \<open>fscanf\<close> that \<open>mdriver.c\<close> uses, on characters, and
    decimal numbers that are read back as written. \<open>Ranges\<close>, \<open>Trace\<close>, \<open>Driver\<close>
    (\<open>mdriver.c\<close>): the range list, the trace data and \<open>read_trace\<close>, and the evaluation
    routines, over any package. \<open>Trace_Text\<close>: traces written as text, and what \<open>read_trace\<close>
    makes of it. \<open>Driver_Valid\<close>, \<open>Driver_Util\<close>, \<open>Driver_Speed\<close>: the results of the
    routines on a package that keeps the contract, and what they have in common;
    \<open>serves hs xs\<close> runs the requests of a trace on the abstract heap, frees included.
    \<open>Driver_Loop\<close>: the loop over the requests, which they share. \<open>Driver_Check\<close>: what
    \<open>eval_mm_valid\<close> has checked of a package about which nothing is known, each payload
    against the payloads of all the ids in use (\<open>passed\<close>, \<open>in_use\<close>).
  \<^item> \<open>Mm_Package\<close>: \<open>mm.c\<close> is such a package (the interpretation \<open>mm\<close>, with \<open>mm_rep\<close> as its
    invariant, at most 4128 bytes of overhead per request, and the first-fit heap \<open>mm_heap\<close>
    within \<open>MAX_HEAP\<close> as its exact specification). Every property of the driver run on
    \<open>mm.c\<close> rests on it. \<open>Mm_Reuse\<close>: a freed block serves the next request, and the heap is
    one free block again when all blocks are freed.
  \<^item> \<open>Clock\<close> (\<open>clock.c\<close>), \<open>Fcyc\<close> (\<open>fcyc.c\<close>), \<open>Ftimer\<close> (\<open>ftimer.c\<close>), \<open>Fsecs\<close> (\<open>fsecs.c\<close>):
    the static variables of the files are the records \<open>clock\<close>, \<open>sampler\<close>, \<open>itimers\<close> and
    \<open>timing\<close>. \<open>Fcyc_Best\<close>: the array of samples against sorting (the locale
    \<open>sample_store\<close>, interpreted on \<open>add_sample\<close>, \<open>has_converged\<close> and \<open>values[0]\<close>).
    \<open>Fcyc_Run\<close>: the measurement loop as a whole, and \<open>clear\<close>. \<open>Clock_Steady\<close>: \<open>callibrate\<close> and
    \<open>mhz\<close> on a machine (\<open>steady\<close>) whose counter advances with every reading, by at most
    \<open>D\<close> cycles, and whose user time never goes back and advances at least once in \<open>T\<close> cycles. \<open>Timer\<close>, \<open>Timer_Returns\<close>: what
    the ways of timing have in common (the locale \<open>timer\<close>: timing keeps what the function
    keeps; its extension \<open>total_timer\<close>: timing returns), interpreted on \<open>fcyc\<close>, the two timers
    of \<open>ftimer.c\<close> and \<open>fsecs\<close>, so that results on \<open>main\<close> hold in every configuration of
    \<open>config.h\<close> where they do not say otherwise.
  \<^item> \<open>Getopt\<close>: \<open>getopt\<close> with the option string of \<open>main\<close>, from the arguments of the program
    to the options, and how options may be spelled.
  \<^item> \<open>Options\<close>, \<open>Report\<close>, \<open>Mdriver\<close> (\<open>main\<close> in \<open>mdriver.c\<close>): the command line and the team
    data, the table and the performance index, and the loops over the trace files.
    \<open>Printf\<close>, \<open>Output\<close>: the conversions of \<open>printf\<close>, and the text of the messages, of the
    table and of everything else written to the standard output. \<open>Mdriver_Timing\<close>, \<open>Mdriver_Facts\<close>,
    \<open>Main_Facts\<close>, \<open>Main_Output\<close>: timing with the variables of the driver around, the count of
    errors, a whole run, and its output.
  \<^item> \<open>Mm_Correct\<close>, \<open>Driver_Correct\<close>, \<open>Timing_Correct\<close>, \<open>Main_Correct\<close>: the numbered
    properties, each followed by its use at a concrete input.

  \<^bold>\<open>Conventions.\<close> A function returns \<open>None\<close> where the C code has no defined behaviour or
  does not return; a value of type \<open>exit\<close> on the left of a sum is the end of the process,
  with its status and its last message.
  An array is a list of its allocated length. Integers that may wrap are 32-bit words;
  \<open>int\<close> results whose overflow is undefined are checked (the sum in \<open>clear_loop\<close> too). A \<open>double\<close> is a real number rounded
  by a parameter after every operation; quotients by zero are \<open>None\<close> or a value of the type
  \<open>double\<close> of \<open>Report\<close>, overflow to infinity and signed zeros are left out. Results under exact
  arithmetic take the identity as the rounding and say so.

  \<^bold>\<open>What the lemmas show.\<close> For \<open>mm.c\<close>: each function refines its specification on block
  lists, no program that keeps to its own blocks can break the heap, each of its bytes reads
  as it was last written, freed memory is used again and merged back into one block, and
  where the code goes wrong (requests close to \<open>2 ^ 32\<close>, null pointers). For the driver: what
  \<open>eval_mm_valid\<close> accepts, what its approval means and what it rejects wrongly, the value of
  \<open>eval_mm_util\<close>, that \<open>eval_mm_speed\<close> follows it, the parser on the text of a file (round
  trip, what holds of every trace it returns, the array it overruns), the range list. For the
  timing files: the value of every timer, also where the counter of the Alpha wraps around,
  termination of \<open>fcyc\<close> with its result, when \<open>callibrate\<close> ends, and the two loops that may
  never end. For \<open>main\<close>: a run on \<open>mm.c\<close> ends without errors in every configuration that can
  time a function; errors, valid traces and the printed index agree for any package; the index
  lies between 0 and 100, or is 0/0 where nothing was run; the output in the default mode, and what a program gets that reads
  the autograder's lines; the end that a missing trace file puts to a run.

  \<^bold>\<open>Bounds and fuel.\<close> No definition takes fuel: \<open>find_fit_loop\<close>, \<open>callibrate_loop\<close> and
  \<open>clear_loop\<close> are partial functions with \<open>None\<close> for an endless loop, and the properties
  state when they return; \<open>fcyc_loop\<close> terminates because every round adds a sample. The
  number 4128 is the largest overhead of one request: the smallest heap extension of 4096
  bytes, tags and rounding. \<open>limit\<close> bounds the size of the requests so that the break cannot
  wrap around.

  \<^bold>\<open>Parameters.\<close> \<open>malloc\<close>, \<open>calloc\<close> and the file system (what they deliver, a file as the
  string of its characters), whether \<open>POSIXLY_CORRECT\<close> is set, how \<open>printf\<close>
  shows an address and a NaN, the C library's allocator in \<open>eval_libc_valid\<close> and
  \<open>eval_libc_speed\<close>, the instruction \<open>rdtsc\<close>, \<open>times\<close>, \<open>sleep\<close>, \<open>gettimeofday\<close>, the
  interval timers, and how far the world moves on while a trace runs.

  \<^bold>\<open>Not modelled.\<close> What a run that ends early has printed before its last message, and what
  \<open>strerror\<close> adds to it; the warning of \<open>get_counter\<close> about a negative result; the Alpha
  instructions behind \<open>counter\<close>; the macros \<open>ALIGN\<close> and \<open>SIZE_T_SIZE\<close> of \<open>mm.c\<close>, which nothing uses; code under the switches \<open>KEEP_SAMPLES\<close>, \<open>KEEP_VALS\<close> and \<open>DEBUG\<close>, which
  are off. The limits of a C \<open>long\<close> in time values are not checked.
\<close>

end
